(* ===== verification/Prelude.thy ===== *)
theory Prelude
  imports Main "HOL-Library.Word"
begin

text \<open>
  Shared vocabulary of the development: the machine types of the two programs, the collections
  of rewrite rules the component theories extend, little-endian storage of 16-bit values,
  overwriting a range of a buffer, decimal numerals, and arithmetic of 16-bit sequence numbers.
\<close>

unbundle bit_operations_syntax

type_synonym byte = "8 word"
type_synonym u16 = "16 word"
type_synonym u32 = "32 word"
type_synonym buffer = "byte list"

text \<open>
  \<open>bytes_simps\<close> collects the rules on 16-bit fields of a buffer, \<open>packet_simps\<close> those on the
  packets of \<^verbatim>\<open>ftpclient/srtp_common.h\<close>, \<open>world_simps\<close> those on the effects of library calls.
\<close>

named_theorems bytes_simps
named_theorems packet_simps
named_theorems world_simps

section \<open>Sixteen-bit values in memory\<close>

definition lo8 :: "u16 \<Rightarrow> byte" where
  "lo8 w = ucast w"

definition hi8 :: "u16 \<Rightarrow> byte" where
  "hi8 w = ucast (drop_bit 8 w)"

definition join16 :: "byte \<Rightarrow> byte \<Rightarrow> u16" where
  "join16 lo hi = ucast lo OR push_bit 8 (ucast hi)"

text \<open>Loads and stores of a \<^verbatim>\<open>uint16_t\<close> through a pointer, on a little-endian host.\<close>

definition load16 :: "buffer \<Rightarrow> nat \<Rightarrow> u16" where
  "load16 buf off = join16 (buf ! off) (buf ! Suc off)"

definition store16 :: "buffer \<Rightarrow> nat \<Rightarrow> u16 \<Rightarrow> buffer" where
  "store16 buf off w = buf[off := lo8 w, Suc off := hi8 w]"

text \<open>On such a host \<^verbatim>\<open>htons\<close> and \<^verbatim>\<open>ntohs\<close> both exchange the two bytes.\<close>

definition htons :: "u16 \<Rightarrow> u16" where
  "htons w = join16 (hi8 w) (lo8 w)"

definition ntohs :: "u16 \<Rightarrow> u16" where
  "ntohs w = join16 (hi8 w) (lo8 w)"

lemma join16_lo_hi [simp]: "join16 (lo8 w) (hi8 w) = w"
  by (rule bit_word_eqI) (auto simp: join16_def lo8_def hi8_def bit_simps)

lemma lo8_join16 [simp]: "lo8 (join16 a b) = a"
  by (rule bit_word_eqI) (auto simp: join16_def lo8_def bit_simps)

lemma hi8_join16 [simp]: "hi8 (join16 a b) = b"
  by (rule bit_word_eqI) (auto simp: join16_def hi8_def bit_simps dest: bit_imp_le_length)

lemma ntohs_htons [simp]: "ntohs (htons w) = w"
  by (simp add: ntohs_def htons_def)

lemma htons_ntohs [simp]: "htons (ntohs w) = w"
  by (simp add: ntohs_def htons_def)

lemma length_store16 [simp]: "length (store16 buf off w) = length buf"
  by (simp add: store16_def)

lemma load16_store16 [bytes_simps]:
  "Suc off < length buf \<Longrightarrow> load16 (store16 buf off w) off = w"
  by (simp add: load16_def store16_def)

lemma load16_store16_other [bytes_simps]:
  "off' \<noteq> off \<Longrightarrow> off' \<noteq> Suc off \<Longrightarrow> Suc off' \<noteq> off \<Longrightarrow>
   load16 (store16 buf off w) off' = load16 buf off'"
  by (simp add: load16_def store16_def)

lemma nth_store16_other [bytes_simps]:
  "i \<noteq> off \<Longrightarrow> i \<noteq> Suc off \<Longrightarrow> store16 buf off w ! i = buf ! i"
  by (simp add: store16_def)

section \<open>Overwriting part of a buffer\<close>

text \<open>\<open>put_at buf off bs\<close> is \<open>buf\<close> after \<open>bs\<close> was copied to offset \<open>off\<close> (\<^verbatim>\<open>memcpy\<close>).\<close>

definition put_at :: "'a list \<Rightarrow> nat \<Rightarrow> 'a list \<Rightarrow> 'a list" where
  "put_at buf off bs = take off buf @ bs @ drop (off + length bs) buf"

lemma length_put_at [simp]:
  "off + length bs \<le> length buf \<Longrightarrow> length (put_at buf off bs) = length buf"
  by (simp add: put_at_def)

lemma put_at_whole [simp]: "length bs = length buf \<Longrightarrow> put_at buf 0 bs = bs"
  by (simp add: put_at_def)

lemma nth_put_at_before: "i < off \<Longrightarrow> off \<le> length buf \<Longrightarrow> put_at buf off bs ! i = buf ! i"
  by (simp add: put_at_def nth_append)

lemma drop_put_at: "off \<le> length buf \<Longrightarrow> drop off (put_at buf off bs) = bs @ drop (off + length bs) buf"
  by (simp add: put_at_def)

lemma take_put_at: "off \<le> length buf \<Longrightarrow> take off (put_at buf off bs) = take off buf"
  by (simp add: put_at_def)

lemma take_put_at_0: "take (length bs) (put_at buf 0 bs) = bs"
  by (simp add: put_at_def)

lemma nth_put_at_0: "i < length bs \<Longrightarrow> put_at buf 0 bs ! i = bs ! i"
  by (simp add: put_at_def nth_append)

section \<open>Decimal numerals\<close>

fun digits :: "nat \<Rightarrow> nat list" where
  "digits n = (if n < 10 then [n] else digits (n div 10) @ [n mod 10])"

declare digits.simps [simp del]

definition undigits :: "nat list \<Rightarrow> nat" where
  "undigits = foldl (\<lambda>a d. 10 * a + d) 0"

lemma undigits_snoc [simp]: "undigits (ds @ [d]) = 10 * undigits ds + d"
  by (simp add: undigits_def)

lemma digits_nonempty [simp]: "digits n \<noteq> []"
  by (subst digits.simps) simp

lemma undigits_digits [simp]: "undigits (digits n) = n"
proof (induction n rule: digits.induct)
  case (1 n)
  show ?case
  proof (cases "n < 10")
    case True
    then show ?thesis by (subst digits.simps) (simp add: undigits_def)
  next
    case False
    with 1 show ?thesis by (subst digits.simps) simp
  qed
qed

lemma digits_less_10: "d \<in> set (digits n) \<Longrightarrow> d < 10"
proof (induction n rule: digits.induct)
  case (1 n)
  show ?case
  proof (cases "n < 10")
    case True
    with "1.prems" show ?thesis by (simp add: digits.simps [of n])
  next
    case False
    with 1 show ?thesis by (auto simp: digits.simps [of n])
  qed
qed

section \<open>Sequence numbers modulo the width of the field\<close>

text \<open>\<open>seq16 i\<close> is the value a \<^verbatim>\<open>uint16_t\<close> counter holds after \<open>i\<close> increments from 0.\<close>

definition seq16 :: "nat \<Rightarrow> u16" where
  "seq16 i = word_of_nat i"

lemma seq16_Suc: "seq16 (Suc i) = seq16 i + 1"
  by (simp add: seq16_def)

lemma seq16_eq_iff: "seq16 i = seq16 j \<longleftrightarrow> i mod 65536 = j mod 65536"
  by (simp add: seq16_def word_unat_eq_iff take_bit_eq_mod unat_of_nat)

lemma mod_near_eq:
  fixes i j n :: nat
  assumes "i mod n = j mod n" and "i \<le> j" and "j < i + n"
  shows "i = j"
proof -
  have "n dvd j - i"
    using assms(1,2) by (metis mod_eq_dvd_iff_nat)
  then show ?thesis
    using assms(2,3) nat_dvd_not_less [of "j - i" n] by fastforce
qed

lemma seq16_near_eq_iff:
  assumes "i < j + 65536" and "j < i + 65536"
  shows "seq16 i = seq16 j \<longleftrightarrow> i = j"
  using mod_near_eq [of i 65536 j] mod_near_eq [of j 65536 i] assms
  by (cases "i \<le> j") (auto simp: seq16_eq_iff)

section \<open>Loops that may not return\<close>

text \<open>
  A loop whose end depends on the environment is a partial function into an option type. Case
  distinctions on options inside such a loop are monotone.
\<close>

lemma case_option_mono [partial_function_mono]:
  assumes "mono_option f" and "\<And>y. mono_option (g y)"
  shows "mono_option (\<lambda>F. case x of None \<Rightarrow> f F | Some y \<Rightarrow> g y F)"
  using assms by (cases x) auto

section \<open>Transition systems\<close>

text \<open>A system with an invariant: it holds at the start and every step keeps it.\<close>

locale invariant_system =
  fixes init :: "'c \<Rightarrow> bool" and trans :: "'c \<Rightarrow> 'c \<Rightarrow> bool" and inv :: "'c \<Rightarrow> bool"
  assumes init_inv: "init c \<Longrightarrow> inv c"
    and trans_inv: "inv c \<Longrightarrow> trans c c' \<Longrightarrow> inv c'"
begin

lemma run_keeps: "trans\<^sup>*\<^sup>* c c' \<Longrightarrow> inv c \<Longrightarrow> inv c'"
  by (induction rule: rtranclp_induct) (auto intro: trans_inv)

lemma run_inv: "init c \<Longrightarrow> trans\<^sup>*\<^sup>* c c' \<Longrightarrow> inv c'"
  using run_keeps init_inv by blast

end

text \<open>
  A specification that the system implements: every step changes nothing the specification sees, or
  is a step of the specification.
\<close>

locale simulation = invariant_system init trans inv
  for init :: "'c \<Rightarrow> bool" and trans :: "'c \<Rightarrow> 'c \<Rightarrow> bool" and inv :: "'c \<Rightarrow> bool" +
  fixes abs_of :: "'c \<Rightarrow> 'a" and spec_init :: "'a \<Rightarrow> bool" and spec_step :: "'a \<Rightarrow> 'a \<Rightarrow> bool"
  assumes init_abs: "init c \<Longrightarrow> spec_init (abs_of c)"
    and trans_abs: "inv c \<Longrightarrow> trans c c' \<Longrightarrow> abs_of c' = abs_of c \<or> spec_step (abs_of c) (abs_of c')"
begin

lemma run_simulated: "trans\<^sup>*\<^sup>* c c' \<Longrightarrow> init c \<Longrightarrow> spec_init (abs_of c) \<and> spec_step\<^sup>*\<^sup>* (abs_of c) (abs_of c')"
proof (induction rule: rtranclp_induct)
  case base
  then show ?case by (simp add: init_abs)
next
  case (step c1 c2)
  have "inv c1" using run_inv step by blast
  then have "abs_of c2 = abs_of c1 \<or> spec_step (abs_of c1) (abs_of c2)" using step trans_abs by blast
  with step show ?case by (auto intro: rtranclp.rtrancl_into_rtrancl)
qed

end

section \<open>Lists\<close>

lemma takeWhile_neq_stop: "c \<notin> set xs \<Longrightarrow> takeWhile (\<lambda>b. b \<noteq> c) (xs @ c # ys) = xs"
  by (induction xs) auto

lemma takeWhile_neq_all: "c \<notin> set xs \<Longrightarrow> takeWhile (\<lambda>b. b \<noteq> c) xs = xs"
  by (induction xs) auto

lemma take_length_append [simp]: "n = length xs \<Longrightarrow> take n (xs @ ys) = xs"
  by simp

end
