(* ===== verification/C_Library.thy ===== *)
theory C_Library
  imports Prelude
begin

text \<open>
  The part of the C library and of the socket interface the file transfer programs call:
  null-terminated strings, the conversions of \<^verbatim>\<open>sscanf\<close> and \<^verbatim>\<open>sprintf\<close> they use, and a
  \<open>world\<close> record with the effects of a process (datagrams sent, files, \<^verbatim>\<open>errno\<close>).
  What the operating system answers is not fixed: the \<open>n\<close>-th call of \<^verbatim>\<open>time\<close>, \<^verbatim>\<open>recvfrom\<close>,
  \<^verbatim>\<open>sendto\<close>, \<^verbatim>\<open>malloc\<close> or \<^verbatim>\<open>fwrite\<close> of a process takes the \<open>n\<close>-th answer of a stream held in
  the record, and every theorem quantifies over these streams.
\<close>

section \<open>Strings\<close>

definition cstr :: "buffer \<Rightarrow> byte list" where
  "cstr buf = takeWhile (\<lambda>b. b \<noteq> 0) buf"

definition terminated :: "buffer \<Rightarrow> bool" where
  "terminated buf \<longleftrightarrow> 0 \<in> set buf"

text \<open>\<^verbatim>\<open>strchr\<close> and \<^verbatim>\<open>strrchr\<close> return a pointer or \<^verbatim>\<open>NULL\<close>: the offset of the first or last occurrence.\<close>

definition strchr :: "buffer \<Rightarrow> byte \<Rightarrow> nat option" where
  "strchr buf c =
     (if c \<in> set (cstr buf) then Some (length (takeWhile (\<lambda>b. b \<noteq> c) (cstr buf))) else None)"

definition strrchr :: "buffer \<Rightarrow> byte \<Rightarrow> nat option" where
  "strrchr buf c =
     (if c \<in> set (cstr buf)
      then Some (length (cstr buf) - Suc (length (takeWhile (\<lambda>b. b \<noteq> c) (rev (cstr buf)))))
      else None)"

definition isspace_c :: "byte \<Rightarrow> bool" where
  "isspace_c b \<longleftrightarrow> b \<in> {9, 10, 11, 12, 13, 32}"

definition isdigit_c :: "byte \<Rightarrow> bool" where
  "isdigit_c b \<longleftrightarrow> 48 \<le> b \<and> b \<le> 57"

definition digit_byte :: "nat \<Rightarrow> byte" where
  "digit_byte d = word_of_nat (48 + d)"

definition byte_digit :: "byte \<Rightarrow> nat" where
  "byte_digit b = unat b - 48"

text \<open>The output of \<^verbatim>\<open>%ld\<close>.\<close>

definition print_ld :: "int \<Rightarrow> byte list" where
  "print_ld n =
     (if n < 0 then 45 # map digit_byte (digits (nat (- n))) else map digit_byte (digits (nat n)))"

text \<open>
  An integer conversion of \<^verbatim>\<open>sscanf\<close>: white space, an optional sign, digits. The result is the
  sign, the magnitude and the unread rest, or \<open>None\<close> when no digit was found.
\<close>

definition scan_int :: "byte list \<Rightarrow> (bool \<times> nat \<times> byte list) option" where
  "scan_int s =
     (let s1 = dropWhile isspace_c s;
          neg = (s1 \<noteq> [] \<and> hd s1 = 45);
          s2 = (if s1 \<noteq> [] \<and> (hd s1 = 45 \<or> hd s1 = 43) then tl s1 else s1);
          ds = takeWhile isdigit_c s2
      in if ds = [] then None
         else Some (neg, undigits (map byte_digit ds), dropWhile isdigit_c s2))"

text \<open>
  \<^verbatim>\<open>sscanf(s, "%ld%c", &v, &c)\<close>: the number of conversions and the value of \<open>v\<close>, which keeps the
  initial value \<open>v0\<close> when the first conversion fails. Values beyond \<^verbatim>\<open>long\<close> saturate (\<^verbatim>\<open>strtol\<close>).
\<close>

definition saturate_ld :: "int \<Rightarrow> int" where
  "saturate_ld v = max (- (2 ^ 63)) (min v (2 ^ 63 - 1))"

definition sscanf_ld_c :: "byte list \<Rightarrow> int \<Rightarrow> int \<times> int" where
  "sscanf_ld_c s v0 =
     (case scan_int s of
        None \<Rightarrow> (if dropWhile isspace_c s = [] then -1 else 0, v0)
      | Some (neg, m, rest) \<Rightarrow>
          (if rest = [] then 1 else 2, saturate_ld (if neg then - int m else int m)))"

text \<open>
  \<^verbatim>\<open>sscanf(s, "%u%c", &v, &c)\<close>: the value is that of \<^verbatim>\<open>strtoul\<close> (64 bits, saturating, negated
  modulo \<open>2 ^ 64\<close> after a minus sign), cut down to the 32 bits of \<^verbatim>\<open>unsigned int\<close>.
\<close>

definition sscanf_u_c :: "byte list \<Rightarrow> u32 \<Rightarrow> int \<times> u32" where
  "sscanf_u_c s v0 =
     (case scan_int s of
        None \<Rightarrow> (if dropWhile isspace_c s = [] then -1 else 0, v0)
      | Some (neg, m, rest) \<Rightarrow>
          (if rest = [] then 1 else 2,
           if m \<ge> 2 ^ 64 then word_of_int (2 ^ 64 - 1)
           else if neg then word_of_int (- int m) else word_of_nat m))"

section \<open>The world of a process\<close>

record sockaddr_in =
  sin_addr :: u32
  sin_port :: u16

datatype recv_result =
    Rx_error int
  | Rx_dgram sockaddr_in buffer

datatype send_result =
    Tx_ok
  | Tx_error int

text \<open>
  \<open>w_time\<close>, \<open>w_recv\<close>, \<open>w_send\<close>, \<open>w_temp\<close>, \<open>w_fwrite\<close> are the streams of answers, with the number
  of answers taken so far in the counters \<open>n_time\<close> and so on. \<open>w_temp\<close> is \<^verbatim>\<open>malloc\<close>: \<open>None\<close> for
  \<^verbatim>\<open>NULL\<close>, otherwise the bytes found in the fresh block. \<open>w_fwrite\<close> bounds the bytes an
  \<^verbatim>\<open>fwrite\<close> accepts. \<open>w_fopen\<close> is the error with which creating a file fails, if it does;
  \<open>w_socket\<close> and \<open>w_bind\<close> are what \<^verbatim>\<open>socket\<close> and \<^verbatim>\<open>bind\<close> return. \<open>w_usable\<close> is the size of the
  memory that really belongs to a block asked for with a given size, which an allocator may round
  up; writing beyond it is a fault. A call that succeeds leaves
  \<^verbatim>\<open>errno\<close> as it is.
\<close>

record world =
  w_time :: "nat \<Rightarrow> int"
  w_recv :: "nat \<Rightarrow> recv_result"
  w_send :: "nat \<Rightarrow> send_result"
  w_temp :: "nat \<Rightarrow> (nat \<Rightarrow> byte) option"
  w_fwrite :: "nat \<Rightarrow> nat"
  w_fopen :: "byte list \<Rightarrow> int option"
  w_socket :: int
  w_bind :: "sockaddr_in \<Rightarrow> int"
  w_usable :: "nat \<Rightarrow> nat"
  n_time :: nat
  n_recv :: nat
  n_send :: nat
  n_temp :: nat
  n_fwrite :: nat
  errno :: int
  sent :: "(sockaddr_in \<times> buffer) list"
  files :: "byte list \<rightharpoonup> buffer"

definition ENOENT :: int where "ENOENT = 2"
definition EAGAIN :: int where "EAGAIN = 11"
definition EWOULDBLOCK :: int where "EWOULDBLOCK = 11"
definition ENOMEM :: int where "ENOMEM = 12"

text \<open>How a call ends: it returns, it ends the process with \<^verbatim>\<open>exit\<close>, or it leaves its memory.\<close>

datatype 'a outcome =
    Return 'a
  | Exit int
  | Fault

lemma case_outcome_mono [partial_function_mono]:
  assumes "\<And>y. mono_option (f y)" and "\<And>c. mono_option (g c)" and "mono_option k"
  shows "mono_option (\<lambda>F. case x of Return y \<Rightarrow> f y F | Exit c \<Rightarrow> g c F | Fault \<Rightarrow> k F)"
  using assms by (cases x) auto

definition time_now :: "world \<Rightarrow> int \<times> world" where
  "time_now w = (w_time w (n_time w), w\<lparr>n_time := Suc (n_time w)\<rparr>)"

definition malloc_temp :: "world \<Rightarrow> nat \<Rightarrow> buffer option \<times> world" where
  "malloc_temp w n =
     (case w_temp w (n_temp w) of
        None \<Rightarrow> (None, w\<lparr>n_temp := Suc (n_temp w), errno := ENOMEM\<rparr>)
      | Some fill \<Rightarrow> (Some (map fill [0..<n]), w\<lparr>n_temp := Suc (n_temp w)\<rparr>))"

text \<open>\<^verbatim>\<open>recvfrom\<close> with space for \<open>room\<close> bytes: a longer datagram is cut.\<close>

definition recvfrom :: "world \<Rightarrow> nat \<Rightarrow> int \<times> buffer \<times> sockaddr_in option \<times> world" where
  "recvfrom w room =
     (case w_recv w (n_recv w) of
        Rx_error e \<Rightarrow> (-1, [], None, w\<lparr>n_recv := Suc (n_recv w), errno := e\<rparr>)
      | Rx_dgram src bs \<Rightarrow>
          (int (length (take room bs)), take room bs, Some src, w\<lparr>n_recv := Suc (n_recv w)\<rparr>))"

text \<open>\<^verbatim>\<open>sendto\<close> on a datagram socket takes the whole message or fails.\<close>

definition sendto :: "world \<Rightarrow> sockaddr_in \<Rightarrow> buffer \<Rightarrow> int \<times> world" where
  "sendto w dst bs =
     (case w_send w (n_send w) of
        Tx_ok \<Rightarrow> (int (length bs), w\<lparr>n_send := Suc (n_send w), sent := sent w @ [(dst, bs)]\<rparr>)
      | Tx_error e \<Rightarrow> (-1, w\<lparr>n_send := Suc (n_send w), errno := e\<rparr>))"

definition access_file :: "world \<Rightarrow> byte list \<Rightarrow> int \<times> world" where
  "access_file w name =
     (if files w name \<noteq> None then (0, w) else (-1, w\<lparr>errno := ENOENT\<rparr>))"

definition fopen_w :: "world \<Rightarrow> byte list \<Rightarrow> bool \<times> world" where
  "fopen_w w name =
     (case w_fopen w name of
        Some e \<Rightarrow> (False, w\<lparr>errno := e\<rparr>)
      | None \<Rightarrow> (True, w\<lparr>files := (files w)(name \<mapsto> [])\<rparr>))"

definition fwrite_to :: "world \<Rightarrow> byte list \<Rightarrow> buffer \<Rightarrow> nat \<times> world" where
  "fwrite_to w name bs =
     (let k = min (length bs) (w_fwrite w (n_fwrite w));
          w' = w\<lparr>n_fwrite := Suc (n_fwrite w)\<rparr>
      in (k, case files w name of
               None \<Rightarrow> w'
             | Some old \<Rightarrow> w'\<lparr>files := (files w)(name \<mapsto> old @ take k bs)\<rparr>))"

definition unlink_file :: "world \<Rightarrow> byte list \<Rightarrow> world" where
  "unlink_file w name = w\<lparr>files := (files w)(name := None)\<rparr>"

section \<open>Facts about strings and numerals\<close>

lemma cstr_append_nul [simp]: "0 \<notin> set s \<Longrightarrow> cstr (s @ 0 # t) = s"
  by (simp add: cstr_def takeWhile_neq_stop)

lemma cstr_no_nul: "0 \<notin> set (cstr buf)"
  by (auto simp: cstr_def dest: set_takeWhileD)

lemma strchr_first:
  assumes "cstr buf = xs @ c # ys" and "c \<notin> set xs"
  shows "strchr buf c = Some (length xs)"
  using assms by (simp add: strchr_def takeWhile_neq_stop)

lemma strrchr_last:
  assumes "cstr buf = xs @ c # ys" and "c \<notin> set ys"
  shows "strrchr buf c = Some (length xs)"
  using assms takeWhile_neq_stop [of c "rev ys" "rev xs"] by (simp add: strrchr_def)

lemma strrchr_None_iff: "strrchr buf c = None \<longleftrightarrow> c \<notin> set (cstr buf)"
  by (simp add: strrchr_def)

lemma strchr_None_iff: "strchr buf c = None \<longleftrightarrow> c \<notin> set (cstr buf)"
  by (simp add: strchr_def)

lemma unat_digit_byte: "d < 10 \<Longrightarrow> unat (digit_byte d) = 48 + d"
  unfolding digit_byte_def unat_of_nat by simp

lemma digit_byte_isdigit: "d < 10 \<Longrightarrow> isdigit_c (digit_byte d)"
  by (simp add: isdigit_c_def word_le_nat_alt unat_digit_byte)

lemma byte_digit_of_digit [simp]: "d < 10 \<Longrightarrow> byte_digit (digit_byte d) = d"
  by (simp add: byte_digit_def unat_digit_byte)

lemma isdigit_not_sign: "isdigit_c b \<Longrightarrow> b \<noteq> 45 \<and> b \<noteq> 43 \<and> \<not> isspace_c b \<and> b \<noteq> 0 \<and> b \<noteq> 47 \<and> b \<noteq> 124"
  by (auto simp: isdigit_c_def isspace_c_def)

lemma digits_bytes_isdigit: "\<forall>b\<in>set (map digit_byte (digits n)). isdigit_c b"
  by (auto dest: digits_less_10 intro: digit_byte_isdigit)

lemma scan_int_all_digits:
  assumes all: "\<forall>b\<in>set s. isdigit_c b" and ne: "s \<noteq> []"
  shows "scan_int s = Some (False, undigits (map byte_digit s), [])"
proof -
  obtain b t where s: "s = b # t" using ne by (cases s) auto
  then have b: "b \<noteq> 45" "b \<noteq> 43" "\<not> isspace_c b"
    using all isdigit_not_sign by auto
  have tw: "takeWhile isdigit_c t = t"
    using all s by (simp add: takeWhile_eq_all_conv)
  show ?thesis
    using all b by (simp add: scan_int_def Let_def s tw)
qed

lemma scan_int_digits: "scan_int (map digit_byte (digits n)) = Some (False, n, [])"
proof -
  have "map byte_digit (map digit_byte (digits n)) = digits n"
    by (auto intro!: map_idI dest: digits_less_10)
  then show ?thesis
    using scan_int_all_digits [OF digits_bytes_isdigit, of n] by simp
qed

text \<open>Reading back what \<^verbatim>\<open>%ld\<close> printed.\<close>

lemma sscanf_print_ld:
  assumes "0 \<le> n" and "n < 2 ^ 63"
  shows "sscanf_ld_c (print_ld n) v0 = (1, n)"
  using assms by (simp add: sscanf_ld_c_def print_ld_def scan_int_digits saturate_ld_def)

lemma print_ld_isdigit: "0 \<le> n \<Longrightarrow> \<forall>b\<in>set (print_ld n). isdigit_c b"
  by (simp add: print_ld_def digits_bytes_isdigit del: set_map)

section \<open>Facts about the world\<close>

lemma time_now_value [world_simps]: "fst (time_now w) = w_time w (n_time w)"
  by (simp add: time_now_def)

section \<open>A machine on which everything works\<close>

text \<open>
  A concrete world for examples: a clock that advances one second per look, blocks of zero bytes,
  no failing call, no file, and the given answers of \<^verbatim>\<open>recvfrom\<close>.
\<close>

definition calm_world :: "(nat \<Rightarrow> recv_result) \<Rightarrow> world" where
  "calm_world recv =
     \<lparr>w_time = int, w_recv = recv, w_send = (\<lambda>_. Tx_ok), w_temp = (\<lambda>_. Some (\<lambda>_. 0)),
      w_fwrite = (\<lambda>_. 4096), w_fopen = (\<lambda>_. None), w_socket = 3, w_bind = (\<lambda>_. 0), w_usable = Suc,
      n_time = 0, n_recv = 0, n_send = 0, n_temp = 0, n_fwrite = 0, errno = 0,
      sent = [], files = Map.empty\<rparr>"

lemma calm_world_simps [simp]:
  "w_time (calm_world r) = int" "w_recv (calm_world r) = r" "w_send (calm_world r) = (\<lambda>_. Tx_ok)"
  "w_temp (calm_world r) = (\<lambda>_. Some (\<lambda>_. 0))" "w_fwrite (calm_world r) = (\<lambda>_. 4096)"
  "w_fopen (calm_world r) = (\<lambda>_. None)" "w_socket (calm_world r) = 3" "w_bind (calm_world r) = (\<lambda>_. 0)"
  "w_usable (calm_world r) = Suc"
  "n_time (calm_world r) = 0" "n_recv (calm_world r) = 0" "n_send (calm_world r) = 0"
  "n_temp (calm_world r) = 0" "n_fwrite (calm_world r) = 0" "errno (calm_world r) = 0"
  "sent (calm_world r) = []" "files (calm_world r) = Map.empty"
  by (simp_all add: calm_world_def)

end
