(* ===== verification/List_H.thy ===== *)
theory List_H
  imports Prelude
begin

text \<open>
  \<^verbatim>\<open>ftpclient/list.h\<close>: the singly linked list with head and tail pointers that holds the sender's
  window and the server's children. Nodes live in an explicit heap, a list header holds two
  pointers and a 32-bit size. The operations are shown to implement a first-in first-out queue,
  which the locale \<open>fifo\<close> states as an interface.
\<close>

section \<open>Nodes, headers and operations\<close>

record 'd ListNode =
  node_next :: "nat option"
  node_data :: 'd

record List =
  ll_head :: "nat option"
  ll_tail :: "nat option"
  ll_size :: u32

type_synonym 'd heap = "nat \<rightharpoonup> 'd ListNode"

text \<open>
  A list argument is \<open>None\<close> for a \<^verbatim>\<open>NULL\<close> pointer. \<open>mal\<close> is \<^verbatim>\<open>malloc\<close>: the address of a fresh
  node, or \<open>None\<close>. The result \<open>None\<close> of an operation is an access through an invalid pointer;
  otherwise it holds the returned value, the heap and the header.
\<close>

definition add_to_list ::
  "('d heap \<Rightarrow> nat option) \<Rightarrow> 'd heap \<Rightarrow> List option \<Rightarrow> 'd \<Rightarrow> (int \<times> 'd heap \<times> List option) option"
where
  "add_to_list mal h list data =
     (case list of
        None \<Rightarrow> Some (1, h, None)
      | Some l \<Rightarrow>
          (case mal h of
             None \<Rightarrow> Some (1, h, Some l)
           | Some n \<Rightarrow>
               let h1 = h(n \<mapsto> \<lparr>node_next = None, node_data = data\<rparr>) in
               (case ll_head l of
                  None \<Rightarrow> Some (0, h1, Some (l\<lparr>ll_head := Some n, ll_tail := Some n, ll_size := 1\<rparr>))
                | Some _ \<Rightarrow>
                    Option.bind (ll_tail l) (\<lambda>t. Option.bind (h1 t) (\<lambda>tn.
                      Some (0, h1(t \<mapsto> tn\<lparr>node_next := Some n\<rparr>),
                            Some (l\<lparr>ll_tail := Some n, ll_size := ll_size l + 1\<rparr>)))))))"

definition init_list :: "List option \<Rightarrow> List option" where
  "init_list list =
     (case list of
        None \<Rightarrow> None
      | Some l \<Rightarrow> Some (l\<lparr>ll_head := None, ll_tail := None, ll_size := 0\<rparr>))"

definition remove_front :: "'d heap \<Rightarrow> List option \<Rightarrow> ('d heap \<times> List option) option" where
  "remove_front h list =
     (case list of
        None \<Rightarrow> Some (h, None)
      | Some l \<Rightarrow>
          (case ll_head l of
             None \<Rightarrow> Some (h, Some l)
           | Some f \<Rightarrow>
               Option.bind (h f) (\<lambda>fn.
                 Some (h(f := None), Some (l\<lparr>ll_head := node_next fn, ll_size := ll_size l - 1\<rparr>)))))"

section \<open>The list a header represents\<close>

primrec ll_path :: "'d heap \<Rightarrow> nat option \<Rightarrow> (nat \<times> 'd) list \<Rightarrow> bool" where
  "ll_path h p [] \<longleftrightarrow> p = None"
| "ll_path h p (x # xs) \<longleftrightarrow>
     p = Some (fst x) \<and>
     (\<exists>nx. h (fst x) = Some \<lparr>node_next = nx, node_data = snd x\<rparr> \<and> ll_path h nx xs)"

text \<open>
  The tail pointer is meaningful only while the list has an element: \<open>remove_front\<close> leaves it
  pointing at the freed node when it takes the last one.
\<close>

definition ll_nodes :: "'d heap \<Rightarrow> List \<Rightarrow> (nat \<times> 'd) list \<Rightarrow> bool" where
  "ll_nodes h l xs \<longleftrightarrow>
     ll_path h (ll_head l) xs \<and> distinct (map fst xs) \<and>
     (xs \<noteq> [] \<longrightarrow> ll_tail l = Some (fst (last xs))) \<and>
     ll_size l = word_of_nat (length xs)"

definition ll_rep :: "'d heap \<Rightarrow> List \<Rightarrow> 'd list \<Rightarrow> bool" where
  "ll_rep h l ds \<longleftrightarrow> (\<exists>xs. ll_nodes h l xs \<and> map snd xs = ds)"

text \<open>The data of the first and of the last node, as the client reads them.\<close>

definition head_data :: "'d heap \<Rightarrow> List \<Rightarrow> 'd option" where
  "head_data h l = Option.bind (ll_head l) (\<lambda>n. map_option node_data (h n))"

definition tail_data :: "'d heap \<Rightarrow> List \<Rightarrow> 'd option" where
  "tail_data h l = Option.bind (ll_tail l) (\<lambda>n. map_option node_data (h n))"

section \<open>Paths in the heap\<close>

lemma ll_path_upd_other:
  "n \<notin> fst ` set xs \<Longrightarrow> ll_path (h(n := v)) p xs = ll_path h p xs"
  by (induction xs arbitrary: p) auto

lemma ll_path_in_heap: "ll_path h p xs \<Longrightarrow> x \<in> set xs \<Longrightarrow> h (fst x) \<noteq> None"
  by (induction xs arbitrary: p) auto

lemma ll_path_last:
  "ll_path h p xs \<Longrightarrow> xs \<noteq> [] \<Longrightarrow>
   h (fst (last xs)) = Some \<lparr>node_next = None, node_data = snd (last xs)\<rparr>"
  by (induction xs arbitrary: p) auto

lemma ll_path_snoc:
  assumes "ll_path h p xs" and "xs \<noteq> []" and "distinct (map fst xs)" and "n \<notin> fst ` set xs"
  shows "ll_path (h(n \<mapsto> \<lparr>node_next = None, node_data = d\<rparr>,
                   fst (last xs) \<mapsto> \<lparr>node_next = Some n, node_data = snd (last xs)\<rparr>))
           p (xs @ [(n, d)])"
  using assms
proof (induction xs arbitrary: p)
  case Nil
  then show ?case by simp
next
  case (Cons x xs)
  show ?case
  proof (cases "xs = []")
    case True
    with Cons.prems show ?thesis by auto
  next
    case False
    with Cons.prems have "last xs \<in> set xs" by simp
    with Cons.prems have "fst x \<noteq> fst (last xs)" by (auto simp: image_iff)
    with Cons False show ?thesis by auto
  qed
qed

section \<open>The operations on represented lists\<close>

lemma ll_rep_init: "init_list (Some l) = Some l' \<Longrightarrow> ll_rep h l' []"
  by (auto simp: init_list_def ll_rep_def ll_nodes_def)

lemma ll_rep_NilD: "ll_rep h l [] \<Longrightarrow> ll_head l = None"
  by (auto simp: ll_rep_def ll_nodes_def)

lemma ll_rep_head_None_iff: "ll_rep h l ds \<Longrightarrow> ll_head l = None \<longleftrightarrow> ds = []"
  by (cases ds) (auto simp: ll_rep_def ll_nodes_def)

lemma ll_rep_head_data: "ll_rep h l ds \<Longrightarrow> head_data h l = (case ds of [] \<Rightarrow> None | d # _ \<Rightarrow> Some d)"
  by (auto simp: ll_rep_def ll_nodes_def head_data_def split: list.splits)

lemma ll_rep_tail_data:
  assumes "ll_rep h l ds" and "ds \<noteq> []"
  shows "tail_data h l = Some (last ds)"
proof -
  obtain xs where xs: "ll_nodes h l xs" "map snd xs = ds" "xs \<noteq> []"
    using assms by (auto simp: ll_rep_def)
  then have "h (fst (last xs)) = Some \<lparr>node_next = None, node_data = snd (last xs)\<rparr>"
    by (intro ll_path_last) (auto simp: ll_nodes_def)
  with xs show ?thesis by (auto simp: ll_nodes_def tail_data_def last_map)
qed

lemma ll_rep_size: "ll_rep h l ds \<Longrightarrow> ll_size l = word_of_nat (length ds)"
  by (auto simp: ll_rep_def ll_nodes_def)

lemma ll_rep_remove_front:
  assumes "ll_rep h l (d # ds)"
  shows "\<exists>h' l'. remove_front h (Some l) = Some (h', Some l') \<and> ll_rep h' l' ds"
proof -
  obtain a xs where nodes: "ll_nodes h l ((a, d) # xs)" and ds: "map snd xs = ds"
    using assms by (auto simp: ll_rep_def)
  then obtain nx where a: "h a = Some \<lparr>node_next = nx, node_data = d\<rparr>" "ll_path h nx xs"
    and hd: "ll_head l = Some a" and dist: "distinct (map fst xs)" "a \<notin> fst ` set xs"
    and tail: "xs \<noteq> [] \<longrightarrow> ll_tail l = Some (fst (last xs))"
    by (auto simp: ll_nodes_def)
  let ?l' = "l\<lparr>ll_head := nx, ll_size := ll_size l - 1\<rparr>"
  have "remove_front h (Some l) = Some (h(a := None), Some ?l')"
    using hd a by (simp add: remove_front_def)
  moreover have "ll_nodes (h(a := None)) ?l' xs"
    using nodes a dist tail by (simp add: ll_nodes_def ll_path_upd_other)
  ultimately show ?thesis using ds by (auto simp: ll_rep_def)
qed

lemma ll_rep_add_to_list:
  assumes rep: "ll_rep h l ds" and mal: "mal h = Some n" "h n = None"
  shows "\<exists>h' l'. add_to_list mal h (Some l) d = Some (0, h', Some l') \<and> ll_rep h' l' (ds @ [d])"
proof -
  obtain xs where nodes: "ll_nodes h l xs" and ds: "map snd xs = ds"
    using rep by (auto simp: ll_rep_def)
  have path: "ll_path h (ll_head l) xs" and dist: "distinct (map fst xs)"
    using nodes by (auto simp: ll_nodes_def)
  have fresh: "n \<notin> fst ` set xs" using ll_path_in_heap [OF path] mal by force
  show ?thesis
  proof (cases "xs = []")
    case True
    then have "ll_head l = None" using path by simp
    with True ds mal show ?thesis
      by (auto simp: add_to_list_def ll_rep_def ll_nodes_def intro!: exI [of _ "[(n, d)]"])
  next
    case False
    let ?t = "fst (last xs)" and ?h1 = "h(n \<mapsto> \<lparr>node_next = None, node_data = d\<rparr>)"
    let ?h' = "?h1(?t \<mapsto> \<lparr>node_next = Some n, node_data = snd (last xs)\<rparr>)"
    let ?l' = "l\<lparr>ll_tail := Some n, ll_size := ll_size l + 1\<rparr>"
    have "?t \<noteq> n" using fresh False by (auto simp: image_iff)
    then have t: "?h1 ?t = Some \<lparr>node_next = None, node_data = snd (last xs)\<rparr>"
      using ll_path_last [OF path False] by simp
    have "ll_head l \<noteq> None" using path False by (cases xs) auto
    then have "add_to_list mal h (Some l) d = Some (0, ?h', Some ?l')"
      using nodes False mal t by (auto simp: add_to_list_def ll_nodes_def)
    moreover have "ll_nodes ?h' ?l' (xs @ [(n, d)])"
      using ll_path_snoc [OF path False dist fresh] nodes fresh
      by (auto simp: ll_nodes_def add.commute)
    ultimately show ?thesis using ds by (auto simp: ll_rep_def)
  qed
qed

lemma remove_front_empty: "ll_rep h l [] \<Longrightarrow> remove_front h (Some l) = Some (h, Some l)"
  by (simp add: remove_front_def ll_rep_NilD)

text \<open>
  A heap that holds the nodes of one list and nothing else, and an allocator that finds a fresh
  address as long as fewer than \<open>k\<close> nodes are allocated.
\<close>

definition ll_own :: "'d heap \<Rightarrow> List \<Rightarrow> 'd list \<Rightarrow> bool" where
  "ll_own h l ds \<longleftrightarrow> ll_rep h l ds \<and> finite (dom h) \<and> card (dom h) = length ds"

definition malloc_serves :: "nat \<Rightarrow> ('d heap \<Rightarrow> nat option) \<Rightarrow> bool" where
  "malloc_serves k mal \<longleftrightarrow>
     (\<forall>h. finite (dom h) \<and> card (dom h) < k \<longrightarrow> (\<exists>n. mal h = Some n \<and> h n = None))"

lemma ll_own_rep: "ll_own h l ds \<Longrightarrow> ll_rep h l ds"
  by (simp add: ll_own_def)

lemma add_to_list_dom:
  "add_to_list mal h (Some l) d = Some (0, h', Some l') \<Longrightarrow> mal h = Some n \<Longrightarrow>
   dom h' = insert n (dom h)"
  by (auto simp: add_to_list_def Let_def bind_eq_Some_conv split: option.splits if_splits)

lemma ll_own_add_at:
  assumes own: "ll_own h l ds" and n: "mal h = Some n" "h n = None"
  shows "\<exists>h' l'. add_to_list mal h (Some l) d = Some (0, h', Some l') \<and> ll_own h' l' (ds @ [d])"
proof -
  obtain h' l' where a: "add_to_list mal h (Some l) d = Some (0, h', Some l')" "ll_rep h' l' (ds @ [d])"
    using ll_rep_add_to_list [of h l ds mal n d] ll_own_rep [OF own] n by blast
  have "dom h' = insert n (dom h)" using add_to_list_dom [OF a(1) n(1)] .
  with own n a show ?thesis by (auto simp: ll_own_def domIff)
qed

lemma ll_own_add_to_list:
  assumes "ll_own h l ds" and "malloc_serves k mal" and "length ds < k"
  shows "\<exists>h' l'. add_to_list mal h (Some l) d = Some (0, h', Some l') \<and> ll_own h' l' (ds @ [d])"
  using assms ll_own_add_at [OF assms(1)] by (auto simp: ll_own_def malloc_serves_def)

lemma ll_own_remove_front:
  assumes own: "ll_own h l (d # ds)"
  shows "\<exists>h' l'. remove_front h (Some l) = Some (h', Some l') \<and> ll_own h' l' ds"
proof -
  obtain h' l' where r: "remove_front h (Some l) = Some (h', Some l')" "ll_rep h' l' ds"
    using ll_rep_remove_front [OF ll_own_rep [OF own]] by blast
  have "\<exists>f. h f \<noteq> None \<and> h' = h(f := None)"
    using r(1) ll_rep_head_None_iff [OF ll_own_rep [OF own]]
    by (auto simp: remove_front_def bind_eq_Some_conv split: option.splits)
  then obtain f where "dom h' = dom h - {f}" and "f \<in> dom h" by fastforce
  with own r show ?thesis by (auto simp: ll_own_def)
qed

section \<open>The queue interface\<close>

text \<open>
  What the transfer programs rely on: \<open>put a d s\<close> appends \<open>d\<close> in a node at the fresh address
  \<open>a\<close>, \<open>pop\<close> removes the oldest element, \<open>front\<close> reads it; \<open>rep s ds\<close> says that \<open>s\<close> holds \<open>ds\<close>.
\<close>

locale fifo =
  fixes rep :: "'s \<Rightarrow> 'd list \<Rightarrow> bool"
    and fresh :: "'s \<Rightarrow> 'a \<Rightarrow> bool"
    and put :: "'a \<Rightarrow> 'd \<Rightarrow> 's \<Rightarrow> 's option"
    and pop :: "'s \<Rightarrow> 's option"
    and front :: "'s \<Rightarrow> 'd option"
  assumes put_rep: "rep s ds \<Longrightarrow> fresh s a \<Longrightarrow> \<exists>s'. put a d s = Some s' \<and> rep s' (ds @ [d])"
    and pop_rep: "rep s (d # ds) \<Longrightarrow> \<exists>s'. pop s = Some s' \<and> rep s' ds"
    and front_rep: "rep s ds \<Longrightarrow> front s = (case ds of [] \<Rightarrow> None | d # _ \<Rightarrow> Some d)"

text \<open>Filling a queue from an allocator, and emptying it: iterations of the interface.\<close>

primrec put_all :: "('a \<Rightarrow> 'd \<Rightarrow> 's \<Rightarrow> 's option) \<Rightarrow> ('s \<Rightarrow> 'a) \<Rightarrow> 'd list \<Rightarrow> 's \<Rightarrow> 's option" where
  "put_all put alloc [] s = Some s"
| "put_all put alloc (d # ds) s = Option.bind (put (alloc s) d s) (put_all put alloc ds)"

primrec pop_all :: "('s \<Rightarrow> 's option) \<Rightarrow> ('s \<Rightarrow> 'd option) \<Rightarrow> nat \<Rightarrow> 's \<Rightarrow> ('d list \<times> 's) option" where
  "pop_all pop front 0 s = Some ([], s)"
| "pop_all pop front (Suc n) s =
     Option.bind (front s) (\<lambda>d. Option.bind (pop s) (\<lambda>s'.
       map_option (\<lambda>(ds, s''). (d # ds, s'')) (pop_all pop front n s')))"

context fifo
begin

lemma put_all_rep:
  assumes "\<And>s es. rep s es \<Longrightarrow> length es < k \<Longrightarrow> fresh s (alloc s)"
    and "rep s es" and "length es + length ds \<le> k"
  shows "\<exists>s'. put_all put alloc ds s = Some s' \<and> rep s' (es @ ds)"
  using assms(2,3)
proof (induction ds arbitrary: s es)
  case Nil
  then show ?case by simp
next
  case (Cons d ds)
  have "fresh s (alloc s)" using Cons.prems by (intro assms(1)) auto
  then obtain s1 where "put (alloc s) d s = Some s1" "rep s1 (es @ [d])"
    using put_rep [OF Cons.prems(1)] by blast
  with Cons.IH [of s1 "es @ [d]"] Cons.prems(2) show ?case by simp
qed

lemma pop_all_rep:
  assumes "rep s ds" and "n \<le> length ds"
  shows "\<exists>s'. pop_all pop front n s = Some (take n ds, s') \<and> rep s' (drop n ds)"
  using assms
proof (induction n arbitrary: s ds)
  case 0
  then show ?case by simp
next
  case (Suc n)
  then obtain d es where ds: "ds = d # es" by (cases ds) auto
  obtain s1 where "pop s = Some s1" "rep s1 es"
    using pop_rep Suc.prems(1) ds by blast
  with Suc.IH [of s1 es] Suc.prems front_rep [OF Suc.prems(1)] ds show ?case by auto
qed

text \<open>Elements leave a queue in the order in which they entered it.\<close>

lemma first_in_first_out:
  assumes "\<And>s es. rep s es \<Longrightarrow> length es < length ds \<Longrightarrow> fresh s (alloc s)" and "rep s []"
  shows "\<exists>s' s''. put_all put alloc ds s = Some s' \<and>
           pop_all pop front (length ds) s' = Some (ds, s'') \<and> rep s'' []"
  using put_all_rep [OF assms(1,2), where ds = ds] pop_all_rep [of _ ds "length ds"] by fastforce

end

text \<open>\<^verbatim>\<open>list.h\<close> provides the interface on pairs of a heap and a list header.\<close>

definition list_put :: "nat \<Rightarrow> 'd \<Rightarrow> 'd heap \<times> List \<Rightarrow> ('d heap \<times> List) option" where
  "list_put n d s =
     (case add_to_list (\<lambda>_. Some n) (fst s) (Some (snd s)) d of
        Some (ret, h, Some l) \<Rightarrow> if ret = 0 then Some (h, l) else None
      | _ \<Rightarrow> None)"

definition list_pop :: "'d heap \<times> List \<Rightarrow> ('d heap \<times> List) option" where
  "list_pop s =
     (case remove_front (fst s) (Some (snd s)) of Some (h, Some l) \<Rightarrow> Some (h, l) | _ \<Rightarrow> None)"

lemma ll_own_list_pop:
  "ll_own h l (d # ds) \<Longrightarrow> \<exists>q. list_pop (h, l) = Some q \<and> ll_own (fst q) (snd q) ds"
  using ll_own_remove_front [of h l d ds] by (auto simp: list_pop_def)

interpretation lq: fifo
  "\<lambda>s. ll_own (fst s) (snd s)" "\<lambda>s n. fst s n = None" list_put list_pop
  "\<lambda>s. head_data (fst s) (snd s)"
proof unfold_locales
  fix s :: "'d heap \<times> List" and ds n d
  assume "ll_own (fst s) (snd s) ds" and "fst s n = None"
  then show "\<exists>s'. list_put n d s = Some s' \<and> ll_own (fst s') (snd s') (ds @ [d])"
    using ll_own_add_at [of "fst s" "snd s" ds "\<lambda>_. Some n" n d]
    by (auto simp: list_put_def)
next
  fix s :: "'d heap \<times> List" and d ds
  assume "ll_own (fst s) (snd s) (d # ds)"
  then show "\<exists>s'. list_pop s = Some s' \<and> ll_own (fst s') (snd s') ds"
    using ll_own_list_pop [of "fst s" "snd s" d ds] by simp
next
  fix s :: "'d heap \<times> List" and ds
  assume "ll_own (fst s) (snd s) ds"
  then show "head_data (fst s) (snd s) = (case ds of [] \<Rightarrow> None | d # _ \<Rightarrow> Some d)"
    by (intro ll_rep_head_data ll_own_rep)
qed

section \<open>An allocator\<close>

text \<open>A concrete allocator: the first free one of \<open>k\<close> addresses.\<close>

definition first_free :: "nat \<Rightarrow> 'd heap \<Rightarrow> nat option" where
  "first_free k h = List.find (\<lambda>a. h a = None) [0..<k]"

lemma malloc_serves_first_free: "malloc_serves k (first_free k)"
  unfolding malloc_serves_def
proof (intro allI impI)
  fix h :: "'d heap"
  assume h: "finite (dom h) \<and> card (dom h) < k"
  then have "\<not> {0..<k} \<subseteq> dom h" using card_mono [of "dom h" "{0..<k}"] by auto
  then have "first_free k h \<noteq> None" by (auto simp: first_free_def find_None_iff domIff)
  then obtain n where "first_free k h = Some n" by blast
  then show "\<exists>n. first_free k h = Some n \<and> h n = None"
    by (auto simp: first_free_def find_Some_iff)
qed

section \<open>Properties\<close>

text \<open>
  C30: a list that starts empty gives its elements back in the order in which they were added,
  whatever addresses the allocator hands out, and is empty again afterwards with every node freed.
\<close>

theorem list_first_in_first_out:
  assumes "malloc_serves (length ds) mal" and "init_list (Some l) = Some l'"
  shows "\<exists>s' s''. put_all list_put (\<lambda>s. the (mal (fst s))) ds (Map.empty, l') = Some s' \<and>
           pop_all list_pop (\<lambda>s. head_data (fst s) (snd s)) (length ds) s' = Some (ds, s'') \<and>
           ll_head (snd s'') = None \<and> fst s'' = Map.empty"
proof -
  have "ll_own Map.empty l' []" using ll_rep_init [OF assms(2)] by (simp add: ll_own_def)
  moreover have "fst s (the (mal (fst s))) = None"
    if "ll_own (fst s) (snd s) es" "length es < length ds" for s :: "'a heap \<times> List" and es
    using assms(1) that by (force simp: malloc_serves_def ll_own_def)
  ultimately have "\<exists>s' s''. put_all list_put (\<lambda>s. the (mal (fst s))) ds (Map.empty, l') = Some s' \<and>
      pop_all list_pop (\<lambda>s. head_data (fst s) (snd s)) (length ds) s' = Some (ds, s'') \<and>
      ll_own (fst s'') (snd s'') []"
    by (intro lq.first_in_first_out) auto
  then show ?thesis by (fastforce simp: ll_own_def ll_rep_NilD)
qed

theorem list_first_in_first_out_witness:
  "malloc_serves (length [7, 8 :: nat]) (first_free 2 :: nat heap \<Rightarrow> nat option) \<and>
   (\<exists>s' s''. put_all list_put (\<lambda>s. the (first_free 2 (fst s))) [7, 8 :: nat]
        (Map.empty, \<lparr>ll_head = None, ll_tail = None, ll_size = 0\<rparr>) = Some s' \<and>
      pop_all list_pop (\<lambda>s. head_data (fst s) (snd s)) (length [7, 8 :: nat]) s' = Some ([7, 8], s'') \<and>
      ll_head (snd s'') = None \<and> fst s'' = Map.empty)"
proof
  show mal: "malloc_serves (length [7, 8 :: nat]) (first_free 2 :: nat heap \<Rightarrow> nat option)"
    using malloc_serves_first_free [of 2] by (simp add: numeral_2_eq_2)
  have "init_list (Some \<lparr>ll_head = Some 3, ll_tail = None, ll_size = 9\<rparr>) =
      Some \<lparr>ll_head = None, ll_tail = None, ll_size = 0\<rparr>"
    by (simp add: init_list_def)
  then show "\<exists>s' s''. put_all list_put (\<lambda>s. the (first_free 2 (fst s))) [7, 8 :: nat]
        (Map.empty, \<lparr>ll_head = None, ll_tail = None, ll_size = 0\<rparr>) = Some s' \<and>
      pop_all list_pop (\<lambda>s. head_data (fst s) (snd s)) (length [7, 8 :: nat]) s' = Some ([7, 8], s'') \<and>
      ll_head (snd s'') = None \<and> fst s'' = Map.empty"
    by (rule list_first_in_first_out [OF mal])
qed

text \<open>
  Taking the last element off leaves the tail pointing at the freed node. The head is NULL
  then, and adding an element repairs the header: the list holds exactly the new element.
\<close>

theorem remove_last_leaves_dangling_tail:
  assumes "ll_own h l [d]" and "malloc_serves 1 mal"
  shows "\<exists>h' l' h'' l''. remove_front h (Some l) = Some (h', Some l') \<and> ll_head l' = None \<and>
           ll_tail l' \<noteq> None \<and> tail_data h' l' = None \<and>
           add_to_list mal h' (Some l') e = Some (0, h'', Some l'') \<and> ll_own h'' l'' [e]"
proof -
  obtain n where n: "ll_head l = Some n" "ll_tail l = Some n" "ll_size l = 1"
    "h n = Some \<lparr>node_next = None, node_data = d\<rparr>"
    using assms(1) by (auto simp: ll_own_def ll_rep_def ll_nodes_def)
  let ?h' = "h(n := None)" and ?l' = "l\<lparr>ll_head := None, ll_size := 0\<rparr>"
  have r: "remove_front h (Some l) = Some (?h', Some ?l')" using n by (simp add: remove_front_def)
  then have own: "ll_own ?h' ?l' []" using ll_own_remove_front [OF assms(1)] by auto
  show ?thesis
    using r n ll_own_add_to_list [OF own assms(2), of e] by (auto simp: tail_data_def)
qed

theorem remove_last_leaves_dangling_tail_witness:
  "\<exists>h' l' h'' l''.
     remove_front [0 \<mapsto> \<lparr>node_next = None, node_data = (7 :: nat)\<rparr>]
       (Some \<lparr>ll_head = Some 0, ll_tail = Some 0, ll_size = 1\<rparr>) = Some (h', Some l') \<and>
     ll_head l' = None \<and> ll_tail l' \<noteq> None \<and> tail_data h' l' = None \<and>
     add_to_list (first_free 1) h' (Some l') 8 = Some (0, h'', Some l'') \<and> ll_own h'' l'' [8]"
  by (rule remove_last_leaves_dangling_tail [of _ _ 7])
    (auto simp: ll_own_def ll_rep_def ll_nodes_def malloc_serves_first_free intro!: exI [of _ "[(0, 7)]"])

end
