(* ===== verification/Ft_Common.thy ===== *)
theory Ft_Common
  imports C_Library List_H
begin

text \<open>
  \<^verbatim>\<open>ftpclient/srtp_common.h\<close>: the packet format shared by the file transfer client and server
  (a five byte header with command, big-endian sequence number and big-endian length, then the
  payload), and the sending and receiving routines both programs use. Debug output
  and the test build that loses packets are in \<open>Ft_Debug\<close>.
\<close>

section \<open>Constants\<close>

definition CMD_NONE :: byte where [simp]: "CMD_NONE = 0"
definition CMD_ACK :: byte where [simp]: "CMD_ACK = 1"
definition CMD_BADREQ :: byte where [simp]: "CMD_BADREQ = 2"
definition CMD_EXISTS :: byte where [simp]: "CMD_EXISTS = 3"
definition CMD_DATA :: byte where [simp]: "CMD_DATA = 4"
definition CMD_WRQ :: byte where [simp]: "CMD_WRQ = 5"
definition CMD_FIN :: byte where [simp]: "CMD_FIN = 6"
definition CMD_FINACK :: byte where [simp]: "CMD_FINACK = 7"
definition MAX_CMD_VALUE :: byte where [simp]: "MAX_CMD_VALUE = 7"

definition command_strings :: "string list" where
  "command_strings = ['''', ''ACK'', ''BRQ'', ''FEX'', ''DAT'', ''WRQ'', ''FIN'', ''F+A'']"

definition PACKET_SIZE :: nat where [simp]: "PACKET_SIZE = 2048"
definition HEADER_SIZE :: nat where [simp]: "HEADER_SIZE = 5"
definition PAYLOAD_SIZE :: nat where [simp]: "PAYLOAD_SIZE = PACKET_SIZE - HEADER_SIZE"
definition WINDOW_SIZE :: nat where [simp]: "WINDOW_SIZE = 50"
definition ACK_TIMEOUT :: int where [simp]: "ACK_TIMEOUT = 2"

section \<open>Header fields\<close>

definition GETLEN :: "buffer \<Rightarrow> u16" where
  "GETLEN buffer = ntohs (load16 buffer 3)"

definition SETLEN :: "buffer \<Rightarrow> u16 \<Rightarrow> buffer" where
  "SETLEN buffer len = store16 buffer 3 (htons len)"

definition get_seq_num :: "buffer \<Rightarrow> u16" where
  "get_seq_num buffer = ntohs (load16 buffer 1)"

definition set_seq_num :: "buffer \<Rightarrow> u16 \<Rightarrow> buffer" where
  "set_seq_num buffer seq_num = store16 buffer 1 (htons seq_num)"

text \<open>The text \<^verbatim>\<open>%u\<close> prints.\<close>

definition print_u :: "nat \<Rightarrow> string" where
  "print_u n = map (\<lambda>d. char_of (48 + d)) (digits n)"

definition command2str :: "byte \<Rightarrow> string" where
  "command2str command =
     (if command > MAX_CMD_VALUE then ''?'' @ print_u (unat command) @ ''?''
      else command_strings ! unat command)"

section \<open>Packets\<close>

text \<open>
  \<open>fill\<close> gives the bytes found in the block \<^verbatim>\<open>malloc\<close> returns, which the code does not check for
  \<^verbatim>\<open>NULL\<close>; a payload of \<open>None\<close> is a \<^verbatim>\<open>NULL\<close> pointer.
\<close>

definition create_packet :: "(nat \<Rightarrow> byte) \<Rightarrow> byte \<Rightarrow> u16 \<Rightarrow> u16 \<Rightarrow> buffer option \<Rightarrow> buffer" where
  "create_packet fill command sequence payloadSize payload =
     (let buffer = map fill [0..<unat payloadSize + HEADER_SIZE];
          buffer = buffer[0 := command];
          buffer = set_seq_num buffer sequence;
          buffer = SETLEN buffer payloadSize
      in case payload of
           None \<Rightarrow> buffer
         | Some p \<Rightarrow> put_at buffer HEADER_SIZE (take (unat payloadSize) p))"

text \<open>
  A packet without payload is the same whatever bytes its block held
  (\<open>create_packet_control\<close>), so the block is taken to be zero.
\<close>

definition control :: "byte \<Rightarrow> u16 \<Rightarrow> buffer" where
  "control cmd seq = create_packet (\<lambda>_. 0) cmd seq 0 None"

text \<open>What a packet means: its command, sequence number, and payload.\<close>

definition pkt_cmd :: "buffer \<Rightarrow> byte" where
  "pkt_cmd p = p ! 0"

definition pkt_payload :: "buffer \<Rightarrow> byte list" where
  "pkt_payload p = take (unat (GETLEN p)) (drop HEADER_SIZE p)"

definition wf_packet :: "buffer \<Rightarrow> bool" where
  "wf_packet p \<longleftrightarrow> length p = HEADER_SIZE + unat (GETLEN p)"

section \<open>Sockets\<close>

text \<open>
  \<^verbatim>\<open>setup_socket\<close> binds any local address, the port in network order; the result is the returned
  value and the descriptor.
\<close>

definition setup_socket :: "world \<Rightarrow> u16 \<Rightarrow> int \<times> int" where
  "setup_socket w port =
     (if w_socket w = -1 then (1, w_socket w)
      else let addr = \<lparr>sin_addr = 0, sin_port = htons port\<rparr> in
           if w_bind w addr = -1 then (1, w_socket w) else (0, w_socket w))"

definition send_packet :: "world \<Rightarrow> sockaddr_in \<Rightarrow> buffer \<Rightarrow> int \<times> world" where
  "send_packet w target packet =
     (let packetSize = HEADER_SIZE + unat (GETLEN packet);
          (r, w') = sendto w target (take packetSize packet)
      in (if r \<noteq> int packetSize then 1 else 0, w'))"

text \<open>The loop of \<^verbatim>\<open>send_all\<close> follows the \<^verbatim>\<open>next\<close> pointers of the list.\<close>

partial_function (option) send_from ::
  "world \<Rightarrow> sockaddr_in \<Rightarrow> buffer heap \<Rightarrow> nat option \<Rightarrow> (int outcome \<times> world) option"
where
  "send_from w target h p =
     (case p of
        None \<Rightarrow> Some (Return 0, w)
      | Some n \<Rightarrow>
          (case h n of
             None \<Rightarrow> Some (Fault, w)
           | Some node \<Rightarrow>
               (case send_packet w target (node_data node) of
                  (r, w') \<Rightarrow> if r \<noteq> 0 then Some (Return 1, w')
                            else send_from w' target h (node_next node))))"

definition send_all ::
  "world \<Rightarrow> sockaddr_in \<Rightarrow> buffer heap \<Rightarrow> List \<Rightarrow> (int outcome \<times> world) option"
where
  "send_all w target h packets =
     (if ll_head packets = None then Some (Return 0, w) else send_from w target h (ll_head packets))"

text \<open>
  \<^verbatim>\<open>read_only_from\<close>: the datagram goes to a fresh block, and the whole block is copied to the
  buffer. The test of the sender's address is written as \<^verbatim>\<open>1 || ...\<close> in the code.
\<close>

definition read_only_from ::
  "world \<Rightarrow> buffer \<Rightarrow> nat \<Rightarrow> sockaddr_in \<Rightarrow> int \<times> buffer \<times> world"
where
  "read_only_from w buffer packetSize wanted =
     (case malloc_temp w packetSize of
        (None, w1) \<Rightarrow> (-1, buffer, w1)
      | (Some temp, w1) \<Rightarrow>
          (case recvfrom w1 packetSize of
             (n, bs, from, w2) \<Rightarrow>
               if True \<or> (n > 0 \<and> from = Some wanted)
               then (n, put_at buffer 0 (put_at temp 0 bs), w2)
               else (-1, buffer, w2\<lparr>errno := EAGAIN\<rparr>)))"

partial_function (option) read_poll ::
  "int \<Rightarrow> world \<Rightarrow> buffer \<Rightarrow> sockaddr_in \<Rightarrow> (int \<times> buffer \<times> world) option"
where
  "read_poll startTime w buffer wanted =
     (case time_now w of
        (now, w1) \<Rightarrow>
          if now - startTime < 6 then
            (case read_only_from w1 buffer PACKET_SIZE wanted of
               (n, buffer', w2) \<Rightarrow>
                 if n > 0 then Some (n, buffer', w2) else read_poll startTime w2 buffer' wanted)
          else Some (-1, buffer, w1))"

definition read_until_timeout ::
  "world \<Rightarrow> buffer \<Rightarrow> sockaddr_in \<Rightarrow> (int \<times> buffer \<times> world) option"
where
  "read_until_timeout w buffer wanted =
     (case time_now w of (startTime, w1) \<Rightarrow> read_poll startTime w1 buffer wanted)"

section \<open>Laws of the packet format\<close>

lemma length_set_seq_num [packet_simps]: "length (set_seq_num b s) = length b"
  by (simp add: set_seq_num_def)

lemma length_SETLEN [packet_simps]: "length (SETLEN b s) = length b"
  by (simp add: SETLEN_def)

lemma GETLEN_SETLEN [packet_simps]: "5 \<le> length b \<Longrightarrow> GETLEN (SETLEN b n) = n"
  by (simp add: GETLEN_def SETLEN_def bytes_simps)

lemma get_set_seq_num [packet_simps]: "3 \<le> length b \<Longrightarrow> get_seq_num (set_seq_num b s) = s"
  by (simp add: get_seq_num_def set_seq_num_def bytes_simps)

lemma get_seq_num_SETLEN [packet_simps]: "get_seq_num (SETLEN b n) = get_seq_num b"
  by (simp add: get_seq_num_def SETLEN_def bytes_simps)

lemma nth_0_SETLEN [packet_simps]: "SETLEN b n ! 0 = b ! 0"
  by (simp add: SETLEN_def bytes_simps)

lemma nth_0_set_seq_num [packet_simps]: "set_seq_num b s ! 0 = b ! 0"
  by (simp add: set_seq_num_def bytes_simps)

text \<open>The header of a buffer depends on its first five bytes only.\<close>

lemma header_cong:
  assumes "take 5 b = take 5 b'" and "5 \<le> length b" and "5 \<le> length b'"
  shows "b ! 0 = b' ! 0" and "get_seq_num b = get_seq_num b'" and "GETLEN b = GETLEN b'"
proof -
  have nth: "b ! i = b' ! i" if "i < 5" for i
    using assms that by (metis nth_take)
  show "b ! 0 = b' ! 0" by (rule nth) simp
  show "get_seq_num b = get_seq_num b'"
    using nth [of 1] nth [of 2] by (simp add: get_seq_num_def load16_def numeral_2_eq_2)
  show "GETLEN b = GETLEN b'"
    using nth [of 3] nth [of 4] by (simp add: GETLEN_def load16_def eval_nat_numeral)
qed

lemma length_create_packet [packet_simps]:
  "(\<And>p. payload = Some p \<Longrightarrow> unat n \<le> length p) \<Longrightarrow>
   length (create_packet fill c s n payload) = 5 + unat n"
  by (auto simp: create_packet_def Let_def packet_simps split: option.splits)

lemma create_packet_split:
  assumes "\<And>p. payload = Some p \<Longrightarrow> unat n \<le> length p"
  shows "take 5 (create_packet fill c s n payload) =
         take 5 (SETLEN (set_seq_num ((map fill [0..<unat n + 5])[0 := c]) s) n)"
    and "payload = Some p \<Longrightarrow> drop 5 (create_packet fill c s n payload) = take (unat n) p"
  using assms
  by (auto simp: create_packet_def Let_def packet_simps take_put_at drop_put_at split: option.splits)

lemma create_packet_fields:
  assumes "\<And>p. payload = Some p \<Longrightarrow> unat n \<le> length p"
  shows "pkt_cmd (create_packet fill c s n payload) = c"
    and "get_seq_num (create_packet fill c s n payload) = s"
    and "GETLEN (create_packet fill c s n payload) = n"
proof -
  let ?b = "SETLEN (set_seq_num ((map fill [0..<unat n + 5])[0 := c]) s) n"
  have l: "5 \<le> length ?b" by (simp add: packet_simps)
  have "length (create_packet fill c s n payload) = 5 + unat n"
    using assms by (rule length_create_packet)
  then have l': "5 \<le> length (create_packet fill c s n payload)" by simp
  note eq = header_cong [OF create_packet_split(1) [OF assms] l' l]
  show "pkt_cmd (create_packet fill c s n payload) = c"
    using eq(1) by (simp add: pkt_cmd_def packet_simps)
  show "get_seq_num (create_packet fill c s n payload) = s"
    using eq(2) by (simp add: packet_simps)
  show "GETLEN (create_packet fill c s n payload) = n"
    using eq(3) by (simp add: packet_simps)
qed

lemma create_packet_payload:
  "unat n \<le> length p \<Longrightarrow> pkt_payload (create_packet fill c s n (Some p)) = take (unat n) p"
  using create_packet_fields(3) [of "Some p" n] create_packet_split(2) [of "Some p" n]
  by (simp add: pkt_payload_def)

text \<open>The bytes of a fresh block do not show: every byte of a packet is written.\<close>

lemma create_packet_control:
  "create_packet fill c s 0 payload = [c, hi8 s, lo8 s, 0, 0]"
proof -
  have "hi8 0 = 0" and "lo8 0 = 0" by (simp_all add: hi8_def lo8_def)
  then show ?thesis
    by (auto simp: create_packet_def Let_def set_seq_num_def SETLEN_def store16_def htons_def
        put_at_def upt_rec eval_nat_numeral split: option.splits)
qed

lemma create_packet_wf:
  "(\<And>p. payload = Some p \<Longrightarrow> unat n \<le> length p) \<Longrightarrow> wf_packet (create_packet fill c s n payload)"
  by (simp add: wf_packet_def create_packet_fields packet_simps)

lemma control_fields [simp]:
  "pkt_cmd (control c s) = c" "get_seq_num (control c s) = s" "GETLEN (control c s) = 0"
  "wf_packet (control c s)" "length (control c s) = 5"
  using create_packet_fields [of None 0 "\<lambda>_. 0" c s] create_packet_wf [of None 0 "\<lambda>_. 0" c s]
  by (simp_all add: control_def create_packet_control)

lemma wf_packet_take [simp]: "wf_packet p \<Longrightarrow> take (5 + unat (GETLEN p)) p = p"
  by (simp add: wf_packet_def)

lemma wf_packet_length: "wf_packet p \<Longrightarrow> 5 \<le> length p"
  by (simp add: wf_packet_def)

text \<open>A packet read into a larger buffer is read back unchanged.\<close>

lemma received_packet:
  assumes "wf_packet p" and "length p \<le> length b"
  shows "pkt_cmd (put_at b 0 p) = pkt_cmd p" and "get_seq_num (put_at b 0 p) = get_seq_num p"
    and "GETLEN (put_at b 0 p) = GETLEN p" and "pkt_payload (put_at b 0 p) = pkt_payload p"
proof -
  have l: "5 \<le> length (put_at b 0 p)" "5 \<le> length p"
    using assms wf_packet_length [OF assms(1)] by (auto simp: put_at_def)
  then have "take 5 (put_at b 0 p) = take 5 p" by (simp add: put_at_def)
  note eq = header_cong [OF this l]
  show "pkt_cmd (put_at b 0 p) = pkt_cmd p" by (simp add: pkt_cmd_def eq)
  show "get_seq_num (put_at b 0 p) = get_seq_num p" by (rule eq)
  show len: "GETLEN (put_at b 0 p) = GETLEN p" by (rule eq)
  have "length p = 5 + unat (GETLEN p)" using assms(1) by (simp add: wf_packet_def)
  then show "pkt_payload (put_at b 0 p) = pkt_payload p"
    using l by (simp add: pkt_payload_def len) (simp add: put_at_def)
qed

section \<open>Laws of sending and receiving\<close>

lemma send_packet_ok [world_simps]:
  assumes "w_send w (n_send w) = Tx_ok" and "wf_packet p"
  shows "send_packet w target p =
         (0, w\<lparr>n_send := Suc (n_send w), sent := sent w @ [(target, p)]\<rparr>)"
  using assms by (simp add: send_packet_def sendto_def wf_packet_def Let_def)

lemma send_packet_error [world_simps]:
  "w_send w (n_send w) = Tx_error e \<Longrightarrow>
   send_packet w target p = (1, w\<lparr>n_send := Suc (n_send w), errno := e\<rparr>)"
  by (simp add: send_packet_def sendto_def Let_def)

text \<open>The disabled test of the sender's address makes the wanted address irrelevant.\<close>

lemma read_only_from_unfold:
  "read_only_from w b n a =
     (case malloc_temp w n of
        (None, w1) \<Rightarrow> (-1, b, w1)
      | (Some temp, w1) \<Rightarrow>
          (case recvfrom w1 n of (r, bs, _, w2) \<Rightarrow> (r, put_at b 0 (put_at temp 0 bs), w2)))"
  by (simp add: read_only_from_def cong: prod.case_cong option.case_cong)

definition same_answers :: "world \<Rightarrow> world \<Rightarrow> bool" where
  "same_answers w w' \<longleftrightarrow>
     w_time w' = w_time w \<and> w_recv w' = w_recv w \<and> w_send w' = w_send w \<and>
     w_temp w' = w_temp w \<and> w_fwrite w' = w_fwrite w \<and> w_fopen w' = w_fopen w \<and>
     w_socket w' = w_socket w \<and> w_bind w' = w_bind w \<and> w_usable w' = w_usable w"

text \<open>What receiving leaves alone.\<close>

definition quiet :: "world \<Rightarrow> world \<Rightarrow> bool" where
  "quiet w w' \<longleftrightarrow>
     same_answers w w' \<and> files w' = files w \<and> sent w' = sent w \<and>
     n_send w' = n_send w \<and> n_fwrite w' = n_fwrite w"

lemma quiet_refl [simp]: "quiet w w"
  by (simp add: quiet_def same_answers_def)

lemma quiet_trans: "quiet w w' \<Longrightarrow> quiet w' w'' \<Longrightarrow> quiet w w''"
  by (simp add: quiet_def same_answers_def)

lemma quiet_time [simp]: "time_now w = (t, w') \<Longrightarrow> quiet w w'"
  by (auto simp: quiet_def same_answers_def time_now_def)

lemma read_only_from_frame:
  assumes "read_only_from w b n a = (r, b', w')"
  shows "quiet w w'" and "n_time w' = n_time w" and "length b = n \<Longrightarrow> length b' = n"
  using assms
  by (auto simp: read_only_from_unfold malloc_temp_def recvfrom_def put_at_def quiet_def
      same_answers_def split: option.splits recv_result.splits prod.splits)

text \<open>A datagram at hand is delivered, whoever sent it.\<close>

lemma read_only_from_dgram:
  assumes "w_temp w (n_temp w) = Some fill" and "w_recv w (n_recv w) = Rx_dgram src bs"
    and "length b = n"
  shows "read_only_from w b n a =
         (int (length (take n bs)), put_at (map fill [0..<n]) 0 (take n bs),
          w\<lparr>n_temp := Suc (n_temp w), n_recv := Suc (n_recv w)\<rparr>)"
  using assms by (simp add: read_only_from_unfold malloc_temp_def recvfrom_def)

text \<open>Polling ends once the clock has passed the limit.\<close>

lemma read_poll_returns:
  "n_time w \<le> k \<Longrightarrow> 6 \<le> w_time w k - startTime \<Longrightarrow> \<exists>r. read_poll startTime w b a = Some r"
proof (induction "k - n_time w" arbitrary: w b)
  case 0
  then have "k = n_time w" by simp
  with 0 show ?case by (subst read_poll.simps) (simp add: time_now_def)
next
  case (Suc d)
  obtain n b' w2 where r: "read_only_from (snd (time_now w)) b PACKET_SIZE a = (n, b', w2)"
    by (cases "read_only_from (snd (time_now w)) b PACKET_SIZE a") auto
  have "n_time w2 = Suc (n_time w)" and "w_time w2 = w_time w"
    using read_only_from_frame [OF r] by (auto simp: time_now_def quiet_def same_answers_def)
  with Suc have "\<exists>r. read_poll startTime w2 b' a = Some r" by simp
  with r show ?case
    by (subst read_poll.simps) (auto simp: time_now_def)
qed

text \<open>
  \<open>recv_at w k b\<close>: the buffer \<open>b\<close> holds the datagram that the \<open>k\<close>-th \<^verbatim>\<open>recvfrom\<close> delivered, in
  front of whatever the fresh block contained.
\<close>

definition recv_at :: "world \<Rightarrow> nat \<Rightarrow> buffer \<Rightarrow> bool" where
  "recv_at w k b \<longleftrightarrow>
     (\<exists>src bs fill. w_recv w k = Rx_dgram src bs \<and> bs \<noteq> [] \<and>
        b = put_at (map fill [0..<PACKET_SIZE]) 0 (take PACKET_SIZE bs))"

lemma read_only_from_recv:
  assumes "read_only_from w b PACKET_SIZE a = (n, b', w')" and "length b = PACKET_SIZE" and "n > 0"
  shows "n_recv w' = Suc (n_recv w) \<and> recv_at w (n_recv w) b'"
  using assms
  by (auto simp: read_only_from_unfold malloc_temp_def recvfrom_def recv_at_def
      split: option.splits recv_result.splits prod.splits)

lemma read_only_from_n_recv:
  "read_only_from w b n a = (r, b', w') \<Longrightarrow> n_recv w \<le> n_recv w'"
  by (auto simp: read_only_from_unfold malloc_temp_def recvfrom_def
      split: option.splits recv_result.splits prod.splits)

lemma recv_at_quiet: "quiet w w' \<Longrightarrow> recv_at w' = recv_at w"
  by (simp add: recv_at_def quiet_def same_answers_def fun_eq_iff)

definition poll_post :: "int \<Rightarrow> world \<Rightarrow> int \<times> buffer \<times> world \<Rightarrow> bool" where
  "poll_post startTime w r \<longleftrightarrow>
     (case r of (n, b', w') \<Rightarrow>
       (n > 0 \<and> n_recv w < n_recv w' \<and> recv_at w (n_recv w' - 1) b' \<or>
        n = -1 \<and> (\<exists>k\<ge>n_time w. 6 \<le> w_time w k - startTime)) \<and>
       quiet w w' \<and> n_recv w \<le> n_recv w' \<and> length b' = PACKET_SIZE)"

lemma poll_post_later:
  assumes "poll_post startTime w2 r" and "quiet w w2"
    and "n_time w \<le> n_time w2" and "n_recv w \<le> n_recv w2"
  shows "poll_post startTime w r"
proof -
  obtain n b' w' where r: "r = (n, b', w')" by (cases r)
  have q: "quiet w2 w'" using assms(1) r by (simp add: poll_post_def)
  have "quiet w w'" using assms(2) q by (rule quiet_trans)
  moreover have "w_time w2 = w_time w" using assms(2) by (simp add: quiet_def same_answers_def)
  moreover have "recv_at w2 = recv_at w" using assms(2) by (rule recv_at_quiet)
  ultimately show ?thesis
    using assms(1,3,4) r by (auto simp: poll_post_def intro: order_trans)
qed

lemma read_poll_post:
  assumes ret: "read_poll startTime w b a = Some r" and len: "length b = PACKET_SIZE"
  shows "poll_post startTime w r"
proof -
  let ?P = "\<lambda>s w b a r. length b = PACKET_SIZE \<longrightarrow> poll_post s w r"
  have "?P startTime w b a r"
  proof (rule read_poll.raw_induct [where P = ?P, OF _ ret])
    fix f startTime w b a r
    assume IH: "\<And>s w b a r. f s w b a = Some r \<Longrightarrow> ?P s w b a r"
      and eq: "(case time_now w of (now, w1) \<Rightarrow>
          if now - startTime < 6 then
            (case read_only_from w1 b PACKET_SIZE a of
               (n, b', w2) \<Rightarrow> if n > 0 then Some (n, b', w2) else f startTime w2 b' a)
          else Some (-1, b, w1)) = Some r"
    obtain now w1 where t: "time_now w = (now, w1)" by fastforce
    obtain n b1 w2 where r1: "read_only_from w1 b PACKET_SIZE a = (n, b1, w2)"
      by (cases "read_only_from w1 b PACKET_SIZE a") auto
    have w1: "n_time w1 = Suc (n_time w)" "n_recv w1 = n_recv w" "quiet w w1"
      "now = w_time w (n_time w)"
      using t by (auto simp: time_now_def quiet_def same_answers_def)
    note w2 = read_only_from_frame [OF r1] read_only_from_n_recv [OF r1]
    have q: "quiet w w2" using w1(3) w2(1) by (rule quiet_trans)
    show "?P startTime w b a r"
    proof
      assume len: "length b = PACKET_SIZE"
      consider "now - startTime < 6" "n > 0" | "now - startTime < 6" "\<not> n > 0"
        | "\<not> now - startTime < 6" by blast
      then show "poll_post startTime w r"
      proof cases
        case 1
        with eq t r1 have "r = (n, b1, w2)" by simp
        with 1 read_only_from_recv [OF r1 len 1(2)] q w1 w2 len show ?thesis
          by (simp add: poll_post_def recv_at_quiet [OF w1(3)])
      next
        case 2
        with IH [of startTime w2 b1 a r] eq t r1 w2 len have "poll_post startTime w2 r" by simp
        then show ?thesis using q w1 w2 by (rule_tac poll_post_later) auto
      next
        case 3
        with eq t w1 len show ?thesis by (auto simp: poll_post_def)
      qed
    qed
  qed
  with len show ?thesis by simp
qed

lemma read_until_timeout_post:
  assumes "read_until_timeout w b a = Some r" and "length b = PACKET_SIZE"
  shows "poll_post (w_time w (n_time w)) w r"
proof -
  let ?w1 = "snd (time_now w)"
  have "poll_post (w_time w (n_time w)) ?w1 r"
    using assms read_poll_post by (auto simp: read_until_timeout_def time_now_def)
  then show ?thesis
    by (rule poll_post_later) (auto simp: time_now_def quiet_def same_answers_def)
qed

text \<open>
  Polling call by call. The \<open>i\<close>-th poll needs a block from \<^verbatim>\<open>malloc\<close> before it receives, so the number
  of its receive counts the blocks there were before; \<open>poll_finds\<close> says that it finds a datagram with data.
\<close>

definition recv_no :: "world \<Rightarrow> nat \<Rightarrow> nat" where
  "recv_no w i = n_recv w + length (filter (\<lambda>j. w_temp w (n_temp w + j) \<noteq> None) [0..<i])"

definition poll_finds :: "world \<Rightarrow> nat \<Rightarrow> buffer \<Rightarrow> buffer \<Rightarrow> bool" where
  "poll_finds w i bs b \<longleftrightarrow>
     (\<exists>fill src. w_temp w (n_temp w + i) = Some fill \<and> w_recv w (recv_no w i) = Rx_dgram src bs \<and> bs \<noteq> [] \<and>
        b = put_at (map fill [0..<PACKET_SIZE]) 0 (take PACKET_SIZE bs))"

lemma recv_no_shift:
  assumes "w_temp w' = w_temp w" and "n_temp w' = Suc (n_temp w)"
    and "n_recv w' = n_recv w + (if w_temp w (n_temp w) = None then 0 else 1)"
  shows "recv_no w' i = recv_no w (Suc i)"
proof -
  have "[0..<Suc i] = 0 # map Suc [0..<i]" by (simp add: upt_conv_Cons map_Suc_upt del: upt_Suc)
  then show ?thesis using assms by (simp add: recv_no_def filter_map comp_def del: upt_Suc)
qed

lemma poll_finds_shift:
  assumes "same_answers w w'" and "n_temp w' = Suc (n_temp w)"
    and "n_recv w' = n_recv w + (if w_temp w (n_temp w) = None then 0 else 1)"
  shows "poll_finds w' i = poll_finds w (Suc i)"
proof -
  have "w_temp w' = w_temp w" "w_recv w' = w_recv w" using assms(1) by (simp_all add: same_answers_def)
  then show ?thesis using recv_no_shift [OF _ assms(2,3), of i] assms(2) by (simp add: poll_finds_def fun_eq_iff)
qed

text \<open>A poll that finds nothing, and one that finds a datagram.\<close>

lemma read_only_from_poll:
  assumes "length b = PACKET_SIZE"
  shows "(\<nexists>bs c. poll_finds w 0 bs c) \<Longrightarrow> \<exists>n b' w'. read_only_from w b PACKET_SIZE a = (n, b', w') \<and> n \<le> 0 \<and>
      length b' = PACKET_SIZE \<and> quiet w w' \<and> n_time w' = n_time w \<and> n_temp w' = Suc (n_temp w) \<and>
      n_recv w' = n_recv w + (if w_temp w (n_temp w) = None then 0 else 1)"
    and "poll_finds w 0 bs c \<Longrightarrow> \<exists>w'. read_only_from w b PACKET_SIZE a = (int (length (take PACKET_SIZE bs)), c, w') \<and>
      quiet w w' \<and> n_time w' = n_time w"
proof -
  obtain n b' w' where r: "read_only_from w b PACKET_SIZE a = (n, b', w')"
    by (cases "read_only_from w b PACKET_SIZE a") auto
  note fr = read_only_from_frame [OF r]
  have "n \<le> 0 \<and> n_temp w' = Suc (n_temp w) \<and> n_recv w' = n_recv w + (if w_temp w (n_temp w) = None then 0 else 1)"
    if "\<nexists>bs c. poll_finds w 0 bs c"
    using r that
    by (auto simp: read_only_from_unfold malloc_temp_def recvfrom_def poll_finds_def recv_no_def
        split: option.splits recv_result.splits prod.splits)
  then show "(\<nexists>bs c. poll_finds w 0 bs c) \<Longrightarrow> \<exists>n b' w'. read_only_from w b PACKET_SIZE a = (n, b', w') \<and> n \<le> 0 \<and>
      length b' = PACKET_SIZE \<and> quiet w w' \<and> n_time w' = n_time w \<and> n_temp w' = Suc (n_temp w) \<and>
      n_recv w' = n_recv w + (if w_temp w (n_temp w) = None then 0 else 1)"
    using r fr assms by blast
  show "poll_finds w 0 bs c \<Longrightarrow> \<exists>w'. read_only_from w b PACKET_SIZE a = (int (length (take PACKET_SIZE bs)), c, w') \<and>
      quiet w w' \<and> n_time w' = n_time w"
    using read_only_from_dgram [OF _ _ assms, of w _ _ bs a]
    by (auto simp: poll_finds_def recv_no_def quiet_def same_answers_def)
qed

text \<open>Polling stops at the first datagram with data, or at the first look at the clock that shows six seconds.\<close>

definition polled :: "int \<Rightarrow> world \<Rightarrow> nat \<Rightarrow> nat \<Rightarrow> int \<Rightarrow> buffer \<Rightarrow> bool" where
  "polled startTime w t j n b \<longleftrightarrow>
     (\<forall>i<j. w_time w (t + i) - startTime < 6 \<and> (\<nexists>bs c. poll_finds w i bs c)) \<and>
     (if w_time w (t + j) - startTime < 6
      then \<exists>bs. poll_finds w j bs b \<and> n = int (length (take PACKET_SIZE bs))
      else n = -1)"

lemma polled_Suc:
  assumes "polled startTime w' (Suc t) j n b" and "same_answers w w'" and "n_temp w' = Suc (n_temp w)"
    and "n_recv w' = n_recv w + (if w_temp w (n_temp w) = None then 0 else 1)"
    and "w_time w t - startTime < 6" and "\<nexists>bs c. poll_finds w 0 bs c"
  shows "polled startTime w t (Suc j) n b"
proof -
  have pf: "poll_finds w' i = poll_finds w (Suc i)" for i using assms(2-4) by (rule poll_finds_shift)
  have tm: "w_time w' = w_time w" using assms(2) by (simp add: same_answers_def)
  have "w_time w (t + i) - startTime < 6 \<and> (\<nexists>bs c. poll_finds w i bs c)" if "i < Suc j" for i
    using that assms(1,5,6) pf tm by (cases i) (auto simp: polled_def)
  then show ?thesis using assms(1) by (auto simp: polled_def pf tm split: if_splits)
qed

lemma read_poll_exact:
  assumes "length b = PACKET_SIZE" and "n_time w \<le> k" and "6 \<le> w_time w k - startTime"
  shows "\<exists>j n b' w'. read_poll startTime w b a = Some (n, b', w') \<and> polled startTime w (n_time w) j n b' \<and>
    quiet w w' \<and> n_time w' = n_time w + Suc j"
  using assms
proof (induction "k - n_time w" arbitrary: w b rule: less_induct)
  case less
  let ?w1 = "w\<lparr>n_time := Suc (n_time w)\<rparr>"
  have q1: "quiet w ?w1" by (simp add: quiet_def same_answers_def)
  have pf1: "poll_finds ?w1 = poll_finds w" by (simp add: poll_finds_def recv_no_def fun_eq_iff)
  note unfold = read_poll.simps [of startTime w b a] time_now_def [of w]
  consider (late) "6 \<le> w_time w (n_time w) - startTime"
    | (found) bs c where "w_time w (n_time w) - startTime < 6" "poll_finds w 0 bs c"
    | (empty) "w_time w (n_time w) - startTime < 6" "\<nexists>bs c. poll_finds w 0 bs c" by force
  then show ?case
  proof cases
    case late
    then show ?thesis using q1
      by (intro exI [of _ 0] exI [of _ "-1"] exI [of _ b] exI [of _ ?w1]) (simp add: unfold polled_def)
  next
    case found
    then obtain w' where r: "read_only_from ?w1 b PACKET_SIZE a = (int (length (take PACKET_SIZE bs)), c, w')"
      "quiet ?w1 w'" "n_time w' = Suc (n_time w)"
      using read_only_from_poll(2) [OF less.prems(1), of ?w1 bs c a] pf1 by auto
    have "bs \<noteq> []" using found(2) by (auto simp: poll_finds_def)
    then show ?thesis
      using found r quiet_trans [OF q1 r(2)]
      by (intro exI [of _ 0] exI [of _ "int (length (take PACKET_SIZE bs))"] exI [of _ c] exI [of _ w'])
        (auto simp: unfold polled_def)
  next
    case empty
    then obtain n b1 w2 where r: "read_only_from ?w1 b PACKET_SIZE a = (n, b1, w2)" "n \<le> 0" "length b1 = PACKET_SIZE"
      "quiet ?w1 w2" "n_time w2 = Suc (n_time w)" "n_temp w2 = Suc (n_temp w)"
      "n_recv w2 = n_recv w + (if w_temp w (n_temp w) = None then 0 else 1)"
      using read_only_from_poll(1) [OF less.prems(1), of ?w1 a] pf1 by auto
    have q2: "quiet w w2" using quiet_trans [OF q1 r(4)] .
    then have sa: "same_answers w w2" by (simp add: quiet_def)
    have ne: "n_time w \<noteq> k" using empty(1) less.prems(3) by auto
    have "\<exists>j n b' w'. read_poll startTime w2 b1 a = Some (n, b', w') \<and> polled startTime w2 (n_time w2) j n b' \<and>
        quiet w2 w' \<and> n_time w' = n_time w2 + Suc j"
      using less.prems(2,3) ne r(3,5) sa by (intro less.hyps) (auto simp: same_answers_def)
    then obtain j m b' w' where IH: "read_poll startTime w2 b1 a = Some (m, b', w')"
      "polled startTime w2 (Suc (n_time w)) j m b'" "quiet w2 w'" "n_time w' = Suc (n_time w) + Suc j"
      using r(5) by auto
    have "read_poll startTime w b a = Some (m, b', w')" using empty(1) r(1,2) IH(1) by (simp add: unfold)
    with polled_Suc [OF IH(2) sa r(6,7) empty] quiet_trans [OF q2 IH(3)] IH(4) show ?thesis by fastforce
  qed
qed

text \<open>Sending a represented window sends its packets in order, up to the first failure.\<close>

lemma send_from_rep:
  assumes "ll_path h p xs" and "\<forall>x\<in>set xs. wf_packet (snd x)"
    and "\<forall>k. w_send w k = Tx_ok"
  shows "send_from w target h p =
         Some (Return 0, w\<lparr>n_send := n_send w + length xs,
                            sent := sent w @ map (\<lambda>x. (target, snd x)) xs\<rparr>)"
  using assms
proof (induction xs arbitrary: p w)
  case Nil
  then show ?case by (simp add: send_from.simps)
next
  case (Cons x xs)
  let ?w = "w\<lparr>n_send := Suc (n_send w), sent := sent w @ [(target, snd x)]\<rparr>"
  obtain nx where p: "p = Some (fst x)" and n: "h (fst x) = Some \<lparr>node_next = nx, node_data = snd x\<rparr>"
    and path: "ll_path h nx xs" using Cons.prems(1) by auto
  have "send_from w target h p = send_from ?w target h nx"
    using p n Cons.prems by (subst send_from.simps) (simp add: world_simps)
  also have "\<dots> = Some (Return 0, ?w\<lparr>n_send := n_send ?w + length xs,
                            sent := sent ?w @ map (\<lambda>x. (target, snd x)) xs\<rparr>)"
    using Cons.prems path by (intro Cons.IH) auto
  finally show ?case by simp
qed

lemma send_all_rep:
  assumes "ll_rep h l ds" and "\<forall>d\<in>set ds. wf_packet d" and "\<forall>k. w_send w k = Tx_ok"
  shows "send_all w target h l =
         Some (Return 0, w\<lparr>n_send := n_send w + length ds,
                            sent := sent w @ map (Pair target) ds\<rparr>)"
proof -
  obtain xs where xs: "ll_path h (ll_head l) xs" "map snd xs = ds"
    using assms(1) by (auto simp: ll_rep_def ll_nodes_def)
  then have "send_from w target h (ll_head l) =
      Some (Return 0, w\<lparr>n_send := n_send w + length xs,
                         sent := sent w @ map (\<lambda>x. (target, snd x)) xs\<rparr>)"
    using assms by (intro send_from_rep) force+
  with xs show ?thesis
    by (cases xs) (auto simp: send_all_def)
qed

text \<open>The datagrams a process handed to the network between two states.\<close>

definition newly_sent :: "world \<Rightarrow> world \<Rightarrow> buffer list" where
  "newly_sent w w' = map snd (drop (length (sent w)) (sent w'))"

lemma send_packet_log:
  assumes "send_packet w target p = (r, w')" and "wf_packet p"
  shows "sent w' = (if r = 0 then sent w @ [(target, p)] else sent w)"
  using assms by (cases "w_send w (n_send w)") (auto simp: world_simps)

text \<open>The log entry of the next send, if it succeeds.\<close>

definition if_sent :: "world \<Rightarrow> 'a \<Rightarrow> 'a list" where
  "if_sent w x = (if w_send w (n_send w) = Tx_ok then [x] else [])"

lemma map_if_sent [simp]: "map f (if_sent w x) = if_sent w (f x)"
  by (simp add: if_sent_def)

lemma send_packet_sent:
  "send_packet w target p = (r, w') \<Longrightarrow> wf_packet p \<Longrightarrow> sent w' = sent w @ map (Pair target) (if_sent w p)"
  by (cases "w_send w (n_send w)") (auto simp: world_simps if_sent_def)

lemma send_packet_newly:
  assumes "send_packet w target p = (r, w')" and "wf_packet p" and "sent w'' = sent w'"
  shows "newly_sent w w'' = if_sent w p"
  using assms by (cases "w_send w (n_send w)") (auto simp: world_simps newly_sent_def if_sent_def)

lemma send_from_done:
  assumes "send_from w target h p = Some (Return 0, w')" and "ll_path h p xs"
    and "\<forall>x\<in>set xs. wf_packet (snd x)"
  shows "sent w' = sent w @ map (\<lambda>x. (target, snd x)) xs"
  using assms
proof (induction xs arbitrary: p w)
  case Nil
  then show ?case by (simp add: send_from.simps)
next
  case (Cons x xs)
  obtain nx where p: "p = Some (fst x)" and n: "h (fst x) = Some \<lparr>node_next = nx, node_data = snd x\<rparr>"
    and path: "ll_path h nx xs" using Cons.prems(2) by auto
  obtain r w1 where s: "send_packet w target (snd x) = (r, w1)" by fastforce
  have r: "r = 0" and rest: "send_from w1 target h nx = Some (Return 0, w')"
    using Cons.prems(1) p n s by (auto simp: send_from.simps [of w] split: if_splits)
  have "sent w1 = sent w @ [(target, snd x)]"
    using send_packet_log [OF s] r Cons.prems(3) by simp
  then show ?case using Cons.IH [OF rest path] Cons.prems(3) by simp
qed

lemma send_all_done:
  assumes "send_all w target h l = Some (Return 0, w')" and "ll_rep h l ds"
    and "\<forall>d\<in>set ds. wf_packet d"
  shows "newly_sent w w' = ds"
proof -
  obtain xs where xs: "ll_path h (ll_head l) xs" "map snd xs = ds"
    using assms(2) by (auto simp: ll_rep_def ll_nodes_def)
  have wf: "\<forall>x\<in>set xs. wf_packet (snd x)" using xs(2) assms(3) by force
  have "sent w' = sent w @ map (\<lambda>x. (target, snd x)) xs"
  proof (cases "ll_head l")
    case None
    with assms(1) xs(1) show ?thesis by (cases xs) (auto simp: send_all_def)
  next
    case (Some a)
    with assms(1) have "send_from w target h (ll_head l) = Some (Return 0, w')"
      by (simp add: send_all_def)
    then show ?thesis using xs(1) wf by (rule send_from_done)
  qed
  with xs show ?thesis by (simp add: newly_sent_def comp_def)
qed

text \<open>How many of the next \<open>n\<close> sends succeed before the first failure.\<close>

definition sends_ok :: "world \<Rightarrow> nat \<Rightarrow> nat" where
  "sends_ok w n = length (takeWhile (\<lambda>i. w_send w (n_send w + i) = Tx_ok) [0..<n])"

lemma sends_ok_0 [simp]: "sends_ok w 0 = 0"
  by (simp add: sends_ok_def)

lemma sends_ok_le: "sends_ok w n \<le> n"
  using length_takeWhile_le [of _ "[0..<n]"] by (simp add: sends_ok_def)

lemma sends_ok_Suc:
  "sends_ok w (Suc n) =
     (if w_send w (n_send w) = Tx_ok then Suc (sends_ok (w\<lparr>n_send := Suc (n_send w), sent := s\<rparr>) n) else 0)"
proof -
  have "[0..<Suc n] = 0 # map Suc [0..<n]" by (simp add: upt_conv_Cons map_Suc_upt del: upt_Suc)
  then show ?thesis by (simp add: sends_ok_def takeWhile_map comp_def del: upt_Suc)
qed

lemma send_from_prefix:
  assumes "ll_path h p xs" and "\<forall>x\<in>set xs. wf_packet (snd x)"
  shows "\<exists>w'. send_from w target h p =
           Some (Return (if sends_ok w (length xs) = length xs then 0 else 1), w') \<and>
         sent w' = sent w @ map (\<lambda>x. (target, snd x)) (take (sends_ok w (length xs)) xs)"
  using assms
proof (induction xs arbitrary: p w)
  case Nil
  then show ?case by (simp add: send_from.simps)
next
  case (Cons x xs)
  let ?w = "w\<lparr>n_send := Suc (n_send w), sent := sent w @ [(target, snd x)]\<rparr>"
  obtain nx where p: "p = Some (fst x)" and n: "h (fst x) = Some \<lparr>node_next = nx, node_data = snd x\<rparr>"
    and path: "ll_path h nx xs" using Cons.prems(1) by auto
  note ok = sends_ok_Suc [of w "length xs" "sent w @ [(target, snd x)]"]
  show ?case
  proof (cases "w_send w (n_send w)")
    case Tx_ok
    then have "send_from w target h p = send_from ?w target h nx"
      using p n Cons.prems by (subst send_from.simps) (simp add: world_simps)
    then show ?thesis using Cons.IH [OF path, of ?w] Cons.prems(2) Tx_ok ok by simp
  next
    case (Tx_error e)
    then show ?thesis using p n ok by (subst send_from.simps) (simp add: world_simps)
  qed
qed

lemma ll_rep_wf_path:
  assumes "ll_rep h l ds" and "\<forall>d\<in>set ds. wf_packet d"
  obtains xs where "ll_path h (ll_head l) xs" and "map snd xs = ds" and "\<forall>x\<in>set xs. wf_packet (snd x)"
  using assms by (force simp: ll_rep_def ll_nodes_def)

text \<open>A represented list is sent up to the first failing send.\<close>

lemma send_all_rep_prefix:
  assumes "ll_rep h packets ds" and "\<forall>d\<in>set ds. wf_packet d"
  shows "\<exists>w'. send_all w target h packets =
           Some (Return (if sends_ok w (length ds) = length ds then 0 else 1), w') \<and>
         newly_sent w w' = take (sends_ok w (length ds)) ds"
proof -
  obtain xs where xs: "ll_path h (ll_head packets) xs" "map snd xs = ds"
    "\<forall>x\<in>set xs. wf_packet (snd x)"
    using ll_rep_wf_path [OF assms] by blast
  obtain w' where "send_from w target h (ll_head packets) =
      Some (Return (if sends_ok w (length xs) = length xs then 0 else 1), w')"
    "sent w' = sent w @ map (\<lambda>x. (target, snd x)) (take (sends_ok w (length xs)) xs)"
    using send_from_prefix [OF xs(1,3)] by blast
  moreover have "length ds = length xs" using xs(2) by auto
  moreover have "send_all w target h packets = send_from w target h (ll_head packets)"
    by (simp add: send_all_def send_from.simps)
  ultimately show ?thesis using xs(2) by (auto simp: newly_sent_def take_map comp_def)
qed

lemma length_digits_byte: "n < 256 \<Longrightarrow> length (digits n) \<le> 3"
  by (simp add: digits.simps [of n] digits.simps [of "n div 10"] digits.simps [of "n div 10 div 10"])

section \<open>Properties\<close>

text \<open>
  C26: a packet built by \<open>create_packet\<close> and delivered as a datagram is read back by
  \<open>read_only_from\<close> with the same command, sequence number, length and payload, whatever the fresh
  blocks of either side held before.
\<close>

theorem packet_round_trip:
  assumes "unat n \<le> length p" and "unat n \<le> PAYLOAD_SIZE" and "length b = PACKET_SIZE"
    and "w_temp w (n_temp w) = Some junk"
    and "w_recv w (n_recv w) = Rx_dgram src (create_packet fill c s n (Some p))"
  shows "\<exists>b' w'. read_only_from w b PACKET_SIZE wanted = (int (HEADER_SIZE + unat n), b', w') \<and>
           b' ! 0 = c \<and> get_seq_num b' = s \<and> GETLEN b' = n \<and>
           take (unat n) (drop HEADER_SIZE b') = take (unat n) p"
proof -
  let ?p = "create_packet fill c s n (Some p)" and ?t = "map junk [0..<PACKET_SIZE]"
  have fit: "\<And>q. Some p = Some q \<Longrightarrow> unat n \<le> length q" using assms(1) by simp
  have wf: "wf_packet ?p" using fit by (rule create_packet_wf)
  have len: "length ?p = 5 + unat n" using fit by (rule length_create_packet)
  have le: "length ?p \<le> length ?t" using len assms(2) by simp
  note rp = received_packet [OF wf le] and f = create_packet_fields [of "Some p" n fill c s, OF fit]
  have "read_only_from w b PACKET_SIZE wanted =
      (int (HEADER_SIZE + unat n), put_at ?t 0 ?p, w\<lparr>n_temp := Suc (n_temp w), n_recv := Suc (n_recv w)\<rparr>)"
    using read_only_from_dgram [OF assms(4,5,3)] len assms(2) by simp
  moreover have "put_at ?t 0 ?p ! 0 = c" using rp(1) f(1) by (simp add: pkt_cmd_def)
  moreover have "get_seq_num (put_at ?t 0 ?p) = s" and "GETLEN (put_at ?t 0 ?p) = n"
    using rp f by simp_all
  moreover have "take (unat n) (drop HEADER_SIZE (put_at ?t 0 ?p)) = take (unat n) p"
    using rp(3,4) f(3) create_packet_payload [OF assms(1), of fill c s] by (simp add: pkt_payload_def)
  ultimately show ?thesis by blast
qed

theorem packet_round_trip_witness:
  "\<exists>b' w'. read_only_from
       (calm_world (\<lambda>_. Rx_dgram \<lparr>sin_addr = 1, sin_port = 2\<rparr> (create_packet (\<lambda>_. 9) CMD_DATA 65535 2 (Some [10, 20, 30]))))
       (replicate PACKET_SIZE 7) PACKET_SIZE \<lparr>sin_addr = 1, sin_port = 2\<rparr> =
     (int (HEADER_SIZE + unat (2 :: u16)), b', w') \<and>
     b' ! 0 = CMD_DATA \<and> get_seq_num b' = 65535 \<and> GETLEN b' = 2 \<and>
     take (unat (2 :: u16)) (drop HEADER_SIZE b') = take (unat (2 :: u16)) [10, 20, 30]"
  by (rule packet_round_trip) simp_all

text \<open>
  The address a caller asks for makes no difference: \<open>read_only_from\<close> gives the same result,
  the same buffer and the same state for any two of them, so datagrams of third parties are taken.
\<close>

lemma read_only_from_any_sender:
  "read_only_from w buffer packetSize wanted = read_only_from w buffer packetSize wanted'"
  by (simp add: read_only_from_unfold)

text \<open>
  C31: \<open>read_until_timeout\<close> polls until it finds a datagram that is not empty or a look at the clock shows that
  six seconds have passed since the call, whichever comes first, and it ends when the clock gets
  there: exactly \<open>j\<close> polls find nothing, each of them within the six seconds; then the poll number \<open>j\<close> either is
  still within them and finds a datagram, whose length is returned and which is in the buffer, or is
  not made, and -1 is returned. Nothing is sent and no file is touched.
\<close>

theorem read_until_timeout_result:
  assumes "length buffer = PACKET_SIZE" and "n_time w < k" and "6 \<le> w_time w k - w_time w (n_time w)"
  shows "\<exists>j n buffer' w'. read_until_timeout w buffer wanted = Some (n, buffer', w') \<and>
           (\<forall>i<j. w_time w (n_time w + 1 + i) - w_time w (n_time w) < 6 \<and> (\<nexists>bs b. poll_finds w i bs b)) \<and>
           (if w_time w (n_time w + 1 + j) - w_time w (n_time w) < 6
            then \<exists>bs. poll_finds w j bs buffer' \<and> n = int (length (take PACKET_SIZE bs))
            else n = -1) \<and>
           n_time w' = n_time w + j + 2 \<and> sent w' = sent w \<and> files w' = files w"
proof -
  let ?w1 = "w\<lparr>n_time := Suc (n_time w)\<rparr>"
  have pf: "poll_finds ?w1 = poll_finds w" by (simp add: poll_finds_def recv_no_def fun_eq_iff)
  obtain j n b' w' where "read_poll (w_time w (n_time w)) ?w1 buffer wanted = Some (n, b', w')"
    "polled (w_time w (n_time w)) ?w1 (Suc (n_time w)) j n b'" "quiet ?w1 w'" "n_time w' = Suc (n_time w) + Suc j"
    using read_poll_exact [of buffer ?w1 k "w_time w (n_time w)" wanted] assms by auto
  then show ?thesis
    by (intro exI [of _ j] exI [of _ n] exI [of _ b'] exI [of _ w'])
      (auto simp: read_until_timeout_def time_now_def polled_def pf quiet_def split: if_splits)
qed

text \<open>Nothing at the first two polls, and then a packet, in the third of the six seconds.\<close>

definition late_packet :: world where
  "late_packet = calm_world (\<lambda>k. if k < 2 then Rx_error EAGAIN else Rx_dgram \<lparr>sin_addr = 1, sin_port = 9\<rparr> (control CMD_ACK 7))"

theorem read_until_timeout_result_witness:
  "\<exists>buffer' w'. read_until_timeout late_packet (replicate PACKET_SIZE 0) \<lparr>sin_addr = 1, sin_port = 2\<rparr> =
     Some (5, buffer', w') \<and> n_time w' = 4 \<and> get_seq_num buffer' = 7"
proof -
  have t: "w_time late_packet = int" "n_time late_packet = 0" by (simp_all add: late_packet_def)
  have found: "poll_finds late_packet i bs b \<longleftrightarrow> 2 \<le> i \<and> bs = control CMD_ACK 7 \<and> b = put_at (replicate PACKET_SIZE 0) 0 bs" for i bs b
  proof -
    have "recv_no late_packet i = i" by (simp add: recv_no_def late_packet_def)
    moreover have "map (\<lambda>_. 0 :: byte) [0..<2048] = replicate 2048 0" by (simp add: map_replicate_const)
    moreover have "control CMD_ACK 7 \<noteq> []" by (metis control_fields(5) list.size(3) zero_neq_numeral)
    ultimately show ?thesis by (auto simp: poll_finds_def late_packet_def)
  qed
  obtain j n b' w' where r: "read_until_timeout late_packet (replicate PACKET_SIZE 0) \<lparr>sin_addr = 1, sin_port = 2\<rparr> = Some (n, b', w')"
    "\<forall>i<j. int (1 + i) < 6 \<and> (\<nexists>bs b. poll_finds late_packet i bs b)"
    "if int (1 + j) < 6 then \<exists>bs. poll_finds late_packet j bs b' \<and> n = int (length (take PACKET_SIZE bs)) else n = -1"
    "n_time w' = j + 2"
    using read_until_timeout_result [of "replicate PACKET_SIZE 0" late_packet 6 "\<lparr>sin_addr = 1, sin_port = 2\<rparr>"] by (auto simp: t)
  have "\<not> 2 < j" using r(2) found by auto
  then have "j = 2" using r(3) found by (auto split: if_splits)
  then have "n = 5" "b' = put_at (replicate PACKET_SIZE 0) 0 (control CMD_ACK 7)" "n_time w' = 4" using r(3,4) found by auto
  moreover have "get_seq_num (put_at (replicate PACKET_SIZE 0) 0 (control CMD_ACK 7)) = 7"
    using received_packet(2) [of "control CMD_ACK 7" "replicate PACKET_SIZE 0"] by simp
  ultimately show ?thesis using r(1) by blast
qed

text \<open>
  Sending a window hands its packets to the network in list order and stops at the first one
  that fails: the packets sent are the prefix before the first failure, and the result is 0 exactly
  when there was none.
\<close>

theorem send_all_prefix:
  assumes "ll_rep h packets ds" and "\<forall>d\<in>set ds. wf_packet d"
  shows "\<exists>w'. send_all w target h packets =
           Some (Return (if sends_ok w (length ds) = length ds then 0 else 1), w') \<and>
         newly_sent w w' = take (sends_ok w (length ds)) ds"
  using assms by (rule send_all_rep_prefix)

theorem send_all_prefix_witness:
  "\<exists>w'. send_all (calm_world (\<lambda>_. Rx_error EAGAIN)) \<lparr>sin_addr = 1, sin_port = 2\<rparr>
       [0 \<mapsto> \<lparr>node_next = None, node_data = control CMD_ACK 5\<rparr>]
       \<lparr>ll_head = Some 0, ll_tail = Some 0, ll_size = 1\<rparr> =
     Some (Return (if sends_ok (calm_world (\<lambda>_. Rx_error EAGAIN)) (length [control CMD_ACK 5]) =
       length [control CMD_ACK 5] then 0 else 1), w') \<and>
     newly_sent (calm_world (\<lambda>_. Rx_error EAGAIN)) w' =
       take (sends_ok (calm_world (\<lambda>_. Rx_error EAGAIN)) (length [control CMD_ACK 5])) [control CMD_ACK 5]"
  by (rule send_all_prefix)
    (auto simp: ll_rep_def ll_nodes_def intro!: exI [of _ "[(0, control CMD_ACK 5)]"])

text \<open>
  The text \<open>command2str\<close> gives fits, with its final zero, into the static buffer of 16 bytes,
  and the table of names is never read beyond its end.
\<close>

lemma command2str_bounds:
  "length (command2str command) + 1 \<le> 16 \<and>
   (\<not> command > MAX_CMD_VALUE \<longrightarrow> unat command < length command_strings)"
proof -
  have "unat command < 256" using unsigned_less [of command] by simp
  then have "length (print_u (unat command)) \<le> 3" by (simp add: print_u_def length_digits_byte)
  moreover have "length (command_strings ! i) \<le> 3" if "i < 8" for i
    using that by (auto simp: command_strings_def less_Suc_eq eval_nat_numeral)
  moreover have "unat command < 8" if "\<not> command > MAX_CMD_VALUE"
    using that by (simp add: not_less word_le_nat_alt)
  ultimately show ?thesis by (fastforce simp: command2str_def command_strings_def)
qed

end
