(* ===== verification/Ft_Server.thy ===== *)
theory Ft_Server
  imports Ft_Common
begin

text \<open>
  \<^verbatim>\<open>copy_file\<close> of \<^verbatim>\<open>ftpclient/ftpserver.c\<close>, the process that serves one write request: it checks
  the request in the received buffer, creates the file, acknowledges, and then receives data
  packets in order until the client closes the transfer.
\<close>

section \<open>Exit codes\<close>

definition BAD_ARGS :: int where [simp]: "BAD_ARGS = 1"
definition BAD_PORT :: int where [simp]: "BAD_PORT = 2"
definition RUNTIME_ERROR :: int where [simp]: "RUNTIME_ERROR = 3"
definition BAD_REQUEST :: int where [simp]: "BAD_REQUEST = 4"
definition FILE_EXISTS :: int where [simp]: "FILE_EXISTS = 5"
definition CANNOT_CREATE :: int where [simp]: "CANNOT_CREATE = 6"
definition BAD_SIZE :: int where [simp]: "BAD_SIZE = 7"
definition TIMEOUT :: int where [simp]: "TIMEOUT = 8"

section \<open>The request\<close>

definition deny :: "world \<Rightarrow> sockaddr_in \<Rightarrow> byte \<Rightarrow> int \<Rightarrow> int outcome \<times> world" where
  "deny w origin cmd code =
     (case send_packet w origin (control cmd 0) of
        (r, w') \<Rightarrow> (if r \<noteq> 0 then Exit RUNTIME_ERROR else Return code, w'))"

text \<open>The guard on the request type and number.\<close>

definition request_refused :: "buffer \<Rightarrow> bool" where
  "request_refused buffer \<longleftrightarrow> buffer ! 0 \<noteq> CMD_WRQ \<and> get_seq_num buffer \<noteq> 0"

text \<open>
  The file name: the payload up to the separator, or what follows its last slash. The last slash
  is looked up before the separator is overwritten. \<open>name_block\<close> and \<open>name_copied\<close> are the size of
  the block allocated for a stripped name and the number of bytes \<^verbatim>\<open>strncpy\<close> writes to it, which is
  one more; \<open>name_overrun\<close>: that byte is outside the memory of the block.
\<close>

definition request_name :: "buffer \<Rightarrow> nat option \<Rightarrow> byte list" where
  "request_name payload slash =
     (case slash of
        None \<Rightarrow> cstr payload
      | Some i \<Rightarrow> cstr (drop (Suc i) payload))"

definition name_block :: "buffer \<Rightarrow> nat \<Rightarrow> nat" where
  "name_block payload slash = length (cstr (drop (Suc slash) payload)) + 1"

definition name_copied :: "buffer \<Rightarrow> nat \<Rightarrow> nat" where
  "name_copied payload slash = length (cstr (drop slash payload)) + 1"

definition name_overrun :: "world \<Rightarrow> buffer \<Rightarrow> nat option \<Rightarrow> bool" where
  "name_overrun w payload slash \<longleftrightarrow>
     (case slash of
        None \<Rightarrow> False
      | Some i \<Rightarrow> w_usable w (name_block payload i) < name_copied payload i)"

section \<open>The acknowledgement of the request\<close>

text \<open>
  The variable \<^verbatim>\<open>size_read\<close> of the loop condition stays -1, so the loop goes on while \<^verbatim>\<open>errno\<close>
  says that an earlier call would have blocked and less than six seconds have passed.
\<close>

partial_function (option) ack_request ::
  "int \<Rightarrow> world \<Rightarrow> sockaddr_in \<Rightarrow> buffer \<Rightarrow> byte list \<Rightarrow> (unit outcome \<times> world) option"
where
  "ack_request startTime w origin packet filename =
     (case send_packet w origin packet of
        (r, w1) \<Rightarrow>
          if r \<noteq> 0 then Some (Exit RUNTIME_ERROR, unlink_file w1 filename)
          else if errno w1 = EAGAIN \<or> errno w1 = EWOULDBLOCK then
            (case time_now w1 of
               (now, w2) \<Rightarrow>
                 if now - startTime < 6 then ack_request startTime w2 origin packet filename
                 else Some (Return (), w2))
          else Some (Return (), w1))"

section \<open>Receiving the file\<close>

datatype next_action =
    Again int u16        \<comment> \<open>go on receiving: bytes read so far, sequence number expected\<close>
  | Fin_received         \<comment> \<open>the file is complete and the client closes\<close>
  | Stop "int outcome"   \<comment> \<open>the process ends\<close>

text \<open>What the body of the receive loop does with the packet in the buffer.\<close>

definition handle_packet ::
  "world \<Rightarrow> sockaddr_in \<Rightarrow> byte list \<Rightarrow> int \<Rightarrow> int \<Rightarrow> u16 \<Rightarrow> buffer \<Rightarrow> next_action \<times> world"
where
  "handle_packet w origin filename filesize read expected_sequence buffer =
     (if buffer ! 0 = CMD_DATA then
        (if get_seq_num buffer \<noteq> expected_sequence then
           (case send_packet w origin (control CMD_ACK expected_sequence) of
              (_, w1) \<Rightarrow> (Again read expected_sequence, w1))
         else
           (case send_packet w origin (control CMD_ACK (expected_sequence + 1)) of
              (_, w1) \<Rightarrow>
                let actual = unat (GETLEN buffer);
                    read' = read + int actual
                in if actual > PAYLOAD_SIZE then (Stop Fault, w1)
                   else (case fwrite_to w1 filename (take actual (drop HEADER_SIZE buffer)) of
                           (written, w2) \<Rightarrow>
                             if written \<noteq> actual then (Stop (Return RUNTIME_ERROR), w2)
                             else if read' > filesize
                             then (Stop (Exit BAD_REQUEST), unlink_file w2 filename)
                             else (Again read' (expected_sequence + 1), w2))))
      else if buffer ! 0 = CMD_FIN then
        (if read \<noteq> filesize then (Stop (Exit BAD_REQUEST), unlink_file w filename)
         else (Fin_received, w))
      else (Again read expected_sequence, w))"

text \<open>
  After the client's FIN: the FINACK is sent every tenth of a second until an ACK comes or two
  seconds have passed. The result of \<^verbatim>\<open>read_only_from\<close> is kept in an unsigned variable, so that
  only 0 fails the test \<^verbatim>\<open>r > 0\<close>.
\<close>

partial_function (option) fin_loop ::
  "int \<Rightarrow> world \<Rightarrow> buffer \<Rightarrow> sockaddr_in \<Rightarrow> (buffer \<times> world) option"
where
  "fin_loop t w buffer origin =
     (case time_now w of
        (now, w1) \<Rightarrow>
          if now - t < ACK_TIMEOUT then
            (case send_packet w1 origin (control CMD_FINACK 0) of
               (_, w2) \<Rightarrow>
                 (case read_only_from w2 buffer PACKET_SIZE origin of
                    (r, buffer', w3) \<Rightarrow>
                      if r \<noteq> 0 \<and> buffer' ! 0 = CMD_ACK then Some (buffer', w3)
                      else fin_loop t w3 buffer' origin))
          else Some (buffer, w1))"

definition finish_transfer ::
  "world \<Rightarrow> buffer \<Rightarrow> sockaddr_in \<Rightarrow> (int outcome \<times> world) option"
where
  "finish_transfer w buffer origin =
     (case time_now w of
        (t, w1) \<Rightarrow> map_option (\<lambda>(_, w2). (Return 0, w2)) (fin_loop t w1 buffer origin))"

lemma case_next_action_mono [partial_function_mono]:
  assumes "\<And>r e. mono_option (f r e)" and "mono_option g" and "\<And>oc. mono_option (k oc)"
  shows "mono_option (\<lambda>F. case x of Again r e \<Rightarrow> f r e F | Fin_received \<Rightarrow> g F | Stop oc \<Rightarrow> k oc F)"
  using assms by (cases x) auto

partial_function (option) receive_loop ::
  "world \<Rightarrow> buffer \<Rightarrow> sockaddr_in \<Rightarrow> byte list \<Rightarrow> int \<Rightarrow> int \<Rightarrow> u16 \<Rightarrow> (int outcome \<times> world) option"
where
  "receive_loop w buffer origin filename filesize read expected_sequence =
     Option.bind (read_until_timeout w buffer origin) (\<lambda>(actual, buffer', w1).
       if actual = -1 then Some (Exit TIMEOUT, unlink_file w1 filename)
       else (case handle_packet w1 origin filename filesize read expected_sequence buffer' of
               (act, w2) \<Rightarrow>
                 (case act of
                    Again read' expected' \<Rightarrow>
                      receive_loop w2 buffer' origin filename filesize read' expected'
                  | Fin_received \<Rightarrow> finish_transfer w2 buffer' origin
                  | Stop oc \<Rightarrow> Some (oc, w2))))"

section \<open>The whole of copy_file\<close>

definition serve_file ::
  "world \<Rightarrow> buffer \<Rightarrow> sockaddr_in \<Rightarrow> byte list \<Rightarrow> int \<Rightarrow> (int outcome \<times> world) option"
where
  "serve_file w buffer origin filename filesize =
     (case fopen_w w filename of
        (False, w1) \<Rightarrow> Some (deny w1 origin CMD_EXISTS CANNOT_CREATE)
      | (True, w1) \<Rightarrow>
          (case time_now w1 of
             (startTime, w2) \<Rightarrow>
               Option.bind (ack_request startTime w2 origin (control CMD_ACK 1) filename)
                 (\<lambda>(oc, w3).
                    (case oc of
                       Return _ \<Rightarrow> receive_loop w3 buffer origin filename filesize 0 1
                     | Exit c \<Rightarrow> Some (Exit c, w3)
                     | Fault \<Rightarrow> Some (Fault, w3)))))"

text \<open>From the separator on: cut the payload there, name the file, check it and its size.\<close>

definition serve_request ::
  "world \<Rightarrow> buffer \<Rightarrow> sockaddr_in \<Rightarrow> nat option \<Rightarrow> nat \<Rightarrow> (int outcome \<times> world) option"
where
  "serve_request w buffer origin slash separator =
     (let payload = (drop HEADER_SIZE buffer)[separator := 0];
          filename = request_name payload slash
      in if name_overrun w payload slash then Some (Fault, w)
         else (case access_file w filename of
            (a, w1) \<Rightarrow>
              if a \<noteq> -1 then Some (deny w1 origin CMD_EXISTS FILE_EXISTS)
              else (case sscanf_ld_c (cstr (drop (Suc separator) payload)) (-1) of
                      (conversions, filesize) \<Rightarrow>
                        if conversions \<noteq> 1 \<or> filesize < 0 then Some (Return BAD_REQUEST, w1)
                        else serve_file w1 (put_at buffer HEADER_SIZE payload) origin
                               filename filesize)))"

definition copy_file_server :: "world \<Rightarrow> buffer \<Rightarrow> sockaddr_in \<Rightarrow> (int outcome \<times> world) option" where
  "copy_file_server w buffer origin =
     (let payload = drop HEADER_SIZE buffer in
      if fst (setup_socket w 0) \<noteq> 0 then Some (Return RUNTIME_ERROR, w)
      else if request_refused buffer then Some (deny w origin CMD_BADREQ BAD_REQUEST)
      else if \<not> terminated payload then Some (Fault, w)
      else (case strchr payload 124 of
              None \<Rightarrow> Some (deny w origin CMD_BADREQ BAD_REQUEST)
            | Some separator \<Rightarrow>
                serve_request w buffer origin (strrchr payload 47) separator))"

section \<open>Frame laws\<close>

definition others_kept :: "byte list \<Rightarrow> world \<Rightarrow> world \<Rightarrow> bool" where
  "others_kept name w w' \<longleftrightarrow> (\<forall>m. m \<noteq> name \<longrightarrow> files w' m = files w m)"

lemma others_kept_refl [simp]: "others_kept name w w"
  by (simp add: others_kept_def)

lemma others_kept_trans: "others_kept n w w' \<Longrightarrow> others_kept n w' w'' \<Longrightarrow> others_kept n w w''"
  by (simp add: others_kept_def)

lemma send_packet_frame:
  assumes "send_packet w target p = (r, w')"
  shows "same_answers w w'" and "files w' = files w" and "n_recv w' = n_recv w"
    and "n_time w' = n_time w" and "n_fwrite w' = n_fwrite w"
  using assms
  by (auto simp: send_packet_def sendto_def Let_def same_answers_def
      split: send_result.splits prod.splits)

lemma fwrite_to_frame:
  assumes "fwrite_to w name bs = (k, w')"
  shows "same_answers w w'" and "others_kept name w w'" and "n_recv w' = n_recv w"
    and "k = length bs \<Longrightarrow> files w name = Some c \<Longrightarrow> files w' name = Some (c @ bs)"
  using assms
  by (auto simp: fwrite_to_def Let_def same_answers_def others_kept_def split: option.splits)

lemma unlink_file_frame [simp]:
  "same_answers w (unlink_file w name)" "others_kept name w (unlink_file w name)"
  "files (unlink_file w name) name = None"
  by (simp_all add: unlink_file_def same_answers_def others_kept_def)

lemma same_answers_trans: "same_answers w w' \<Longrightarrow> same_answers w' w'' \<Longrightarrow> same_answers w w''"
  by (simp add: same_answers_def)

section \<open>What the receive loop has written\<close>

text \<open>
  \<open>in_order\<close>: data packets with the consecutive sequence numbers 1, 2, 3, and so on modulo
  \<open>2 ^ 16\<close>. \<open>progress w0 w name read expected ks ps\<close>: between \<open>w0\<close> and \<open>w\<close> the packets \<open>ps\<close> were
  received, in this order, by the calls numbered \<open>ks\<close> of \<^verbatim>\<open>recvfrom\<close>, and the file holds exactly
  their payloads.
\<close>

definition in_order :: "buffer list \<Rightarrow> bool" where
  "in_order ps \<longleftrightarrow>
     (\<forall>i < length ps. pkt_cmd (ps ! i) = CMD_DATA \<and> get_seq_num (ps ! i) = seq16 (Suc i))"

definition received_at :: "world \<Rightarrow> nat list \<Rightarrow> buffer list \<Rightarrow> bool" where
  "received_at w ks ps \<longleftrightarrow> list_all2 (recv_at w) ks ps \<and> sorted_wrt (<) ks"

definition progress :: "world \<Rightarrow> byte list \<Rightarrow> int \<Rightarrow> u16 \<Rightarrow> nat list \<Rightarrow> buffer list \<Rightarrow> bool" where
  "progress w name read expected ks ps \<longleftrightarrow>
     in_order ps \<and> received_at w ks ps \<and> (\<forall>k\<in>set ks. k < n_recv w) \<and>
     files w name = Some (concat (map pkt_payload ps)) \<and>
     read = int (length (concat (map pkt_payload ps))) \<and>
     expected = seq16 (Suc (length ps))"

lemma in_order_snoc:
  "in_order ps \<Longrightarrow> pkt_cmd p = CMD_DATA \<Longrightarrow> get_seq_num p = seq16 (Suc (length ps)) \<Longrightarrow>
   in_order (ps @ [p])"
  by (auto simp: in_order_def nth_append less_Suc_eq)

lemma recv_at_same_answers: "same_answers w w' \<Longrightarrow> recv_at w' = recv_at w"
  by (simp add: recv_at_def same_answers_def fun_eq_iff)

lemma progress_move:
  assumes "progress w name read e ks ps" and "same_answers w w'"
    and "files w' name = files w name" and "n_recv w \<le> n_recv w'"
  shows "progress w' name read e ks ps"
  using assms recv_at_same_answers [OF assms(2)]
  by (auto simp: progress_def received_at_def)

lemma handle_packet_frame:
  assumes "handle_packet w origin name filesize read e b = (act, w')"
  shows "same_answers w w'" and "others_kept name w w'" and "n_recv w' = n_recv w"
proof -
  have *: "same_answers w w' \<and> others_kept name w w' \<and> n_recv w' = n_recv w"
  proof (cases "b ! 0 = CMD_DATA")
    case False
    with assms show ?thesis
      by (auto simp: handle_packet_def unlink_file_def same_answers_def others_kept_def
          split: if_splits)
  next
    case True
    obtain r w1 where s1: "send_packet w origin (control CMD_ACK e) = (r, w1)" by fastforce
    obtain r' w2 where s2: "send_packet w origin (control CMD_ACK (e + 1)) = (r', w2)" by fastforce
    let ?bs = "take (unat (GETLEN b)) (drop HEADER_SIZE b)"
    obtain k w3 where f: "fwrite_to w2 name ?bs = (k, w3)" by fastforce
    note fr = send_packet_frame [OF s1] send_packet_frame [OF s2] fwrite_to_frame(1-3) [OF f]
    have w3: "same_answers w w3" "others_kept name w w3" "n_recv w3 = n_recv w"
      using fr by (auto simp: same_answers_def others_kept_def)
    have w4: "same_answers w (unlink_file w3 name)" "others_kept name w (unlink_file w3 name)"
      "n_recv (unlink_file w3 name) = n_recv w"
      using w3 by (auto simp: unlink_file_def same_answers_def others_kept_def)
    have "w' \<in> {w1, w2, w3, unlink_file w3 name}"
      using assms True s1 s2 f by (auto simp: handle_packet_def Let_def split: if_splits)
    with fr w3 w4 show ?thesis by (auto simp: others_kept_def)
  qed
  then show "same_answers w w'" and "others_kept name w w'" and "n_recv w' = n_recv w" by auto
qed

text \<open>One packet advances the transfer by its payload, or ends it.\<close>

lemma handle_packet_progress:
  assumes "progress w name read e ks ps" and "\<forall>k'\<in>set ks. k' < k" and "k < n_recv w"
    and "recv_at w k b" and "length b = PACKET_SIZE"
    and "handle_packet w origin name filesize read e b = (Again read' e', w')"
  shows "\<exists>ks' ps'. progress w' name read' e' ks' ps'"
proof (cases "b ! 0 = CMD_DATA \<and> get_seq_num b = e")
  case False
  with assms(6) have "read' = read" and "e' = e" and "files w' = files w"
    by (auto simp: handle_packet_def Let_def dest: send_packet_frame(2)
        split: if_splits prod.splits)
  with assms(1) handle_packet_frame(1,3) [OF assms(6)] show ?thesis
    by (metis progress_move order_refl)
next
  case True
  let ?bs = "take (unat (GETLEN b)) (drop HEADER_SIZE b)"
  obtain r w1 where s: "send_packet w origin (control CMD_ACK (e + 1)) = (r, w1)" by fastforce
  obtain n w2 where f: "fwrite_to w1 name ?bs = (n, w2)" by fastforce
  from True assms(5,6) s f
  have len: "unat (GETLEN b) \<le> PAYLOAD_SIZE" "n = length ?bs" "w' = w2"
    and new: "read' = read + int (unat (GETLEN b))" "e' = e + 1"
    by (auto simp: handle_packet_def Let_def split: if_splits)
  have bs: "?bs = pkt_payload b" by (simp add: pkt_payload_def)
  have "files w1 name = Some (concat (map pkt_payload ps))"
    using assms(1) send_packet_frame(2) [OF s] by (simp add: progress_def)
  then have "files w' name = Some (concat (map pkt_payload (ps @ [b])))"
    using fwrite_to_frame(4) [OF f] len bs by simp
  moreover have "in_order (ps @ [b])"
    using True assms(1) by (auto simp: progress_def pkt_cmd_def intro: in_order_snoc)
  moreover have "received_at w' (ks @ [k]) (ps @ [b])"
    using assms(1,2,4) recv_at_same_answers [OF handle_packet_frame(1) [OF assms(6)]]
    by (auto simp: progress_def received_at_def sorted_wrt_append intro: list_all2_appendI)
  moreover have "\<forall>k'\<in>set (ks @ [k]). k' < n_recv w'"
    using assms(2,3) handle_packet_frame(3) [OF assms(6)] by auto
  moreover have "int (length (pkt_payload b)) = uint (GETLEN b)"
    using len assms(5) by (simp add: pkt_payload_def)
  ultimately have "progress w' name read' e' (ks @ [k]) (ps @ [b])"
    using assms(1) new bs by (simp add: progress_def seq16_Suc)
  then show ?thesis by blast
qed

lemma handle_packet_stop:
  assumes "handle_packet w origin name filesize read e b = (Stop oc, w')"
  shows "oc \<noteq> Return 0" and "oc = Exit c \<Longrightarrow> files w' name = None"
  using assms by (auto simp: handle_packet_def Let_def split: if_splits prod.splits)

lemma handle_packet_fin:
  "handle_packet w origin name filesize read e b = (Fin_received, w') \<Longrightarrow> read = filesize \<and> w' = w"
  by (auto simp: handle_packet_def Let_def split: if_splits prod.splits)

lemma fin_loop_frame:
  assumes ret: "fin_loop t w b origin = Some r"
  shows "files (snd r) = files w \<and> same_answers w (snd r)"
proof (rule fin_loop.raw_induct [OF _ ret,
      where P = "\<lambda>t w b origin r. files (snd r) = files w \<and> same_answers w (snd r)"])
  fix f t w b origin r
  assume IH: "\<And>t w b origin r. f t w b origin = Some r \<Longrightarrow>
      files (snd r) = files w \<and> same_answers w (snd r)"
    and eq: "(case time_now w of (now, w1) \<Rightarrow>
        if now - t < ACK_TIMEOUT then
          (case send_packet w1 origin (control CMD_FINACK 0) of
             (_, w2) \<Rightarrow>
               (case read_only_from w2 b PACKET_SIZE origin of
                  (r, b', w3) \<Rightarrow>
                    if r \<noteq> 0 \<and> b' ! 0 = CMD_ACK then Some (b', w3)
                    else f t w3 b' origin))
        else Some (b, w1)) = Some r"
  obtain now w1 where t: "time_now w = (now, w1)" by fastforce
  obtain n w2 where s: "send_packet w1 origin (control CMD_FINACK 0) = (n, w2)" by fastforce
  obtain m b1 w3 where r1: "read_only_from w2 b PACKET_SIZE origin = (m, b1, w3)"
    by (cases "read_only_from w2 b PACKET_SIZE origin") auto
  have "files w1 = files w" "files w3 = files w" "same_answers w w1" "same_answers w w3"
    using quiet_time [OF t] send_packet_frame(1,2) [OF s] read_only_from_frame(1) [OF r1]
    by (auto simp: quiet_def same_answers_def)
  with eq t s r1 IH [of t w3 b1 origin r] show "files (snd r) = files w \<and> same_answers w (snd r)"
    by (auto simp: same_answers_def split: if_splits)
qed

text \<open>Nothing but FINACKs is sent after the FIN.\<close>

lemma fin_loop_sent:
  assumes ret: "fin_loop t w b origin = Some r"
  shows "\<exists>k. sent (snd r) = sent w @ replicate k (origin, control CMD_FINACK 0)"
proof (rule fin_loop.raw_induct [OF _ ret,
      where P = "\<lambda>t w b origin r. \<exists>k. sent (snd r) = sent w @ replicate k (origin, control CMD_FINACK 0)"])
  fix f t w b origin r
  assume IH: "\<And>t w b origin r. f t w b origin = Some r \<Longrightarrow>
      \<exists>k. sent (snd r) = sent w @ replicate k (origin, control CMD_FINACK 0)"
    and eq: "(case time_now w of (now, w1) \<Rightarrow>
        if now - t < ACK_TIMEOUT then
          (case send_packet w1 origin (control CMD_FINACK 0) of
             (_, w2) \<Rightarrow>
               (case read_only_from w2 b PACKET_SIZE origin of
                  (r, b', w3) \<Rightarrow>
                    if r \<noteq> 0 \<and> b' ! 0 = CMD_ACK then Some (b', w3)
                    else f t w3 b' origin))
        else Some (b, w1)) = Some r"
  obtain now w1 where t: "time_now w = (now, w1)" by fastforce
  obtain n w2 where s: "send_packet w1 origin (control CMD_FINACK 0) = (n, w2)" by fastforce
  obtain m b1 w3 where r1: "read_only_from w2 b PACKET_SIZE origin = (m, b1, w3)"
    by (cases "read_only_from w2 b PACKET_SIZE origin") auto
  have w1: "sent w1 = sent w" using quiet_time [OF t] by (simp add: quiet_def)
  have "\<exists>j. sent w3 = sent w @ replicate j (origin, control CMD_FINACK 0)"
    using send_packet_sent [OF s] w1 read_only_from_frame(1) [OF r1]
    by (auto simp: quiet_def if_sent_def intro: exI [of _ 0] exI [of _ "Suc 0"])
  then obtain j where j: "sent w3 = sent w @ replicate j (origin, control CMD_FINACK 0)" by blast
  have "\<exists>k. sent (snd r) = sent w3 @ replicate k (origin, control CMD_FINACK 0)" if "f t w3 b1 origin = Some r"
    using IH [OF that] .
  with eq t s r1 j w1 show "\<exists>k. sent (snd r) = sent w @ replicate k (origin, control CMD_FINACK 0)"
    by (auto simp flip: replicate_add split: if_splits intro: exI [of _ 0])
qed

lemma finish_transfer_sent:
  "finish_transfer w b origin = Some (oc, w') \<Longrightarrow> \<exists>k. sent w' = sent w @ replicate k (origin, control CMD_FINACK 0)"
  by (auto simp: finish_transfer_def time_now_def dest!: fin_loop_sent)

lemma finish_transfer_frame:
  "finish_transfer w b origin = Some (oc, w') \<Longrightarrow>
   oc = Return 0 \<and> files w' = files w \<and> same_answers w w'"
  by (auto simp: finish_transfer_def time_now_def same_answers_def dest!: fin_loop_frame)

text \<open>How a transfer ends.\<close>

definition complete_file :: "world \<Rightarrow> byte list \<Rightarrow> int \<Rightarrow> nat list \<Rightarrow> buffer list \<Rightarrow> bool" where
  "complete_file w name filesize ks ps \<longleftrightarrow>
     in_order ps \<and> received_at w ks ps \<and>
     files w name = Some (concat (map pkt_payload ps)) \<and>
     int (length (concat (map pkt_payload ps))) = filesize"

definition receive_post :: "world \<Rightarrow> byte list \<Rightarrow> int \<Rightarrow> int outcome \<times> world \<Rightarrow> bool" where
  "receive_post w name filesize r \<longleftrightarrow>
     (case r of (oc, w') \<Rightarrow>
        others_kept name w w' \<and>
        (oc = Return 0 \<longrightarrow> (\<exists>ks ps. complete_file w' name filesize ks ps)) \<and>
        (\<forall>c. oc = Exit c \<longrightarrow> files w' name = None))"

lemma complete_file_of_progress:
  assumes "progress w name read e ks ps" and "same_answers w w'" and "files w' = files w"
  shows "complete_file w' name read ks ps"
  using assms recv_at_same_answers [OF assms(2)]
  by (simp add: progress_def complete_file_def received_at_def)

lemma receive_post_earlier:
  "receive_post w2 name filesize r \<Longrightarrow> others_kept name w w2 \<Longrightarrow> receive_post w name filesize r"
  by (auto simp: receive_post_def split: prod.splits intro: others_kept_trans)

text \<open>
  The body of the loop, for any function \<open>f\<close> in the place of the rest of the loop that keeps the
  promise: the induction step for \<open>receive_loop\<close>.
\<close>

lemma receive_body_post:
  assumes body: "Option.bind (read_until_timeout w b origin) (\<lambda>(actual, b', w1).
       if actual = -1 then Some (Exit TIMEOUT, unlink_file w1 name)
       else (case handle_packet w1 origin name filesize read e b' of
               (act, w2) \<Rightarrow>
                 (case act of
                    Again read' e' \<Rightarrow> f w2 b' read' e'
                  | Fin_received \<Rightarrow> finish_transfer w2 b' origin
                  | Stop oc \<Rightarrow> Some (oc, w2)))) = Some r"
    and pr: "progress w name read e ks ps" and len: "length b = PACKET_SIZE"
    and IH: "\<And>w b read e ks ps. f w b read e = Some r \<Longrightarrow> progress w name read e ks ps \<Longrightarrow>
      length b = PACKET_SIZE \<Longrightarrow> receive_post w name filesize r"
  shows "receive_post w name filesize r"
proof -
  obtain n b' w1 where rd: "read_until_timeout w b origin = Some (n, b', w1)"
    using body by (cases "read_until_timeout w b origin") auto
  note post = read_until_timeout_post [OF rd len, unfolded poll_post_def, simplified]
  have kept1: "others_kept name w w1" using post by (simp add: quiet_def others_kept_def)
  show ?thesis
  proof (cases "n = -1")
    case True
    with body rd have "r = (Exit TIMEOUT, unlink_file w1 name)" by simp
    with kept1 show ?thesis
      by (simp add: receive_post_def others_kept_def unlink_file_def)
  next
    case False
    with post have k: "n_recv w \<le> n_recv w1 - 1" "n_recv w1 - 1 < n_recv w1"
      "recv_at w1 (n_recv w1 - 1) b'" by (auto simp: recv_at_quiet)
    have pr1: "progress w1 name read e ks ps"
      using pr post by (auto simp: quiet_def intro: progress_move)
    have older: "\<forall>k'\<in>set ks. k' < n_recv w1 - 1" using pr k(1) by (auto simp: progress_def)
    obtain act w2 where h: "handle_packet w1 origin name filesize read e b' = (act, w2)" by fastforce
    have kept2: "others_kept name w w2"
      using kept1 handle_packet_frame(2) [OF h] by (rule others_kept_trans)
    show ?thesis
    proof (cases act)
      case (Again read' e')
      with h have h': "handle_packet w1 origin name filesize read e b' = (Again read' e', w2)" by simp
      obtain ks' ps' where pr2: "progress w2 name read' e' ks' ps'"
        using handle_packet_progress [OF pr1 older k(2,3) _ h'] post by auto
      have "f w2 b' read' e' = Some r"
        using body rd False h Again by simp
      then have "receive_post w2 name filesize r"
        using pr2 by (rule IH) (simp add: post)
      then show ?thesis using kept2 by (rule receive_post_earlier)
    next
      case Fin_received
      with h have fin: "read = filesize" "w2 = w1" using handle_packet_fin by auto
      obtain oc w3 where r: "r = (oc, w3)" by fastforce
      with body rd False h Fin_received fin have "finish_transfer w1 b' origin = Some (oc, w3)" by simp
      note ft = finish_transfer_frame [OF this]
      have "complete_file w3 name filesize ks ps"
        using complete_file_of_progress [OF pr1] ft fin by simp
      with r ft kept1 show ?thesis by (auto simp: receive_post_def others_kept_def)
    next
      case (Stop oc)
      with body rd False h have "r = (oc, w2)" by simp
      with handle_packet_stop [of w1 origin name filesize read e b' oc w2] h Stop kept2
      show ?thesis by (auto simp: receive_post_def)
    qed
  qed
qed

lemma receive_loop_post:
  assumes ret: "receive_loop w b origin name filesize read e = Some r"
    and "progress w name read e ks ps" and "length b = PACKET_SIZE"
  shows "receive_post w name filesize r"
proof -
  let ?P = "\<lambda>w b origin name filesize read e r.
      \<forall>ks ps. progress w name read e ks ps \<longrightarrow> length b = PACKET_SIZE \<longrightarrow>
      receive_post w name filesize r"
  have "?P w b origin name filesize read e r"
    by (rule receive_loop.raw_induct [where P = ?P, OF _ ret], intro allI impI,
        erule receive_body_post, assumption, assumption) blast
  with assms(2,3) show ?thesis by blast
qed

section \<open>Reactions to single packets\<close>

text \<open>Three laws for a packet \<open>p\<close> that arrived in a receive buffer: in order, out of order, and FIN.\<close>

lemma handle_in_order:
  assumes p: "wf_packet p" "length p \<le> PACKET_SIZE" "pkt_cmd p = CMD_DATA" "get_seq_num p = e"
    and disk: "unat (GETLEN p) \<le> w_fwrite w (n_fwrite w)"
    and junk: "length junk = PACKET_SIZE"
    and fit: "read + int (length (pkt_payload p)) \<le> filesize" and c: "files w name = Some c"
  obtains w' where "handle_packet w origin name filesize read e (put_at junk 0 p) =
      (Again (read + int (length (pkt_payload p))) (e + 1), w')"
    and "files w' name = Some (c @ pkt_payload p)" and "same_answers w w'"
    and "newly_sent w w' = if_sent w (control CMD_ACK (e + 1))"
    and "sent w' = sent w @ map (Pair origin) (if_sent w (control CMD_ACK (e + 1)))"
proof -
  note rp = received_packet [OF p(1), of junk]
  let ?b = "put_at junk 0 p"
  have b0: "?b ! 0 = CMD_DATA" using rp(1) p junk by (simp add: pkt_cmd_def)
  have len: "length (pkt_payload p) = unat (GETLEN p)" and small: "unat (GETLEN p) \<le> PAYLOAD_SIZE"
    using p(1,2) by (auto simp: pkt_payload_def wf_packet_def)
  have pay: "take (unat (GETLEN ?b)) (drop HEADER_SIZE ?b) = pkt_payload p"
    using rp(4) p junk by (simp add: pkt_payload_def [of ?b])
  obtain r w1 where s: "send_packet w origin (control CMD_ACK (e + 1)) = (r, w1)" by fastforce
  obtain n w2 where f: "fwrite_to w1 name (pkt_payload p) = (n, w2)" by fastforce
  have w1: "files w1 = files w" "w_fwrite w1 = w_fwrite w" "n_fwrite w1 = n_fwrite w"
    using send_packet_frame [OF s] by (auto simp: same_answers_def)
  have n: "n = length (pkt_payload p)"
    using f disk w1 len by (auto simp: fwrite_to_def Let_def)
  have "handle_packet w origin name filesize read e ?b =
      (Again (read + int (length (pkt_payload p))) (e + 1), w2)"
    using b0 p junk rp pay s f n len small fit by (simp add: handle_packet_def Let_def)
  moreover have "files w2 name = Some (c @ pkt_payload p)"
    using fwrite_to_frame(4) [OF f n] w1 c by simp
  moreover have "same_answers w w2"
    using send_packet_frame(1) [OF s] fwrite_to_frame(1) [OF f] by (rule same_answers_trans)
  moreover have eq: "sent w2 = sent w1"
    using f by (auto simp: fwrite_to_def Let_def split: option.splits)
  then have "newly_sent w w2 = if_sent w (control CMD_ACK (e + 1))"
    by (intro send_packet_newly [OF s]) simp_all
  moreover have "sent w2 = sent w @ map (Pair origin) (if_sent w (control CMD_ACK (e + 1)))"
    using send_packet_sent [OF s] eq by simp
  ultimately show thesis using that by blast
qed

lemma handle_out_of_order:
  assumes p: "wf_packet p" "length p \<le> PACKET_SIZE" "pkt_cmd p = CMD_DATA" "get_seq_num p \<noteq> e"
    and junk: "length junk = PACKET_SIZE"
  obtains w' where "handle_packet w origin name filesize read e (put_at junk 0 p) = (Again read e, w')"
    and "files w' = files w" and "same_answers w w'"
    and "newly_sent w w' = if_sent w (control CMD_ACK e)"
proof -
  note rp = received_packet [OF p(1), of junk]
  obtain r w1 where s: "send_packet w origin (control CMD_ACK e) = (r, w1)" by fastforce
  have "handle_packet w origin name filesize read e (put_at junk 0 p) = (Again read e, w1)"
    using rp p junk s by (simp add: handle_packet_def pkt_cmd_def)
  moreover have "newly_sent w w1 = if_sent w (control CMD_ACK e)"
    by (intro send_packet_newly [OF s]) simp_all
  ultimately show thesis using send_packet_frame(1,2) [OF s] that by blast
qed

lemma handle_fin:
  assumes "length junk = PACKET_SIZE" and "read = filesize"
  shows "handle_packet w origin name filesize read e (put_at junk 0 (control CMD_FIN s)) =
         (Fin_received, w)"
proof -
  have "pkt_cmd (put_at junk 0 (control CMD_FIN s)) = CMD_FIN"
    using received_packet(1) [OF control_fields(4), of CMD_FIN s junk] assms(1) by simp
  then show ?thesis using assms(2) unfolding pkt_cmd_def by (simp add: handle_packet_def)
qed

section \<open>From the request to the end of the transfer\<close>

lemma ack_request_frame:
  assumes ret: "ack_request st w origin p name = Some r"
  shows "same_answers w (snd r) \<and> others_kept name w (snd r) \<and>
         (fst r = Return () \<and> files (snd r) = files w \<or>
          fst r = Exit RUNTIME_ERROR \<and> files (snd r) name = None)"
proof (rule ack_request.raw_induct [OF _ ret,
      where P = "\<lambda>st w origin p name r. same_answers w (snd r) \<and> others_kept name w (snd r) \<and>
         (fst r = Return () \<and> files (snd r) = files w \<or>
          fst r = Exit RUNTIME_ERROR \<and> files (snd r) name = None)"])
  fix f st w origin p name r
  assume IH: "\<And>st w origin p name r. f st w origin p name = Some r \<Longrightarrow>
      same_answers w (snd r) \<and> others_kept name w (snd r) \<and>
         (fst r = Return () \<and> files (snd r) = files w \<or>
          fst r = Exit RUNTIME_ERROR \<and> files (snd r) name = None)"
    and eq: "(case send_packet w origin p of
        (r, w1) \<Rightarrow>
          if r \<noteq> 0 then Some (Exit RUNTIME_ERROR, unlink_file w1 name)
          else if errno w1 = EAGAIN \<or> errno w1 = EWOULDBLOCK then
            (case time_now w1 of
               (now, w2) \<Rightarrow>
                 if now - st < 6 then f st w2 origin p name
                 else Some (Return (), w2))
          else Some (Return (), w1)) = Some r"
  obtain n w1 where s: "send_packet w origin p = (n, w1)" by fastforce
  obtain now w2 where t: "time_now w1 = (now, w2)" by fastforce
  have fr: "same_answers w w1" "files w1 = files w" "same_answers w w2" "files w2 = files w"
    using send_packet_frame [OF s] quiet_time [OF t] by (auto simp: quiet_def same_answers_def)
  show "same_answers w (snd r) \<and> others_kept name w (snd r) \<and>
         (fst r = Return () \<and> files (snd r) = files w \<or>
          fst r = Exit RUNTIME_ERROR \<and> files (snd r) name = None)"
    using eq s t fr IH [of st w2 origin p name r]
    by (auto simp: others_kept_def same_answers_def unlink_file_def split: if_splits)
qed

lemma deny_frame:
  assumes "deny w origin cmd code = (oc, w')"
  shows "files w' = files w" and "oc = Return code \<or> oc = Exit RUNTIME_ERROR"
  using assms by (auto simp: deny_def dest: send_packet_frame(2) split: prod.splits if_splits)

lemma progress_start:
  "files w name = Some [] \<Longrightarrow> progress w name 0 1 [] []"
  by (simp add: progress_def in_order_def received_at_def seq16_def)

lemma serve_file_post:
  assumes ret: "serve_file w b origin name filesize = Some r"
    and new: "files w name = None" and len: "length b = PACKET_SIZE"
  shows "receive_post w name filesize r"
proof (cases "fopen_w w name")
  case (Pair ok w1)
  show ?thesis
  proof (cases ok)
    case False
    with ret Pair have "deny w1 origin CMD_EXISTS CANNOT_CREATE = r" by (simp add: serve_file_def)
    moreover have "files w1 = files w"
      using Pair False by (auto simp: fopen_w_def split: option.splits)
    ultimately show ?thesis
      using new deny_frame [of w1 origin CMD_EXISTS CANNOT_CREATE]
      by (cases r) (auto simp: receive_post_def others_kept_def)
  next
    case True
    have w1: "files w1 = (files w)(name \<mapsto> [])"
      using Pair True by (auto simp: fopen_w_def split: option.splits)
    obtain st w2 where t: "time_now w1 = (st, w2)" by fastforce
    then have w2: "files w2 = files w1" by (auto simp: time_now_def)
    obtain oc w3 where a: "ack_request st w2 origin (control CMD_ACK 1) name = Some (oc, w3)"
      using ret Pair True t
      by (cases "ack_request st w2 origin (control CMD_ACK 1) name") (auto simp: serve_file_def)
    note fr = ack_request_frame [OF a, simplified]
    have kept: "others_kept name w w3" using fr w1 w2 by (simp add: others_kept_def)
    show ?thesis
    proof (cases "oc = Return ()")
      case True': True
      with fr have "files w3 name = Some []" using w1 w2 by auto
      moreover have "receive_loop w3 b origin name filesize 0 1 = Some r"
        using ret Pair True t a True' by (simp add: serve_file_def)
      ultimately have "receive_post w3 name filesize r"
        using receive_loop_post progress_start len by blast
      then show ?thesis using kept by (rule receive_post_earlier)
    next
      case False
      with fr have "oc = Exit RUNTIME_ERROR" "files w3 name = None" by auto
      with ret Pair True t a have "r = (Exit RUNTIME_ERROR, w3)" by (simp add: serve_file_def)
      with kept \<open>files w3 name = None\<close> show ?thesis by (simp add: receive_post_def)
    qed
  qed
qed

text \<open>The name and size a request asks for, if it is well formed.\<close>

definition request_target :: "buffer \<Rightarrow> (byte list \<times> int) option" where
  "request_target b =
     (let payload = drop HEADER_SIZE b in
      case strchr payload 124 of
        None \<Rightarrow> None
      | Some separator \<Rightarrow>
          let payload' = payload[separator := 0];
              (conversions, filesize) = sscanf_ld_c (cstr (drop (Suc separator) payload')) (-1)
          in if conversions \<noteq> 1 \<or> filesize < 0 then None
             else Some (request_name payload' (strrchr payload 47), filesize))"

text \<open>A block with one byte to spare holds the copy of the name.\<close>

lemma name_copied_le: "name_copied payload i \<le> Suc (name_block payload i)"
  by (cases "i < length payload") (simp_all add: name_copied_def name_block_def cstr_def Cons_nth_drop_Suc [symmetric])

lemma no_overrun:
  assumes "\<And>n. n < w_usable w n"
  shows "\<not> name_overrun w payload slash"
proof (cases slash)
  case (Some i)
  have "name_copied payload i \<le> w_usable w (name_block payload i)"
    using name_copied_le [of payload i] assms [of "name_block payload i"] by linarith
  with Some show ?thesis by (simp add: name_overrun_def)
qed (simp add: name_overrun_def)

lemma deny_refused:
  assumes "deny w origin cmd code = r" and "code \<noteq> 0"
  shows "files (snd r) = files w" and "fst r \<noteq> Return 0"
  using assms deny_frame [of w origin cmd code "fst r" "snd r"] by auto

lemma serve_request_cases:
  assumes ret: "serve_request w b origin (strrchr (drop HEADER_SIZE b) 47) sep = Some r"
    and sep: "strchr (drop HEADER_SIZE b) 124 = Some sep" and len: "length b = PACKET_SIZE"
  shows "files (snd r) = files w \<and> fst r \<noteq> Return 0 \<or>
         (\<exists>name filesize. request_target b = Some (name, filesize) \<and> files w name = None \<and>
            receive_post w name filesize r)"
proof -
  let ?p = "(drop HEADER_SIZE b)[sep := 0]"
  let ?name = "request_name ?p (strrchr (drop HEADER_SIZE b) 47)"
  obtain cv fs where sc: "sscanf_ld_c (cstr (drop (Suc sep) ?p)) (-1) = (cv, fs)" by fastforce
  let ?over = "name_overrun w ?p (strrchr (drop HEADER_SIZE b) 47)"
  consider (over) ?over | (exists) "\<not> ?over" "files w ?name \<noteq> None"
    | (size) "\<not> ?over" "files w ?name = None" "cv \<noteq> 1 \<or> fs < 0"
    | (ok) "\<not> ?over" "files w ?name = None" "\<not> (cv \<noteq> 1 \<or> fs < 0)" by blast
  then show ?thesis
  proof cases
    case over
    with ret show ?thesis by (auto simp: serve_request_def Let_def)
  next
    case exists
    with ret have "deny w origin CMD_EXISTS FILE_EXISTS = r"
      by (simp add: serve_request_def Let_def access_file_def)
    then show ?thesis using deny_refused [of w origin CMD_EXISTS FILE_EXISTS r] by simp
  next
    case size
    with sc ret have "r = (Return BAD_REQUEST, w\<lparr>errno := ENOENT\<rparr>)"
      by (auto simp: serve_request_def Let_def access_file_def)
    then show ?thesis by simp
  next
    case ok
    let ?w1 = "w\<lparr>errno := ENOENT\<rparr>"
    from ok sc ret have "serve_file ?w1 (put_at b HEADER_SIZE ?p) origin ?name fs = Some r"
      by (auto simp: serve_request_def Let_def access_file_def)
    then have "receive_post ?w1 ?name fs r"
      by (rule serve_file_post) (simp_all add: ok [simplified] len [simplified])
    then have "receive_post w ?name fs r"
      by (rule receive_post_earlier) (simp add: others_kept_def)
    moreover have "request_target b = Some (?name, fs)"
      using sep sc ok by (simp add: request_target_def Let_def)
    ultimately show ?thesis using ok by blast
  qed
qed

lemma copy_file_server_cases:
  assumes ret: "copy_file_server w b origin = Some r" and len: "length b = PACKET_SIZE"
  obtains (refused) "files (snd r) = files w" "fst r \<noteq> Return 0"
  | (served) name filesize where "request_target b = Some (name, filesize)"
      "files w name = None" "receive_post w name filesize r"
proof -
  let ?payload = "drop HEADER_SIZE b"
  consider (early) "r = (Return RUNTIME_ERROR, w) \<or> r = (Fault, w)"
    | (denied) "deny w origin CMD_BADREQ BAD_REQUEST = r"
    | (parsed) sep where "strchr ?payload 124 = Some sep"
        "serve_request w b origin (strrchr ?payload 47) sep = Some r"
    using ret
    by (cases "strchr ?payload 124") (auto simp: copy_file_server_def Let_def split: if_splits)
  then show thesis
  proof cases
    case early
    then show thesis by (intro refused) auto
  next
    case denied
    then show thesis using deny_refused [of w origin CMD_BADREQ BAD_REQUEST r] refused by simp
  next
    case parsed
    then show thesis
      using serve_request_cases [OF parsed(2,1) len] refused served by blast
  qed
qed

section \<open>Ends of the loops\<close>

lemma fin_loop_returns:
  "n_time w \<le> k \<Longrightarrow> ACK_TIMEOUT \<le> w_time w k - t \<Longrightarrow> \<exists>r. fin_loop t w b origin = Some r"
proof (induction "k - n_time w" arbitrary: w b)
  case 0
  then have "k = n_time w" by simp
  with 0 show ?case by (subst fin_loop.simps) (simp add: time_now_def)
next
  case (Suc d)
  let ?w1 = "snd (time_now w)"
  obtain n w2 where s: "send_packet ?w1 origin (control CMD_FINACK 0) = (n, w2)" by fastforce
  obtain m b1 w3 where r: "read_only_from w2 b PACKET_SIZE origin = (m, b1, w3)"
    by (cases "read_only_from w2 b PACKET_SIZE origin") auto
  have "n_time w3 = Suc (n_time w)" and "w_time w3 = w_time w"
    using send_packet_frame [OF s] read_only_from_frame [OF r]
    by (auto simp: time_now_def quiet_def same_answers_def)
  with Suc have "\<exists>r. fin_loop t w3 b1 origin = Some r" by simp
  with s r show ?case by (subst fin_loop.simps) (auto simp: time_now_def)
qed

text \<open>With no datagram to come, polling ends with -1.\<close>

definition silent :: "world \<Rightarrow> bool" where
  "silent w \<longleftrightarrow> (\<forall>k\<ge>n_recv w. \<exists>e. w_recv w k = Rx_error e)"

lemma silent_read_until_timeout:
  assumes "silent w" and "length b = PACKET_SIZE"
    and "n_time w < k" and "6 \<le> w_time w k - w_time w (n_time w)"
  obtains b' w' where "read_until_timeout w b a = Some (-1, b', w')" and "quiet w w'"
proof -
  obtain r where r: "read_until_timeout w b a = Some r"
    using assms(3,4) read_poll_returns [of "snd (time_now w)" k "w_time w (n_time w)" b a]
    by (auto simp: read_until_timeout_def time_now_def)
  obtain n b' w' where [simp]: "r = (n, b', w')" by (cases r)
  have post: "poll_post (w_time w (n_time w)) w (n, b', w')"
    using read_until_timeout_post [OF r assms(2)] by simp
  have "\<not> (n_recv w < n_recv w' \<and> recv_at w (n_recv w' - 1) b')"
  proof
    assume *: "n_recv w < n_recv w' \<and> recv_at w (n_recv w' - 1) b'"
    then have "n_recv w \<le> n_recv w' - 1" by linarith
    then obtain e where "w_recv w (n_recv w' - 1) = Rx_error e"
      using assms(1) by (auto simp: silent_def)
    with * show False by (auto simp: recv_at_def)
  qed
  with post have "n = -1" and "quiet w w'" by (auto simp: poll_post_def)
  with r that show thesis by simp
qed

lemma receive_loop_silent:
  assumes "silent w" and "length buffer = PACKET_SIZE"
    and "n_time w < k" and "6 \<le> w_time w k - w_time w (n_time w)"
  shows "\<exists>w'. receive_loop w buffer origin filename filesize read e = Some (Exit TIMEOUT, w') \<and>
              files w' = (files w)(filename := None)"
proof -
  obtain b' w' where "read_until_timeout w buffer origin = Some (-1, b', w')" "quiet w w'"
    using silent_read_until_timeout [OF assms] by metis
  then show ?thesis
    by (subst receive_loop.simps) (simp add: unlink_file_def quiet_def)
qed

section \<open>A request that is served\<close>

text \<open>After \<^verbatim>\<open>access\<close> has failed, \<^verbatim>\<open>errno\<close> does not ask for another acknowledgement.\<close>

lemma ack_request_once:
  assumes "errno w = ENOENT" and "w_send w (n_send w) = Tx_ok" and "wf_packet p"
  shows "ack_request st w origin p name =
         Some (Return (), w\<lparr>n_send := Suc (n_send w), sent := sent w @ [(origin, p)]\<rparr>)"
  using assms
  by (subst ack_request.simps) (simp add: world_simps ENOENT_def EAGAIN_def EWOULDBLOCK_def)

lemma copy_file_server_request:
  assumes "fst (setup_socket w 0) = 0" and "\<not> request_refused buffer"
    and "terminated (drop HEADER_SIZE buffer)" and "strchr (drop HEADER_SIZE buffer) 124 = Some sep"
    and "request_target buffer = Some (name, filesize)" and "files w name = None"
    and "\<not> name_overrun w ((drop HEADER_SIZE buffer)[sep := 0]) (strrchr (drop HEADER_SIZE buffer) 47)"
  shows "copy_file_server w buffer origin =
         serve_file (w\<lparr>errno := ENOENT\<rparr>)
           (put_at buffer HEADER_SIZE ((drop HEADER_SIZE buffer)[sep := 0])) origin name filesize"
  using assms
  by (auto simp: copy_file_server_def serve_request_def request_target_def
      access_file_def Let_def split: prod.splits if_splits)

section \<open>Properties\<close>

text \<open>
  C11: when serving a request ends with status 0, the request named a file that did not exist
  before, and that file now has exactly the announced size and is the concatenation of the
  payloads of data packets that were received in this order and carry the consecutive sequence
  numbers 1, 2, 3 and so on modulo \<open>2 ^ 16\<close>.
\<close>

theorem server_success_complete:
  assumes "copy_file_server w buffer origin = Some (Return 0, w')"
    and "length buffer = PACKET_SIZE"
  shows "\<exists>name filesize ks ps. request_target buffer = Some (name, filesize) \<and>
           files w name = None \<and> complete_file w' name filesize ks ps"
  using assms
proof (cases rule: copy_file_server_cases)
  case (served name filesize)
  then show ?thesis by (auto simp: receive_post_def)
qed simp

text \<open>
  C12: whatever a request holds and however serving it ends, a file that existed before has its
  old content afterwards, and at most the requested name is added to the directory.
\<close>

theorem server_keeps_existing_files:
  assumes "copy_file_server w buffer origin = Some (oc, w')"
    and "length buffer = PACKET_SIZE"
  shows "(\<forall>m c. files w m = Some c \<longrightarrow> files w' m = Some c) \<and>
         dom (files w') \<subseteq> dom (files w) \<union> fst ` set_option (request_target buffer)"
  using assms
proof (cases rule: copy_file_server_cases)
  case refused
  then show ?thesis by auto
next
  case (served name filesize)
  then have kept: "m \<noteq> name \<Longrightarrow> files w' m = files w m" for m
    by (simp add: receive_post_def others_kept_def)
  have "files w' m = Some c" if "files w m = Some c" for m c
    using that kept served(2) by (cases "m = name") simp_all
  moreover have "dom (files w') \<subseteq> insert name (dom (files w))"
    using kept by fastforce
  ultimately show ?thesis using served(1) by auto
qed

text \<open>
  C13: when the process ends through one of its exits after it created the file (time-out, excess
  data, a FIN before the announced size, a failed acknowledgement), no file of that name remains.
\<close>

theorem server_exit_discards_file:
  assumes "copy_file_server w buffer origin = Some (Exit c, w')"
    and "length buffer = PACKET_SIZE"
  shows "files w' = files w \<or>
         (\<exists>name filesize. request_target buffer = Some (name, filesize) \<and> files w' name = None)"
  using assms
proof (cases rule: copy_file_server_cases)
  case (served name filesize)
  then show ?thesis by (auto simp: receive_post_def)
qed simp

text \<open>
  C28: a transfer in progress whose client falls silent ends: the loop returns, the process exits
  with the time-out code and the partial file is gone.
\<close>

theorem server_timeout_discards:
  assumes "silent w" and "length buffer = PACKET_SIZE"
    and "n_time w < k" and "6 \<le> w_time w k - w_time w (n_time w)"
  shows "\<exists>w'. receive_loop w buffer origin filename filesize read e = Some (Exit TIMEOUT, w') \<and>
              files w' = (files w)(filename := None)"
  using assms by (rule receive_loop_silent)

theorem server_timeout_discards_witness:
  "\<exists>w'. receive_loop (calm_world (\<lambda>_. Rx_error EAGAIN)\<lparr>files := [[97] \<mapsto> [1, 2]]\<rparr>) (replicate PACKET_SIZE 0)
       \<lparr>sin_addr = 1, sin_port = 2\<rparr> [97] 9 2 2 = Some (Exit TIMEOUT, w') \<and>
     files w' = (files (calm_world (\<lambda>_. Rx_error EAGAIN)\<lparr>files := [[97] \<mapsto> [1, 2]]\<rparr>))([97] := None)"
  by (rule server_timeout_discards [where k = 6]) (simp_all add: silent_def)

text \<open>
  The command byte of a request numbered 0 is not looked at. A packet with sequence number 0
  and any command, whose payload is a terminated string with a new name and a valid size, is
  served as a write request.
\<close>

theorem server_serves_any_command:
  assumes "fst (setup_socket w 0) = 0" and "get_seq_num buffer = 0"
    and "terminated (drop HEADER_SIZE buffer)" and "strchr (drop HEADER_SIZE buffer) 124 = Some sep"
    and "request_target buffer = Some (name, filesize)" and "files w name = None"
    and "\<not> name_overrun w ((drop HEADER_SIZE buffer)[sep := 0]) (strrchr (drop HEADER_SIZE buffer) 47)"
  shows "copy_file_server w buffer origin =
         serve_file (w\<lparr>errno := ENOENT\<rparr>)
           (put_at buffer HEADER_SIZE ((drop HEADER_SIZE buffer)[sep := 0])) origin name filesize"
  using assms by (intro copy_file_server_request) (simp_all add: request_refused_def)

text \<open>
  The acknowledgement of a request is sent exactly once when sending works: the loop that is
  meant to repeat it looks at an \<^verbatim>\<open>errno\<close> left behind by \<^verbatim>\<open>access\<close>, and stops after its first round
  whether or not the client answered.
\<close>

theorem request_acknowledged_once:
  assumes "access_file w name = (-1, w1)" and "fopen_w w1 name = (True, w2)"
    and "w_send w (n_send w) = Tx_ok"
  shows "\<exists>w3. ack_request startTime w2 origin (control CMD_ACK 1) name = Some (Return (), w3) \<and>
           sent w3 = sent w @ [(origin, control CMD_ACK 1)]"
proof -
  have "errno w2 = ENOENT" "w_send w2 (n_send w2) = Tx_ok" "sent w2 = sent w"
    using assms by (auto simp: access_file_def fopen_w_def split: if_splits option.splits)
  then show ?thesis using ack_request_once [of w2 "control CMD_ACK 1"] by simp
qed

theorem request_acknowledged_once_witness:
  "\<exists>w3. ack_request 0
       (calm_world (\<lambda>_. Rx_error EAGAIN)\<lparr>errno := ENOENT, files := [[97] \<mapsto> []]\<rparr>)
       \<lparr>sin_addr = 1, sin_port = 2\<rparr> (control CMD_ACK 1) [97] = Some (Return (), w3) \<and>
     sent w3 = sent (calm_world (\<lambda>_. Rx_error EAGAIN)) @ [(\<lparr>sin_addr = 1, sin_port = 2\<rparr>, control CMD_ACK 1)]"
  by (rule request_acknowledged_once [where ?w1.0 = "calm_world (\<lambda>_. Rx_error EAGAIN)\<lparr>errno := ENOENT\<rparr>"])
    (simp_all add: access_file_def fopen_w_def)

text \<open>
  A name with a leading directory is copied to a block one byte too small: \<^verbatim>\<open>strncpy\<close> is
  given one more than the size of the block \<^verbatim>\<open>malloc\<close> returned, and pads its copy with zero
  bytes up to that count.
\<close>

theorem stripped_name_overruns_block:
  assumes "strrchr payload 47 = Some slash"
  shows "name_copied payload slash = name_block payload slash + 1"
proof -
  have "47 \<in> set (cstr payload)" using assms by (auto simp: strrchr_def split: if_splits)
  then obtain xs ys where split: "cstr payload = xs @ 47 # ys" "47 \<notin> set ys"
    by (metis split_list_last)
  then have "slash = length xs" using assms strrchr_last [OF split] by simp
  moreover obtain zs where "payload = xs @ 47 # zs"
    using split(1) takeWhile_dropWhile_id [of "\<lambda>b. b \<noteq> 0" payload]
    unfolding cstr_def by (metis append.assoc append_Cons)
  ultimately have "drop slash payload = 47 # drop (Suc slash) payload" by simp
  then show ?thesis by (simp add: name_copied_def name_block_def cstr_def)
qed

theorem stripped_name_overruns_block_witness:
  "name_copied [101, 47, 112, 0, 0] 1 = name_block [101, 47, 112, 0, 0] 1 + 1"
  by (rule stripped_name_overruns_block) (simp add: strrchr_def cstr_def)

end
