(* ===== verification/Ft_Client.thy ===== *)
theory Ft_Client
  imports Ft_Common
begin

text \<open>
  \<^verbatim>\<open>ftpclient/ftpclient.c\<close>: the write request, the sliding window that sends the file, and the
  closing handshake. The window is the linked list of \<^verbatim>\<open>list.h\<close>; its nodes hold the packets.
\<close>

section \<open>Exit codes\<close>

definition CLIENT_BAD_ARGS :: int where [simp]: "CLIENT_BAD_ARGS = 1"
definition CLIENT_BAD_PORT :: int where [simp]: "CLIENT_BAD_PORT = 2"
definition CLIENT_RUNTIME_ERROR :: int where [simp]: "CLIENT_RUNTIME_ERROR = 3"
definition CLIENT_BAD_REQUEST :: int where [simp]: "CLIENT_BAD_REQUEST = 4"
definition CLIENT_FILE_EXISTS :: int where [simp]: "CLIENT_FILE_EXISTS = 5"
definition CLIENT_BAD_FILE :: int where [simp]: "CLIENT_BAD_FILE = 6"
definition CLIENT_TIMEOUT :: int where [simp]: "CLIENT_TIMEOUT = 8"

section \<open>The write request\<close>

text \<open>The size of the file; \<open>garbage\<close> is the uninitialised field when \<^verbatim>\<open>stat\<close> fails.\<close>

definition get_file_size :: "world \<Rightarrow> int \<Rightarrow> byte list \<Rightarrow> int" where
  "get_file_size w garbage filename =
     (case files w filename of None \<Rightarrow> garbage | Some c \<Rightarrow> int (length c))"

text \<open>The text \<^verbatim>\<open>sprintf(payload, "%s|%ld", filename, size)\<close> writes, without its final zero.\<close>

definition request_text :: "byte list \<Rightarrow> int \<Rightarrow> byte list" where
  "request_text filename fsize = cstr filename @ 124 # print_ld fsize"

text \<open>The request in the payload of the buffer, and the packet built from it.\<close>

definition request_buffer :: "buffer \<Rightarrow> byte list \<Rightarrow> int \<Rightarrow> buffer" where
  "request_buffer buffer filename fsize =
     put_at buffer HEADER_SIZE (request_text filename fsize @ [0])"

definition request_packet :: "buffer \<Rightarrow> buffer" where
  "request_packet buffer =
     (let payload = drop HEADER_SIZE buffer in
      create_packet (\<lambda>_. 0) CMD_WRQ 0 (word_of_nat (length (cstr payload))) (Some payload))"

partial_function (option) request_loop ::
  "int \<Rightarrow> world \<Rightarrow> sockaddr_in \<Rightarrow> buffer \<Rightarrow> buffer \<Rightarrow> ((int \<times> buffer \<times> sockaddr_in) outcome \<times> world) option"
where
  "request_loop startTime w target request buffer =
     (case send_packet w target request of
        (r, w1) \<Rightarrow>
          if r \<noteq> 0 then Some (Exit CLIENT_RUNTIME_ERROR, w1)
          else
            (case recvfrom w1 PACKET_SIZE of
               (size_read, bs, src, w2) \<Rightarrow>
                 (if size_read < 0 then
                    (case time_now w2 of
                       (now, w3) \<Rightarrow>
                         if now - startTime < 6
                         then request_loop startTime w3 target request buffer
                         else Some (Return (size_read, buffer, target), w3))
                  else Some (Return (size_read, put_at buffer 0 bs,
                                     case src of None \<Rightarrow> target | Some a \<Rightarrow> a), w2))))"

text \<open>
  The answer to the request: ACK accepts, EXISTS and BADREQ end the client, and any other command
  falls through the chain of tests and is taken as an acceptance. The result is the exit code, if any.
\<close>

definition request_answer :: "buffer \<Rightarrow> int option" where
  "request_answer buffer =
     (if buffer ! 0 = CMD_ACK then None
      else if buffer ! 0 = CMD_EXISTS then Some CLIENT_FILE_EXISTS
      else if buffer ! 0 = CMD_BADREQ then Some CLIENT_BAD_REQUEST
      else None)"

definition complete_request ::
  "world \<Rightarrow> buffer \<Rightarrow> int \<Rightarrow> byte list \<Rightarrow> sockaddr_in \<Rightarrow> ((buffer \<times> sockaddr_in) outcome \<times> world) option"
where
  "complete_request w buffer fsize filename target =
     (case time_now w of
        (startTime, w1) \<Rightarrow>
          if length (request_text filename fsize) \<ge> PAYLOAD_SIZE then Some (Fault, w1)
          else
            let buffer1 = request_buffer buffer filename fsize;
                request = request_packet buffer1
            in Option.bind (request_loop startTime w1 target request buffer1) (\<lambda>(oc, w2).
                 (case oc of
                    Return (size_read, buffer2, target2) \<Rightarrow>
                      if size_read < 1 then Some (Exit CLIENT_TIMEOUT, w2)
                      else Some (case request_answer buffer2 of
                                   None \<Rightarrow> Return (buffer2, target2)
                                 | Some c \<Rightarrow> Exit c, w2)
                  | Exit c \<Rightarrow> Some (Exit c, w2)
                  | Fault \<Rightarrow> Some (Fault, w2))))"

section \<open>The window\<close>

text \<open>
  The variables of the data transfer: bytes acknowledged (\<open>s_written\<close>), the variable \<^verbatim>\<open>read\<close>
  (which counts bytes read from the file and also takes the result of each receive), the next
  sequence number, the window with its heap, the part of the file not read yet, the packet
  buffer, and the time of the last acknowledgement.
\<close>

record sender =
  s_written :: int
  s_read :: int
  s_sequence :: u16
  s_heap :: "buffer heap"
  s_packets :: List
  s_unread :: buffer
  s_buffer :: buffer
  s_lastACK :: int

text \<open>A signed value converted to the 64-bit \<^verbatim>\<open>size_t\<close>.\<close>

definition size_t_of :: "int \<Rightarrow> nat" where
  "size_t_of r = nat (r mod 2 ^ 64)"

text \<open>One round of the loop that reads chunks of the file into new packets.\<close>

definition chunk_limit :: "int \<Rightarrow> int \<Rightarrow> nat" where
  "chunk_limit fsize read =
     size_t_of (if fsize - read < int PAYLOAD_SIZE then fsize - read else int PAYLOAD_SIZE)"

definition add_chunk :: "(buffer heap \<Rightarrow> nat option) \<Rightarrow> int \<Rightarrow> sender \<Rightarrow> sender outcome" where
  "add_chunk mal fsize s =
     (let chunk = take (chunk_limit fsize (s_read s)) (s_unread s);
          chunksize = length chunk;
          buffer = put_at (s_buffer s) HEADER_SIZE chunk;
          packet = create_packet (\<lambda>_. 0) CMD_DATA (s_sequence s) (word_of_nat chunksize)
                     (Some (drop HEADER_SIZE buffer))
      in if chunksize > PAYLOAD_SIZE then Fault
         else (case add_to_list mal (s_heap s) (Some (s_packets s)) packet of
                 Some (_, h, Some l) \<Rightarrow>
                   Return (s\<lparr>s_read := s_read s + int chunksize, s_sequence := s_sequence s + 1,
                             s_heap := h, s_packets := l, s_unread := drop chunksize (s_unread s),
                             s_buffer := buffer\<rparr>)
               | _ \<Rightarrow> Fault))"

partial_function (option) fill_window ::
  "(buffer heap \<Rightarrow> nat option) \<Rightarrow> int \<Rightarrow> sender \<Rightarrow> sender outcome option"
where
  "fill_window mal fsize s =
     (if unat (ll_size (s_packets s)) < WINDOW_SIZE \<and> s_written s < fsize then
        (case add_chunk mal fsize s of
           Return s' \<Rightarrow> fill_window mal fsize s'
         | Exit c \<Rightarrow> Some (Exit c)
         | Fault \<Rightarrow> Some Fault)
      else Some (Return s))"

text \<open>The test that is meant to recognise an acknowledgement outside the window.\<close>

definition ack_outside :: "u16 \<Rightarrow> u16 \<Rightarrow> u16 \<Rightarrow> bool" where
  "ack_outside f l acked_seq \<longleftrightarrow>
     (let inside = f \<le> l in
      (inside \<and> acked_seq < f \<and> acked_seq > l) \<or> (\<not> inside \<and> acked_seq > f \<and> acked_seq < l))"

text \<open>The loop that takes acknowledged packets off the window.\<close>

partial_function (option) ack_window ::
  "u16 \<Rightarrow> world \<Rightarrow> sender \<Rightarrow> (sender outcome \<times> world) option"
where
  "ack_window acked_seq w s =
     (if ll_head (s_packets s) = None then Some (Return s, w)
      else
        (case head_data (s_heap s) (s_packets s) of
           None \<Rightarrow> Some (Fault, w)
         | Some first \<Rightarrow>
             (case tail_data (s_heap s) (s_packets s) of
                None \<Rightarrow> Some (Fault, w)
              | Some lst \<Rightarrow>
                  if acked_seq = get_seq_num first then Some (Return s, w)
                  else if ack_outside (get_seq_num first) (get_seq_num lst) acked_seq
                  then Some (Return s, w)
                  else
                    (case time_now w of
                       (now, w1) \<Rightarrow>
                         (case list_pop (s_heap s, s_packets s) of
                            None \<Rightarrow> Some (Fault, w1)
                          | Some q \<Rightarrow>
                              ack_window acked_seq w1
                                (s\<lparr>s_lastACK := now,
                                   s_written := s_written s + int (unat (GETLEN first)),
                                   s_heap := fst q, s_packets := snd q\<rparr>))))))"

text \<open>What the client does with the packet in its buffer, and the loop over the datagrams at hand.\<close>

datatype reply_action =
    Next_reply sender       \<comment> \<open>look for another datagram\<close>
  | Leave_loop sender       \<comment> \<open>a FIN after the last byte was acknowledged\<close>
  | Quit "sender outcome"   \<comment> \<open>the process ends\<close>

lemma case_reply_action_mono [partial_function_mono]:
  assumes "\<And>s. mono_option (f s)" and "\<And>s. mono_option (g s)" and "\<And>oc. mono_option (k oc)"
  shows "mono_option (\<lambda>F. case x of Next_reply s \<Rightarrow> f s F | Leave_loop s \<Rightarrow> g s F | Quit oc \<Rightarrow> k oc F)"
  using assms by (cases x) auto

definition handle_reply ::
  "int \<Rightarrow> world \<Rightarrow> sender \<Rightarrow> (reply_action \<times> world) option"
where
  "handle_reply fsize w s =
     (if s_buffer s ! 0 = CMD_ACK then
        map_option (\<lambda>(oc, w'). (case oc of Return s' \<Rightarrow> Next_reply s' | _ \<Rightarrow> Quit oc, w'))
          (ack_window (get_seq_num (s_buffer s)) w s)
      else if s_buffer s ! 0 = CMD_FIN then
        Some (if s_written s < fsize then Quit (Exit CLIENT_BAD_REQUEST) else Leave_loop s, w)
      else Some (Next_reply s, w))"

partial_function (option) ack_loop ::
  "int \<Rightarrow> sockaddr_in \<Rightarrow> world \<Rightarrow> sender \<Rightarrow> (sender outcome \<times> world) option"
where
  "ack_loop fsize target w s =
     (case read_only_from w (s_buffer s) PACKET_SIZE target of
        (n, buffer, w1) \<Rightarrow>
          let s1 = s\<lparr>s_read := n, s_buffer := buffer\<rparr> in
          if n < 0 \<and> (errno w1 = EWOULDBLOCK \<or> errno w1 = EAGAIN) then Some (Return s1, w1)
          else Option.bind (handle_reply fsize w1 s1) (\<lambda>(act, w2).
                 (case act of
                    Next_reply s2 \<Rightarrow> ack_loop fsize target w2 s2
                  | Leave_loop s2 \<Rightarrow> Some (Return s2, w2)
                  | Quit oc \<Rightarrow> Some (oc, w2))))"

partial_function (option) data_loop ::
  "(buffer heap \<Rightarrow> nat option) \<Rightarrow> int \<Rightarrow> sockaddr_in \<Rightarrow> world \<Rightarrow> sender \<Rightarrow> (sender outcome \<times> world) option"
where
  "data_loop mal fsize target w s =
     (if s_written s = fsize then Some (Return s, w)
      else Option.bind (fill_window mal fsize s) (\<lambda>oc.
        (case oc of
           Return s1 \<Rightarrow>
             Option.bind (send_all w target (s_heap s1) (s_packets s1)) (\<lambda>(r, w1).
               if r \<noteq> Return 0 then Some (if r = Fault then Fault else Exit CLIENT_RUNTIME_ERROR, w1)
               else
                 (case time_now w1 of
                    (now, w2) \<Rightarrow>
                      if now - s_lastACK s1 > ACK_TIMEOUT then Some (Exit CLIENT_TIMEOUT, w2)
                      else Option.bind (ack_loop fsize target w2 s1) (\<lambda>(oc2, w3).
                             (case oc2 of
                                Return s2 \<Rightarrow> data_loop mal fsize target w3 s2
                              | Exit c \<Rightarrow> Some (Exit c, w3)
                              | Fault \<Rightarrow> Some (Fault, w3)))))
         | Exit c \<Rightarrow> Some (Exit c, w)
         | Fault \<Rightarrow> Some (Fault, w))))"

section \<open>Closing\<close>

text \<open>Leftover acknowledgements are read and dropped.\<close>

partial_function (option) skip_acks ::
  "sockaddr_in \<Rightarrow> world \<Rightarrow> int \<Rightarrow> buffer \<Rightarrow> (buffer \<times> world) option"
where
  "skip_acks target w r buffer =
     (if r > 0 \<and> buffer ! 0 = CMD_ACK then
        (case read_only_from w buffer PACKET_SIZE target of
           (r', buffer', w') \<Rightarrow> skip_acks target w' r' buffer')
      else Some (buffer, w))"

partial_function (option) close_loop ::
  "int \<Rightarrow> sockaddr_in \<Rightarrow> world \<Rightarrow> buffer \<Rightarrow> (buffer \<times> world) option"
where
  "close_loop lastACK target w buffer =
     (case time_now w of
        (now, w1) \<Rightarrow>
          if now - lastACK < ACK_TIMEOUT then
            (case send_packet w1 target (control CMD_FIN 0) of
               (_, w2) \<Rightarrow>
                 (case read_only_from w2 buffer PACKET_SIZE target of
                    (r, buffer1, w3) \<Rightarrow>
                      Option.bind (skip_acks target w3 r buffer1) (\<lambda>(buffer2, w4).
                        if buffer2 ! 0 = CMD_FINACK then Some (buffer2, w4)
                        else close_loop lastACK target w4 buffer2)))
          else Some (buffer, w1))"

section \<open>The whole of copy_file\<close>

definition start_sender :: "buffer \<Rightarrow> buffer \<Rightarrow> int \<Rightarrow> sender" where
  "start_sender content buffer now =
     \<lparr>s_written = 0, s_read = 0, s_sequence = 1, s_heap = Map.empty,
      s_packets = \<lparr>ll_head = None, ll_tail = None, ll_size = 0\<rparr>,
      s_unread = content, s_buffer = buffer, s_lastACK = now\<rparr>"

definition copy_file_client ::
  "(buffer heap \<Rightarrow> nat option) \<Rightarrow> int \<Rightarrow> world \<Rightarrow> buffer \<Rightarrow> byte list \<Rightarrow> sockaddr_in \<Rightarrow> (int outcome \<times> world) option"
where
  "copy_file_client mal garbage w content filename target =
     (let fsize = get_file_size w garbage filename in
      Option.bind (complete_request w (replicate PACKET_SIZE 0) fsize filename target) (\<lambda>(oc, w1).
        (case oc of
           Return (buffer, target') \<Rightarrow>
             (case time_now w1 of
                (now, w2) \<Rightarrow>
                  Option.bind (data_loop mal fsize target' w2 (start_sender content buffer now))
                    (\<lambda>(oc2, w3).
                       (case oc2 of
                          Return s \<Rightarrow>
                            (case time_now w3 of
                               (t, w4) \<Rightarrow>
                                 map_option (\<lambda>(_, w5). (Return 0, w5))
                                   (close_loop t target' w4 (s_buffer s)))
                        | Exit c \<Rightarrow> Some (Exit c, w3)
                        | Fault \<Rightarrow> Some (Fault, w3))))
         | Exit c \<Rightarrow> Some (Exit c, w1)
         | Fault \<Rightarrow> Some (Fault, w1))))"

section \<open>The packets of a file\<close>

text \<open>Packet number \<open>n\<close>, counted from 1 without bound, carries the \<open>n\<close>-th chunk of the file.\<close>

definition chunk :: "buffer \<Rightarrow> nat \<Rightarrow> buffer" where
  "chunk content n = take PAYLOAD_SIZE (drop (PAYLOAD_SIZE * (n - 1)) content)"

definition data_packet :: "nat \<Rightarrow> buffer \<Rightarrow> buffer" where
  "data_packet n bs = create_packet (\<lambda>_. 0) CMD_DATA (seq16 n) (word_of_nat (length bs)) (Some bs)"

definition file_packet :: "buffer \<Rightarrow> nat \<Rightarrow> buffer" where
  "file_packet content n = data_packet n (chunk content n)"

lemma length_chunk: "length (chunk content n) \<le> PAYLOAD_SIZE"
  by (simp add: chunk_def)

lemma unat_chunk_length [simp]:
  "length bs \<le> PAYLOAD_SIZE \<Longrightarrow> unat (word_of_nat (length bs) :: u16) = length bs"
  by (simp add: unat_of_nat take_bit_eq_mod)

lemma data_packet_fields:
  assumes "length bs \<le> PAYLOAD_SIZE"
  shows "pkt_cmd (data_packet n bs) = CMD_DATA" and "get_seq_num (data_packet n bs) = seq16 n"
    and "unat (GETLEN (data_packet n bs)) = length bs" and "pkt_payload (data_packet n bs) = bs"
    and "wf_packet (data_packet n bs)" and "length (data_packet n bs) \<le> PACKET_SIZE"
proof -
  have u: "unat (word_of_nat (length bs) :: u16) = length bs"
    using assms by (rule unat_chunk_length)
  then have fit: "\<And>p. Some bs = Some p \<Longrightarrow> unat (word_of_nat (length bs) :: u16) \<le> length p" by simp
  note f = create_packet_fields [OF fit]
  show "pkt_cmd (data_packet n bs) = CMD_DATA" by (simp only: data_packet_def f)
  show "get_seq_num (data_packet n bs) = seq16 n" by (simp only: data_packet_def f)
  show len: "unat (GETLEN (data_packet n bs)) = length bs" by (simp only: data_packet_def f u)
  show "pkt_payload (data_packet n bs) = bs"
    using u by (simp add: data_packet_def create_packet_payload)
  show wf: "wf_packet (data_packet n bs)" unfolding data_packet_def using fit by (rule create_packet_wf)
  show "length (data_packet n bs) \<le> PACKET_SIZE"
    using assms wf len by (simp add: wf_packet_def)
qed

lemmas file_packet_fields =
  data_packet_fields [OF length_chunk [of content n], where n = n, folded file_packet_def] for content n

lemma uint_file_packet_len: "uint (GETLEN (file_packet content n)) = int (length (chunk content n))"
  using file_packet_fields(3) [of content n] by (metis uint_nat)

lemma create_packet_prefix:
  "unat n \<le> length bs \<Longrightarrow> create_packet fill c s n (Some (bs @ cs)) = create_packet fill c s n (Some bs)"
  by (simp add: create_packet_def Let_def)

text \<open>The packets numbered \<open>base + 1\<close> to \<open>N\<close>.\<close>

definition packets_between :: "buffer \<Rightarrow> nat \<Rightarrow> nat \<Rightarrow> buffer list" where
  "packets_between content base N = map (file_packet content) [Suc base..<Suc N]"

lemma length_packets_between [simp]: "length (packets_between content base N) = N - base"
  by (simp add: packets_between_def del: upt_Suc)

lemma packets_between_empty [simp]: "N \<le> base \<Longrightarrow> packets_between content base N = []"
  by (simp add: packets_between_def del: upt_Suc)

lemma packets_between_Suc:
  "base \<le> N \<Longrightarrow>
   packets_between content base (Suc N) = packets_between content base N @ [file_packet content (Suc N)]"
  by (simp add: packets_between_def)

lemma packets_between_Cons:
  "base < N \<Longrightarrow>
   packets_between content base N = file_packet content (Suc base) # packets_between content (Suc base) N"
  by (simp add: packets_between_def upt_conv_Cons del: upt_Suc)

section \<open>Filling the window\<close>

text \<open>
  \<open>sending content s base N\<close>: packets up to \<open>base\<close> have left the window, which holds those numbered
  \<open>base + 1\<close> to \<open>N\<close>; the file has been read up to the end of packet \<open>N\<close>.
\<close>

definition sending :: "buffer \<Rightarrow> sender \<Rightarrow> nat \<Rightarrow> nat \<Rightarrow> bool" where
  "sending content s base N \<longleftrightarrow>
     base \<le> N \<and> N \<le> base + WINDOW_SIZE \<and>
     ll_own (s_heap s) (s_packets s) (packets_between content base N) \<and>
     s_sequence s = seq16 (Suc N) \<and>
     s_unread s = drop (PAYLOAD_SIZE * N) content \<and>
     s_written s = int (min (PAYLOAD_SIZE * base) (length content)) \<and>
     length (s_buffer s) = PACKET_SIZE"

text \<open>The window is a list of well-formed packets, so sending it hands all of them to a network that takes them.\<close>

lemma sending_window:
  assumes "sending content s base N"
  shows "ll_rep (s_heap s) (s_packets s) (packets_between content base N)"
    and "\<forall>d\<in>set (packets_between content base N). wf_packet d"
  using assms by (auto simp: sending_def ll_own_rep packets_between_def file_packet_fields simp del: upt_Suc)

lemma sending_send_all:
  assumes "sending content s base N" and "\<forall>k. w_send w k = Tx_ok"
  shows "send_all w target (s_heap s) (s_packets s) =
         Some (Return 0, w\<lparr>n_send := n_send w + (N - base), sent := sent w @ map (Pair target) (packets_between content base N)\<rparr>)"
  using send_all_rep [OF sending_window [OF assms(1)] assms(2)] by simp

text \<open>The variable \<^verbatim>\<open>read\<close> never claims more than was read from the file.\<close>

definition read_sound :: "buffer \<Rightarrow> sender \<Rightarrow> bool" where
  "read_sound content s \<longleftrightarrow> s_read s + int (length (s_unread s)) \<le> int (length content)"

lemma chunk_limit_exact:
  assumes "read_sound content s"
  shows "take (chunk_limit (int (length content)) (s_read s)) (s_unread s) =
         take PAYLOAD_SIZE (s_unread s)"
proof -
  let ?d = "int (length content) - s_read s"
  have d: "int (length (s_unread s)) \<le> ?d" using assms by (simp add: read_sound_def)
  show ?thesis
  proof (cases "?d < int PAYLOAD_SIZE")
    case True
    with d have "chunk_limit (int (length content)) (s_read s) = nat ?d"
      by (simp add: chunk_limit_def size_t_of_def)
    with True d show ?thesis by simp
  next
    case False
    then show ?thesis by (simp add: chunk_limit_def size_t_of_def)
  qed
qed

lemma add_chunk_sending:
  assumes inv: "sending content s base N" and rs: "read_sound content s"
    and room: "N < base + WINDOW_SIZE" and mal: "malloc_serves WINDOW_SIZE mal"
  shows "\<exists>s'. add_chunk mal (int (length content)) s = Return s' \<and>
              sending content s' base (Suc N) \<and> read_sound content s' \<and> s_lastACK s' = s_lastACK s"
proof -
  let ?ch = "take PAYLOAD_SIZE (s_unread s)"
  have ch: "take (chunk_limit (int (length content)) (s_read s)) (s_unread s) = ?ch"
    using rs by (rule chunk_limit_exact)
  have ch': "?ch = chunk content (Suc N)" using inv by (simp add: sending_def chunk_def)
  have seq: "s_sequence s = seq16 (Suc N)" using inv by (simp add: sending_def)
  let ?buf = "put_at (s_buffer s) HEADER_SIZE ?ch"
  have buf: "drop HEADER_SIZE ?buf = ?ch @ drop (HEADER_SIZE + length ?ch) (s_buffer s)"
    using inv by (simp add: drop_put_at sending_def)
  have "create_packet (\<lambda>_. 0) CMD_DATA (s_sequence s) (word_of_nat (length ?ch))
          (Some (drop HEADER_SIZE ?buf)) = file_packet content (Suc N)"
    unfolding ch' buf [unfolded ch'] seq file_packet_def data_packet_def using length_chunk [of content "Suc N"]
    by (intro create_packet_prefix) simp
  note packet = this
  obtain h l where a: "add_to_list mal (s_heap s) (Some (s_packets s)) (file_packet content (Suc N)) =
      Some (0, h, Some l)"
    "ll_own h l (packets_between content base N @ [file_packet content (Suc N)])"
    using ll_own_add_to_list [of "s_heap s" "s_packets s" _ WINDOW_SIZE mal] inv room mal
    by (fastforce simp: sending_def)
  let ?s' = "s\<lparr>s_read := s_read s + int (length ?ch), s_sequence := s_sequence s + 1,
               s_heap := h, s_packets := l, s_unread := drop (length ?ch) (s_unread s),
               s_buffer := ?buf\<rparr>"
  have "add_chunk mal (int (length content)) s = Return ?s'"
    unfolding add_chunk_def Let_def ch packet using a(1) by simp
  moreover have "drop (length ?ch) (s_unread s) = drop (PAYLOAD_SIZE * Suc N) content"
    using inv by (cases "PAYLOAD_SIZE \<le> length (s_unread s)") (auto simp: sending_def add.commute)
  then have "sending content ?s' base (Suc N)"
    using inv room a(2) by (simp add: sending_def seq16_Suc packets_between_Suc)
  moreover have "read_sound content ?s'" using rs by (auto simp: read_sound_def)
  ultimately show ?thesis by auto
qed

lemma sending_size:
  assumes "sending content s base N"
  shows "unat (ll_size (s_packets s)) = N - base"
proof -
  have "ll_rep (s_heap s) (s_packets s) (packets_between content base N)"
    using assms by (simp add: sending_def ll_own_rep)
  then have eq: "ll_size (s_packets s) = word_of_nat (N - base)"
    by (metis ll_rep_size length_packets_between)
  have "N - base \<le> 50" using assms by (auto simp: sending_def)
  then show ?thesis unfolding eq unat_of_nat by simp
qed

text \<open>The window is filled to its full size as long as bytes remain unacknowledged.\<close>

lemma fill_window_sending:
  assumes "sending content s base N" and "read_sound content s"
    and "malloc_serves WINDOW_SIZE mal" and "s_written s < int (length content)"
  shows "\<exists>s'. fill_window mal (int (length content)) s = Some (Return s') \<and>
              sending content s' base (base + WINDOW_SIZE) \<and> read_sound content s' \<and>
              s_lastACK s' = s_lastACK s"
  using assms
proof (induction "base + WINDOW_SIZE - N" arbitrary: s N)
  case 0
  then have "N = base + WINDOW_SIZE" by (simp add: sending_def)
  with 0 sending_size [OF 0(2)] show ?case by (subst fill_window.simps) simp
next
  case (Suc d)
  then have room: "N < base + WINDOW_SIZE" by simp
  obtain s1 where s1: "add_chunk mal (int (length content)) s = Return s1"
    "sending content s1 base (Suc N)" "read_sound content s1" "s_lastACK s1 = s_lastACK s"
    using add_chunk_sending [OF Suc.prems(1,2) room Suc.prems(3)] by blast
  have "s_written s1 < int (length content)"
    using s1(2) Suc.prems by (simp add: sending_def)
  moreover have "d = base + WINDOW_SIZE - Suc N" using Suc(2) by simp
  ultimately obtain s' where "fill_window mal (int (length content)) s1 = Some (Return s')"
    "sending content s' base (base + WINDOW_SIZE)" "read_sound content s'" "s_lastACK s' = s_lastACK s1"
    using Suc(1) [OF _ s1(2,3) Suc.prems(3)] by blast
  with s1 Suc.prems room sending_size [OF Suc.prems(1)] show ?case
    by (subst fill_window.simps) auto
qed

section \<open>Taking acknowledged packets off the window\<close>

text \<open>Both halves of the test are contradictory.\<close>

lemma ack_outside_False [simp]: "\<not> ack_outside f l a"
  by (auto simp: ack_outside_def Let_def)

text \<open>The last look at the clock gave the time of the last acknowledgement.\<close>

definition ack_fresh :: "world \<Rightarrow> sender \<Rightarrow> bool" where
  "ack_fresh w s \<longleftrightarrow> 0 < n_time w \<and> s_lastACK s = w_time w (n_time w - 1)"

text \<open>The packets an acknowledgement leaves of a window, and the bytes it takes off.\<close>

definition acknowledge :: "u16 \<Rightarrow> buffer list \<Rightarrow> buffer list \<times> int" where
  "acknowledge a ds = (dropWhile (\<lambda>p. get_seq_num p \<noteq> a) ds,
     \<Sum>p\<leftarrow>takeWhile (\<lambda>p. get_seq_num p \<noteq> a) ds. int (unat (GETLEN p)))"

text \<open>
  What an acknowledgement does to a represented window: it drops packets up to the first one that
  carries the acknowledged number, all of them if there is none, and counts their payloads.
\<close>

lemma ack_window_drops:
  assumes "ll_own (s_heap s) (s_packets s) ds"
  shows "\<exists>h l t w'. ack_window a w s =
           Some (Return (s\<lparr>s_lastACK := t, s_heap := h, s_packets := l,
                   s_written := s_written s + (\<Sum>p\<leftarrow>takeWhile (\<lambda>p. get_seq_num p \<noteq> a) ds.
                     int (unat (GETLEN p)))\<rparr>), w') \<and>
           ll_own h l (dropWhile (\<lambda>p. get_seq_num p \<noteq> a) ds) \<and> quiet w w' \<and>
           n_recv w' = n_recv w \<and> errno w' = errno w \<and>
           (ack_fresh w s \<or> takeWhile (\<lambda>p. get_seq_num p \<noteq> a) ds \<noteq> [] \<longrightarrow> ack_fresh w' (s\<lparr>s_lastACK := t\<rparr>))"
  using assms
proof (induction ds arbitrary: s w)
  case Nil
  then have "ll_head (s_packets s) = None" by (metis ll_own_rep ll_rep_NilD)
  with Nil show ?case
    by (subst ack_window.simps)
      (auto intro!: exI [of _ "s_heap s"] exI [of _ "s_packets s"] exI [of _ "s_lastACK s"])
next
  case (Cons d ds)
  have rep: "ll_rep (s_heap s) (s_packets s) (d # ds)" using Cons.prems by (rule ll_own_rep)
  have hd: "ll_head (s_packets s) \<noteq> None" "head_data (s_heap s) (s_packets s) = Some d"
    "tail_data (s_heap s) (s_packets s) = Some (last (d # ds))"
    using ll_rep_head_None_iff [OF rep] ll_rep_head_data [OF rep] ll_rep_tail_data [OF rep] by simp_all
  show ?case
  proof (cases "a = get_seq_num d")
    case True
    with hd Cons.prems show ?thesis
      by (subst ack_window.simps)
        (auto intro!: exI [of _ "s_heap s"] exI [of _ "s_packets s"] exI [of _ "s_lastACK s"])
  next
    case False
    obtain q where q: "list_pop (s_heap s, s_packets s) = Some q" "ll_own (fst q) (snd q) ds"
      using ll_own_list_pop [OF Cons.prems] by blast
    let ?s1 = "s\<lparr>s_lastACK := w_time w (n_time w),
                  s_written := s_written s + int (unat (GETLEN d)),
                  s_heap := fst q, s_packets := snd q\<rparr>"
    let ?w1 = "w\<lparr>n_time := Suc (n_time w)\<rparr>"
    have step: "ack_window a w s = ack_window a ?w1 ?s1"
      using hd False q by (subst ack_window.simps) (auto simp: time_now_def)
    have own: "ll_own (s_heap ?s1) (s_packets ?s1) ds" using q by simp
    have q1: "quiet w ?w1" by (simp add: quiet_def same_answers_def)
    have fresh: "ack_fresh ?w1 ?s1" by (simp add: ack_fresh_def)
    obtain h l t w' where r: "ack_window a ?w1 ?s1 = Some (Return (?s1\<lparr>s_lastACK := t, s_heap := h, s_packets := l,
        s_written := s_written ?s1 + (\<Sum>p\<leftarrow>takeWhile (\<lambda>p. get_seq_num p \<noteq> a) ds. int (unat (GETLEN p)))\<rparr>), w')"
      "ll_own h l (dropWhile (\<lambda>p. get_seq_num p \<noteq> a) ds)" "quiet ?w1 w'" "n_recv w' = n_recv ?w1" "errno w' = errno ?w1"
      "ack_fresh w' (?s1\<lparr>s_lastACK := t\<rparr>)"
      using Cons.IH [OF own, of ?w1] fresh by blast
    have "quiet w w'" using q1 r(3) by (rule quiet_trans)
    moreover have "ack_fresh w' (s\<lparr>s_lastACK := t\<rparr>)" using r(6) by (simp add: ack_fresh_def)
    ultimately show ?thesis
      using r(1,2,4,5) False
      by (intro exI [of _ h] exI [of _ l] exI [of _ t] exI [of _ w']) (simp add: step add.assoc)
  qed
qed

lemma seqs_between:
  assumes "base < a" and "a \<le> Suc N" and "N \<le> base + WINDOW_SIZE"
  shows "takeWhile (\<lambda>p. get_seq_num p \<noteq> seq16 a) (packets_between content base N) =
           packets_between content base (a - 1)"
    and "dropWhile (\<lambda>p. get_seq_num p \<noteq> seq16 a) (packets_between content base N) =
           packets_between content (a - 1) N"
proof -
  have "takeWhile (\<lambda>p. get_seq_num p \<noteq> seq16 a) (packets_between content base N) =
           packets_between content base (a - 1) \<and>
        dropWhile (\<lambda>p. get_seq_num p \<noteq> seq16 a) (packets_between content base N) =
           packets_between content (a - 1) N"
    using assms
  proof (induction "N - base" arbitrary: base)
    case 0
    then show ?case by auto
  next
    case (Suc d)
    then have lt: "base < N" by simp
    have eq: "seq16 (Suc base) = seq16 a \<longleftrightarrow> Suc base = a"
      using Suc.prems by (intro seq16_near_eq_iff) auto
    show ?case
    proof (cases "a = Suc base")
      case True
      then show ?thesis
        using lt by (simp add: packets_between_Cons file_packet_fields)
    next
      case False
      with Suc(1) [of "Suc base"] Suc(2) Suc.prems eq lt show ?thesis
        by (simp add: packets_between_Cons [of base] file_packet_fields)
    qed
  qed
  then show "takeWhile (\<lambda>p. get_seq_num p \<noteq> seq16 a) (packets_between content base N) =
           packets_between content base (a - 1)"
    and "dropWhile (\<lambda>p. get_seq_num p \<noteq> seq16 a) (packets_between content base N) =
           packets_between content (a - 1) N" by auto
qed

text \<open>The payloads of the first \<open>n\<close> packets are the first \<open>n\<close> chunks of the file.\<close>

lemma payloads_upto:
  "concat (map pkt_payload (packets_between content 0 n)) = take (PAYLOAD_SIZE * n) content"
proof (induction n)
  case (Suc n)
  have "take (PAYLOAD_SIZE * Suc n) content =
        take (PAYLOAD_SIZE * n) content @ take PAYLOAD_SIZE (drop (PAYLOAD_SIZE * n) content)"
    by (metis mult_Suc_right add.commute take_add)
  with Suc show ?case
    by (simp add: packets_between_Suc file_packet_fields chunk_def)
qed simp

lemma lengths_between:
  assumes "base \<le> n"
  shows "int (min (PAYLOAD_SIZE * base) (length content)) +
         (\<Sum>p\<leftarrow>packets_between content base n. int (unat (GETLEN p))) =
         int (min (PAYLOAD_SIZE * n) (length content))"
  using assms
proof (induction n rule: dec_induct)
  case base
  then show ?case by simp
next
  case (step n)
  have "min (PAYLOAD_SIZE * n) (length content) + length (chunk content (Suc n)) =
        min (PAYLOAD_SIZE * Suc n) (length content)" by (auto simp: chunk_def min_def)
  then have "int (min (PAYLOAD_SIZE * n) (length content)) + int (length (chunk content (Suc n))) =
        int (min (PAYLOAD_SIZE * Suc n) (length content))" by (metis of_nat_add)
  with step show ?case
    by (simp add: packets_between_Suc uint_file_packet_len)
qed

text \<open>A cumulative acknowledgement inside the window moves its base.\<close>

lemma ack_window_sending:
  assumes inv: "sending content s base N" and a: "base < a" "a \<le> Suc N"
  shows "\<exists>s' w'. ack_window (seq16 a) w s = Some (Return s', w') \<and> sending content s' (a - 1) N \<and>
           s_read s' = s_read s \<and> s_buffer s' = s_buffer s \<and> quiet w w' \<and>
           n_recv w' = n_recv w \<and> errno w' = errno w \<and> (ack_fresh w s \<or> Suc base < a \<longrightarrow> ack_fresh w' s')"
proof -
  have own: "ll_own (s_heap s) (s_packets s) (packets_between content base N)"
    and N: "N \<le> base + WINDOW_SIZE" using inv by (auto simp: sending_def)
  note between = seqs_between [OF a N, of content]
  obtain h l t w' where r: "ack_window (seq16 a) w s =
      Some (Return (s\<lparr>s_lastACK := t, s_heap := h, s_packets := l,
         s_written := s_written s + (\<Sum>p\<leftarrow>packets_between content base (a - 1).
           int (unat (GETLEN p)))\<rparr>), w')"
    "ll_own h l (packets_between content (a - 1) N)" "quiet w w'" "n_recv w' = n_recv w"
    "errno w' = errno w" "ack_fresh w s \<or> packets_between content base (a - 1) \<noteq> [] \<longrightarrow> ack_fresh w' (s\<lparr>s_lastACK := t\<rparr>)"
    using ack_window_drops [OF own, of "seq16 a" w] unfolding between by blast
  have fresh: "packets_between content base (a - 1) \<noteq> []" if "Suc base < a"
    using that by (simp flip: length_greater_0_conv)
  have "base \<le> a - 1" using a by simp
  note sum = lengths_between [OF this, of content]
  have "sending content (s\<lparr>s_lastACK := t, s_heap := h, s_packets := l,
         s_written := s_written s + (\<Sum>p\<leftarrow>packets_between content base (a - 1).
           int (unat (GETLEN p)))\<rparr>) (a - 1) N"
    using inv a r(2) sum by (simp add: sending_def)
  with r fresh show ?thesis by (auto simp: ack_fresh_def)
qed

text \<open>An acknowledgement that matches no packet of the window drops the whole window.\<close>

lemma ack_window_unmatched:
  assumes inv: "sending content s base N" and other: "\<And>i. base < i \<Longrightarrow> i \<le> N \<Longrightarrow> seq16 i \<noteq> a"
  shows "\<exists>s' w'. ack_window a w s = Some (Return s', w') \<and> sending content s' N N \<and>
           s_read s' = s_read s \<and> s_buffer s' = s_buffer s \<and> quiet w w'"
proof -
  have own: "ll_own (s_heap s) (s_packets s) (packets_between content base N)" and le: "base \<le> N"
    using inv by (auto simp: sending_def)
  have "get_seq_num p \<noteq> a" if p: "p \<in> set (packets_between content base N)" for p
  proof -
    obtain i where "p = file_packet content i" "base < i" "i \<le> N"
      using p by (auto simp: packets_between_def simp del: upt_Suc)
    with other show ?thesis by (simp add: file_packet_fields)
  qed
  then have all: "takeWhile (\<lambda>p. get_seq_num p \<noteq> a) (packets_between content base N) = packets_between content base N"
    and none: "dropWhile (\<lambda>p. get_seq_num p \<noteq> a) (packets_between content base N) = []"
    by (simp_all add: takeWhile_eq_all_conv dropWhile_eq_Nil_conv)
  have sum: "s_written s + (\<Sum>p\<leftarrow>packets_between content base N. int (unat (GETLEN p))) =
      int (min (PAYLOAD_SIZE * N) (length content))"
    using lengths_between [OF le, of content] inv by (simp add: sending_def)
  obtain h l t w' where r: "ack_window a w s = Some (Return (s\<lparr>s_lastACK := t, s_heap := h, s_packets := l,
      s_written := int (min (PAYLOAD_SIZE * N) (length content))\<rparr>), w')" "ll_own h l []" "quiet w w'"
    using ack_window_drops [OF own, of a w] unfolding all none sum by blast
  moreover have "sending content (s\<lparr>s_lastACK := t, s_heap := h, s_packets := l,
      s_written := int (min (PAYLOAD_SIZE * N) (length content))\<rparr>) N N"
    using inv r(2) by (simp add: sending_def)
  ultimately show ?thesis by fastforce
qed

text \<open>Whatever number an acknowledgement carries, the window stays a window of the file.\<close>

lemma ack_window_any:
  assumes inv: "sending content s base N"
  shows "\<exists>s' w' base'. ack_window a w s = Some (Return s', w') \<and> sending content s' base' N \<and>
           s_read s' = s_read s \<and> s_buffer s' = s_buffer s \<and> quiet w w'"
proof (cases "\<exists>i. base < i \<and> i \<le> N \<and> seq16 i = a")
  case True
  then obtain i where "base < i" "i \<le> Suc N" "a = seq16 i" by auto
  then show ?thesis using ack_window_sending [OF inv, of i w] by blast
next
  case False
  then show ?thesis using ack_window_unmatched [OF inv, of a w] by blast
qed

lemma ack_window_stale:
  assumes "sending content s base N" and "a \<le> base" and "N < a + 65536"
  shows "\<exists>s' w'. ack_window (seq16 a) w s = Some (Return s', w') \<and>
           ll_head (s_packets s') = None \<and>
           s_written s' = int (min (PAYLOAD_SIZE * N) (length content)) \<and> quiet w w'"
proof -
  have "seq16 i \<noteq> seq16 a" if "base < i" "i \<le> N" for i
    using seq16_near_eq_iff [of i a] assms(2,3) that by simp
  then obtain s' w' where "ack_window (seq16 a) w s = Some (Return s', w')" "sending content s' N N" "quiet w w'"
    using ack_window_unmatched [OF assms(1), of "seq16 a" w] by blast
  then show ?thesis by (fastforce simp: sending_def dest: ll_own_rep ll_rep_NilD)
qed

lemma start_sender_sending:
  "length buffer = PACKET_SIZE \<Longrightarrow> sending content (start_sender content buffer now) 0 0"
  "read_sound content (start_sender content buffer now)"
  by (simp_all add: sending_def read_sound_def start_sender_def seq16_def ll_own_def ll_rep_def ll_nodes_def)

section \<open>The request packet\<close>

lemma request_text_no_zero: "0 \<notin> set (request_text filename fsize)"
proof -
  have "0 \<notin> set (map digit_byte (digits n))" for n
    using digits_bytes_isdigit [of n] isdigit_not_sign by blast
  then show ?thesis by (auto simp: request_text_def print_ld_def cstr_no_nul simp del: set_map)
qed

lemma request_packet_unfold:
  assumes "length buffer = PACKET_SIZE" and "length (request_text filename fsize) < PAYLOAD_SIZE"
  obtains rest where "drop HEADER_SIZE (request_buffer buffer filename fsize) = request_text filename fsize @ 0 # rest"
    and "request_packet (request_buffer buffer filename fsize) =
      create_packet (\<lambda>_. 0) CMD_WRQ 0 (word_of_nat (length (request_text filename fsize)))
        (Some (request_text filename fsize @ 0 # rest))"
    and "unat (word_of_nat (length (request_text filename fsize)) :: u16) = length (request_text filename fsize)"
proof -
  obtain rest where pay: "drop HEADER_SIZE (request_buffer buffer filename fsize) = request_text filename fsize @ 0 # rest"
    using assms(1) by (simp add: request_buffer_def drop_put_at)
  moreover have "request_packet (request_buffer buffer filename fsize) =
      create_packet (\<lambda>_. 0) CMD_WRQ 0 (word_of_nat (length (request_text filename fsize)))
        (Some (request_text filename fsize @ 0 # rest))"
    by (simp only: request_packet_def Let_def pay cstr_append_nul [OF request_text_no_zero])
  moreover have "unat (word_of_nat (length (request_text filename fsize)) :: u16) = length (request_text filename fsize)"
    using assms(2) by (intro unat_chunk_length) simp
  ultimately show thesis by (rule that)
qed

lemma request_packet_wf:
  assumes "length buffer = PACKET_SIZE" and "length (request_text filename fsize) < PAYLOAD_SIZE"
  shows "wf_packet (request_packet (request_buffer buffer filename fsize))"
proof -
  obtain rest where "request_packet (request_buffer buffer filename fsize) =
      create_packet (\<lambda>_. 0) CMD_WRQ 0 (word_of_nat (length (request_text filename fsize)))
        (Some (request_text filename fsize @ 0 # rest))"
    "unat (word_of_nat (length (request_text filename fsize)) :: u16) = length (request_text filename fsize)"
    using assms by (rule request_packet_unfold)
  then show ?thesis
    using create_packet_wf [of "Some (request_text filename fsize @ 0 # rest)"
        "word_of_nat (length (request_text filename fsize))"] by simp
qed

section \<open>An answered request\<close>

text \<open>The first datagram that arrives ends the request; nothing else of the state of the world changes.\<close>

lemma request_answer_heard:
  "request_answer (put_at b 0 (c # bs)) =
     (if c = CMD_EXISTS then Some CLIENT_FILE_EXISTS else if c = CMD_BADREQ then Some CLIENT_BAD_REQUEST else None)"
  by (simp add: request_answer_def nth_put_at_0)

lemma complete_request_reply:
  assumes "length (request_text filename fsize) < PAYLOAD_SIZE" and "length buffer = PACKET_SIZE"
    and "w_send w (n_send w) = Tx_ok" and "w_recv w (n_recv w) = Rx_dgram src (c # bs)"
    and "length (c # bs) \<le> PACKET_SIZE"
  shows "complete_request w buffer fsize filename target =
           Some (if c = CMD_EXISTS then Exit CLIENT_FILE_EXISTS
                 else if c = CMD_BADREQ then Exit CLIENT_BAD_REQUEST
                 else Return (put_at (request_buffer buffer filename fsize) 0 (c # bs), src),
           w\<lparr>n_time := Suc (n_time w), n_send := Suc (n_send w), n_recv := Suc (n_recv w),
             sent := sent w @ [(target, request_packet (request_buffer buffer filename fsize))]\<rparr>)"
proof -
  let ?b = "request_buffer buffer filename fsize"
  let ?w1 = "w\<lparr>n_time := Suc (n_time w), n_send := Suc (n_send w), sent := sent w @ [(target, request_packet ?b)],
      n_recv := Suc (n_recv w)\<rparr>"
  have "request_loop (w_time w (n_time w)) (w\<lparr>n_time := Suc (n_time w)\<rparr>) target (request_packet ?b) ?b =
      Some (Return (int (length (c # bs)), put_at ?b 0 (c # bs), src), ?w1)"
    using assms(3-5) request_packet_wf [OF assms(2,1)]
    by (subst request_loop.simps) (simp add: world_simps recvfrom_def)
  then show ?thesis
    using assms(1) by (simp add: complete_request_def request_answer_heard time_now_def Let_def)
qed

section \<open>A silent server\<close>

text \<open>Nothing arrives, every receive reports that it would block, and every send succeeds.\<close>

definition idle_line :: "world \<Rightarrow> bool" where
  "idle_line w \<longleftrightarrow>
     (\<forall>k\<ge>n_recv w. w_recv w k = Rx_error EAGAIN) \<and> (\<forall>k. w_send w k = Tx_ok) \<and> (\<forall>k. w_temp w k \<noteq> None)"

lemma idle_line_same_answers:
  "idle_line w \<Longrightarrow> same_answers w w' \<Longrightarrow> n_recv w \<le> n_recv w' \<Longrightarrow> idle_line w'"
  by (simp add: idle_line_def same_answers_def)

lemma idle_line_read:
  assumes "idle_line w" and "length b = PACKET_SIZE"
  obtains b' w' where "read_only_from w b PACKET_SIZE a = (-1, b', w')" and "errno w' = EAGAIN"
    and "length b' = PACKET_SIZE" and "quiet w w'" and "n_time w' = n_time w" and "idle_line w'"
proof -
  obtain n b' w' where r: "read_only_from w b PACKET_SIZE a = (n, b', w')"
    by (cases "read_only_from w b PACKET_SIZE a") auto
  have rx: "w_recv w (n_recv w) = Rx_error EAGAIN" using assms(1) by (simp add: idle_line_def)
  obtain fill where "w_temp w (n_temp w) = Some fill" using assms(1) by (fastforce simp: idle_line_def)
  then have "n = -1" "errno w' = EAGAIN"
    using r by (auto simp: read_only_from_unfold malloc_temp_def recvfrom_def rx)
  moreover have "idle_line w'"
    using idle_line_same_answers [OF assms(1)] read_only_from_frame(1) [OF r] read_only_from_n_recv [OF r]
    by (simp add: quiet_def)
  ultimately show thesis
    using r read_only_from_frame [OF r] assms(2) by (intro that [of b' w']) auto
qed

text \<open>
  \<open>waited P w a n\<close>: of the looks at the clock from number \<open>a\<close> on, the first \<open>n\<close> satisfy \<open>P\<close> and the next does not.
\<close>

definition waited :: "(int \<Rightarrow> bool) \<Rightarrow> world \<Rightarrow> nat \<Rightarrow> nat \<Rightarrow> bool" where
  "waited P w a n \<longleftrightarrow> (\<forall>i<n. P (w_time w (a + i))) \<and> \<not> P (w_time w (a + n))"

lemma waited_0: "\<not> P (w_time w a) \<Longrightarrow> waited P w a 0"
  by (simp add: waited_def)

lemma waited_Suc:
  assumes "P (w_time w a)" and "waited P w' (Suc a) n" and "w_time w' = w_time w"
  shows "waited P w a (Suc n)"
  using assms by (auto simp: waited_def less_Suc_eq_0_disj)

lemma request_loop_idle:
  assumes "idle_line w" and "wf_packet request" and "n_time w \<le> k" and "6 \<le> w_time w k - startTime"
  shows "\<exists>n w'. request_loop startTime w target request buffer = Some (Return (-1, buffer, target), w') \<and>
           sent w' = sent w @ replicate (Suc n) (target, request) \<and>
           waited (\<lambda>now. now - startTime < 6) w (n_time w) n \<and> n_time w' = n_time w + Suc n"
  using assms
proof (induction "k - n_time w" arbitrary: w rule: less_induct)
  case less
  let ?w1 = "w\<lparr>n_send := Suc (n_send w), sent := sent w @ [(target, request)], n_recv := Suc (n_recv w),
      errno := EAGAIN, n_time := Suc (n_time w)\<rparr>"
  have body: "request_loop startTime w target request buffer =
      (if w_time w (n_time w) - startTime < 6 then request_loop startTime ?w1 target request buffer
       else Some (Return (-1, buffer, target), ?w1))"
    using less.prems(1,2)
    by (subst request_loop.simps) (simp add: world_simps idle_line_def recvfrom_def time_now_def)
  show ?case
  proof (cases "w_time w (n_time w) - startTime < 6")
    case False
    then show ?thesis
      using body by (intro exI [of _ 0] exI [of _ ?w1]) (simp add: waited_0)
  next
    case True
    have line: "idle_line ?w1" using idle_line_same_answers [OF less.prems(1)] by (simp add: same_answers_def)
    have "n_time w \<noteq> k" using True less.prems(4) by auto
    then have "\<exists>n w'. request_loop startTime ?w1 target request buffer = Some (Return (-1, buffer, target), w') \<and>
        sent w' = sent ?w1 @ replicate (Suc n) (target, request) \<and>
        waited (\<lambda>now. now - startTime < 6) ?w1 (n_time ?w1) n \<and> n_time w' = n_time ?w1 + Suc n"
      using less.prems line by (intro less.hyps) simp_all
    then obtain n w' where IH: "request_loop startTime ?w1 target request buffer = Some (Return (-1, buffer, target), w')"
      "sent w' = sent w @ replicate (Suc (Suc n)) (target, request)"
      "waited (\<lambda>now. now - startTime < 6) ?w1 (Suc (n_time w)) n" "n_time w' = n_time w + Suc (Suc n)" by auto
    have "waited (\<lambda>now. now - startTime < 6) w (n_time w) (Suc n)" by (rule waited_Suc [OF True IH(3)]) simp
    with body True IH show ?thesis by (intro exI [of _ "Suc n"] exI [of _ w']) simp
  qed
qed

lemma ack_loop_idle:
  assumes "idle_line w" and "length (s_buffer s) = PACKET_SIZE"
  shows "\<exists>b' w'. ack_loop fsize target w s = Some (Return (s\<lparr>s_read := -1, s_buffer := b'\<rparr>), w') \<and>
           length b' = PACKET_SIZE \<and> quiet w w' \<and> n_time w' = n_time w \<and> idle_line w'"
proof -
  obtain b' w' where "read_only_from w (s_buffer s) PACKET_SIZE target = (-1, b', w')" "errno w' = EAGAIN"
    "length b' = PACKET_SIZE" "quiet w w'" "n_time w' = n_time w" "idle_line w'"
    using assms by (rule idle_line_read)
  then show ?thesis by (subst ack_loop.simps) (auto simp: Let_def)
qed

lemma data_loop_idle:
  assumes "idle_line w" and "sending content s base N" and "read_sound content s"
    and "malloc_serves WINDOW_SIZE mal" and "s_written s < int (length content)"
    and "n_time w \<le> k" and "ACK_TIMEOUT < w_time w k - s_lastACK s"
  shows "\<exists>n w'. data_loop mal (int (length content)) target w s = Some (Exit CLIENT_TIMEOUT, w') \<and>
           sent w' = sent w @ concat (replicate (Suc n) (map (Pair target) (packets_between content base (base + WINDOW_SIZE)))) \<and>
           waited (\<lambda>now. now - s_lastACK s \<le> ACK_TIMEOUT) w (n_time w) n"
  using assms
proof (induction "k - n_time w" arbitrary: w s N rule: less_induct)
  case less
  obtain s1 where s1: "fill_window mal (int (length content)) s = Some (Return s1)"
    "sending content s1 base (base + WINDOW_SIZE)" "s_lastACK s1 = s_lastACK s"
    using fill_window_sending [OF less.prems(2-5)] by blast
  let ?ds = "packets_between content base (base + WINDOW_SIZE)"
  have ok: "\<forall>k. w_send w k = Tx_ok" using less.prems(1) by (simp add: idle_line_def)
  define w1 where "w1 = w\<lparr>n_send := n_send w + length ?ds, sent := sent w @ map (Pair target) ?ds\<rparr>"
  have send: "send_all w target (s_heap s1) (s_packets s1) = Some (Return 0, w1)"
    using sending_send_all [OF s1(2) ok] by (simp add: w1_def)
  let ?now = "w_time w (n_time w)" and ?w2 = "w1\<lparr>n_time := Suc (n_time w)\<rparr>"
  have unfinished: "s_written s \<noteq> int (length content)" using less.prems(5) by simp
  show ?case
  proof (cases "ACK_TIMEOUT < ?now - s_lastACK s")
    case True
    then have "data_loop mal (int (length content)) target w s = Some (Exit CLIENT_TIMEOUT, ?w2)"
      using unfinished s1 send by (subst data_loop.simps) (simp add: time_now_def w1_def)
    moreover have "sent ?w2 = sent w @ concat (replicate (Suc 0) (map (Pair target) ?ds))" by (simp add: w1_def)
    moreover have "waited (\<lambda>now. now - s_lastACK s \<le> ACK_TIMEOUT) w (n_time w) 0" using True by (intro waited_0) simp
    ultimately show ?thesis by blast
  next
    case False
    have line: "idle_line ?w2"
      using idle_line_same_answers [OF less.prems(1)] by (simp add: same_answers_def w1_def)
    have buf: "length (s_buffer s1) = PACKET_SIZE" using s1(2) by (simp add: sending_def)
    obtain b' w3 where a: "ack_loop (int (length content)) target ?w2 s1 =
        Some (Return (s1\<lparr>s_read := -1, s_buffer := b'\<rparr>), w3)"
      "length b' = PACKET_SIZE" "quiet ?w2 w3" "n_time w3 = n_time ?w2" "idle_line w3"
      using ack_loop_idle [OF line buf] by blast
    let ?s2 = "s1\<lparr>s_read := -1, s_buffer := b'\<rparr>"
    have step: "data_loop mal (int (length content)) target w s = data_loop mal (int (length content)) target w3 ?s2"
      using unfinished s1 send False a(1)
      by (subst data_loop.simps) (simp add: time_now_def w1_def)
    have ne: "k \<noteq> n_time w" using False less.prems(7) by auto
    have tm: "w_time w3 = w_time w" using a(3) by (simp add: quiet_def same_answers_def w1_def)
    have "\<exists>n w'. data_loop mal (int (length content)) target w3 ?s2 = Some (Exit CLIENT_TIMEOUT, w') \<and>
        sent w' = sent w3 @ concat (replicate (Suc n) (map (Pair target) ?ds)) \<and>
        waited (\<lambda>now. now - s_lastACK ?s2 \<le> ACK_TIMEOUT) w3 (n_time w3) n"
    proof (rule less.hyps)
      show "k - n_time w3 < k - n_time w" "n_time w3 \<le> k" using ne less.prems(6) a(4) by simp_all
      show "idle_line w3" by (rule a(5))
      show "sending content ?s2 base (base + WINDOW_SIZE)" using s1(2) a(2) by (simp add: sending_def)
      then show "read_sound content ?s2" by (simp add: read_sound_def sending_def)
      show "s_written ?s2 < int (length content)"
        using s1(2) less.prems(2,5) by (simp add: sending_def)
      show "ACK_TIMEOUT < w_time w3 k - s_lastACK ?s2" using less.prems(7) s1(3) tm by simp
    qed (rule less.prems(4))
    then obtain n w' where IH: "data_loop mal (int (length content)) target w3 ?s2 = Some (Exit CLIENT_TIMEOUT, w')"
      "sent w' = sent w3 @ concat (replicate (Suc n) (map (Pair target) ?ds))"
      "waited (\<lambda>now. now - s_lastACK s \<le> ACK_TIMEOUT) w3 (Suc (n_time w)) n"
      using a(4) s1(3) by auto
    have "sent w3 = sent w @ map (Pair target) ?ds" using a(3) by (simp add: quiet_def w1_def)
    then have "sent w' = sent w @ concat (replicate (Suc (Suc n)) (map (Pair target) ?ds))" using IH(2) by simp
    moreover have "waited (\<lambda>now. now - s_lastACK s \<le> ACK_TIMEOUT) w (n_time w) (Suc n)"
      using False by (intro waited_Suc [OF _ IH(3) tm]) simp
    ultimately show ?thesis using step IH(1,2) by (intro exI [of _ "Suc n"] exI [of _ w']) simp
  qed
qed

lemma close_loop_idle:
  assumes "idle_line w" and "length buffer = PACKET_SIZE" and "n_time w \<le> k" and "ACK_TIMEOUT \<le> w_time w k - t"
  shows "\<exists>r. close_loop t target w buffer = Some r"
  using assms
proof (induction "k - n_time w" arbitrary: w buffer)
  case 0
  then have "k = n_time w" by simp
  with 0 show ?case by (subst close_loop.simps) (simp add: time_now_def)
next
  case (Suc d)
  let ?w1 = "w\<lparr>n_time := Suc (n_time w), n_send := Suc (n_send w), sent := sent w @ [(target, control CMD_FIN 0)]\<rparr>"
  have line: "idle_line ?w1" using idle_line_same_answers [OF Suc.prems(1)] by (simp add: same_answers_def)
  obtain b' w' where r: "read_only_from ?w1 buffer PACKET_SIZE target = (-1, b', w')" "length b' = PACKET_SIZE"
    "quiet ?w1 w'" "n_time w' = n_time ?w1" "idle_line w'"
    using line Suc.prems(2) by (rule idle_line_read)
  have "send_packet (w\<lparr>n_time := Suc (n_time w)\<rparr>) target (control CMD_FIN 0) = (0, ?w1)"
    using Suc.prems(1) by (simp add: world_simps idle_line_def)
  moreover have "skip_acks target w' (-1) b' = Some (b', w')" by (subst skip_acks.simps) simp
  moreover have "\<exists>r. close_loop t target w' b' = Some r"
    using Suc.prems Suc(2) r
    by (intro Suc(1)) (simp_all add: quiet_def same_answers_def)
  ultimately show ?case using r(1) by (subst close_loop.simps) (auto simp: time_now_def)
qed

section \<open>Properties\<close>

text \<open>
  C19: while bytes remain unacknowledged, the fill loop ends, and it ends with a window of exactly 50
  packets that carry consecutive sequence numbers and consecutive chunks of the file, the first of
  them being the oldest unacknowledged one; nothing is counted as written.
\<close>

theorem fill_window_full:
  assumes "sending content s base N" and "read_sound content s"
    and "malloc_serves WINDOW_SIZE mal" and "s_written s < int (length content)"
  shows "\<exists>s'. fill_window mal (int (length content)) s = Some (Return s') \<and>
              ll_rep (s_heap s') (s_packets s') (map (file_packet content) [Suc base..<Suc (base + WINDOW_SIZE)]) \<and>
              s_sequence s' = seq16 (Suc (base + WINDOW_SIZE)) \<and>
              s_unread s' = drop (PAYLOAD_SIZE * (base + WINDOW_SIZE)) content \<and> s_written s' = s_written s"
proof -
  obtain s' where "fill_window mal (int (length content)) s = Some (Return s')"
    "sending content s' base (base + WINDOW_SIZE)"
    using fill_window_sending [OF assms] by blast
  with assms(1) show ?thesis
    by (auto simp: sending_def ll_own_rep packets_between_def simp del: upt_Suc)
qed

text \<open>
  C18: an acknowledgement inside the window or just behind it, compared as a 16-bit number that may
  have wrapped around, takes exactly the acknowledged packets off the window and adds exactly their
  payload bytes to the count of written bytes.
\<close>

theorem ack_takes_acknowledged:
  assumes "sending content s base N" and "base < a" and "a \<le> Suc N"
  shows "\<exists>s' w'. ack_window (seq16 a) w s = Some (Return s', w') \<and>
           ll_rep (s_heap s') (s_packets s') (map (file_packet content) [a..<Suc N]) \<and>
           s_written s' = int (min (PAYLOAD_SIZE * (a - 1)) (length content)) \<and>
           sent w' = sent w"
proof -
  obtain s' w' where "ack_window (seq16 a) w s = Some (Return s', w')" "sending content s' (a - 1) N" "quiet w w'"
    using ack_window_sending [OF assms, of w] by blast
  moreover have "packets_between content (a - 1) N = map (file_packet content) [a..<Suc N]"
    using assms(2) by (simp add: packets_between_def del: upt_Suc)
  ultimately show ?thesis by (auto simp: sending_def ll_own_rep quiet_def)
qed

text \<open>
  C17: the loop over the linked list, with its pointers, its test for numbers outside the window and
  its look at the clock for every packet, computes the same as a plain list operation: on any window
  of any packets and for any number, it ends, keeps the packets from the first one with that number
  on, and counts the lengths of those before it. It sends and receives nothing.
\<close>

theorem ack_window_reference:
  assumes "ll_own (s_heap s) (s_packets s) ds"
  shows "\<exists>s' w'. ack_window a w s = Some (Return s', w') \<and>
           ll_own (s_heap s') (s_packets s') (fst (acknowledge a ds)) \<and>
           s_written s' = s_written s + snd (acknowledge a ds) \<and>
           s_sequence s' = s_sequence s \<and> s_unread s' = s_unread s \<and> sent w' = sent w \<and> n_recv w' = n_recv w"
  using ack_window_drops [OF assms, of a w] by (auto simp: acknowledge_def quiet_def)

text \<open>
  C20: the test meant to ignore acknowledgements outside the window is never true. An acknowledgement
  older than the window, as a delayed datagram brings it, empties the whole window and counts every
  packet in it as written, although none of them was acknowledged.
\<close>

theorem stale_ack_empties_window:
  assumes "sending content s base N" and "a \<le> base" and "N < a + 65536"
  shows "\<exists>s' w'. ack_window (seq16 a) w s = Some (Return s', w') \<and>
           ll_head (s_packets s') = None \<and>
           s_written s' = int (min (PAYLOAD_SIZE * N) (length content))"
  using ack_window_stale [OF assms] by blast

text \<open>
  The first datagram that answers the request decides: EXISTS and BADREQ end the client with
  their exit codes; every other command, also one no server sends in this place, is taken as
  acceptance, and the sender of the datagram becomes the peer. The request was sent once.
\<close>

theorem request_reply_decides:
  assumes "length (request_text filename fsize) < PAYLOAD_SIZE" and "length buffer = PACKET_SIZE"
    and "w_send w (n_send w) = Tx_ok" and "w_recv w (n_recv w) = Rx_dgram src (c # bs)"
    and "length (c # bs) \<le> PACKET_SIZE"
  shows "\<exists>w'. complete_request w buffer fsize filename target =
           Some (if c = CMD_EXISTS then Exit CLIENT_FILE_EXISTS
                 else if c = CMD_BADREQ then Exit CLIENT_BAD_REQUEST
                 else Return (put_at (request_buffer buffer filename fsize) 0 (c # bs), src), w') \<and>
         sent w' = sent w @ [(target, request_packet (request_buffer buffer filename fsize))]"
  using complete_request_reply [OF assms] by simp

text \<open>
  C29: a request nobody answers is sent and then repeated, unchanged and to the same address, after every look at the
  clock that shows less than six seconds since the start, and the first look that shows six seconds or
  more ends the client with its time-out code: \<open>n\<close> looks within the time, \<open>n + 1\<close> requests.
\<close>

theorem request_times_out:
  assumes "idle_line w" and "length (request_text filename fsize) < PAYLOAD_SIZE"
    and "length buffer = PACKET_SIZE"
    and "n_time w < k" and "6 \<le> w_time w k - w_time w (n_time w)"
  shows "\<exists>n w'. complete_request w buffer fsize filename target = Some (Exit CLIENT_TIMEOUT, w') \<and>
           sent w' = sent w @ replicate (Suc n) (target, request_packet (request_buffer buffer filename fsize)) \<and>
           (\<forall>i<n. w_time w (n_time w + 1 + i) - w_time w (n_time w) < 6) \<and>
           6 \<le> w_time w (n_time w + 1 + n) - w_time w (n_time w) \<and> n_time w' = n_time w + n + 2"
proof -
  let ?w1 = "w\<lparr>n_time := Suc (n_time w)\<rparr>"
  have line: "idle_line ?w1" using idle_line_same_answers [OF assms(1)] by (simp add: same_answers_def)
  have "n_time ?w1 \<le> k" "6 \<le> w_time ?w1 k - w_time w (n_time w)" using assms(4,5) by simp_all
  from request_loop_idle [OF line request_packet_wf [OF assms(3,2)] this, of target "request_buffer buffer filename fsize"]
  obtain n w' where r: "request_loop (w_time w (n_time w)) ?w1 target (request_packet (request_buffer buffer filename fsize))
      (request_buffer buffer filename fsize) = Some (Return (-1, request_buffer buffer filename fsize, target), w')"
    "sent w' = sent w @ replicate (Suc n) (target, request_packet (request_buffer buffer filename fsize))"
    "waited (\<lambda>now. now - w_time w (n_time w) < 6) ?w1 (Suc (n_time w)) n" "n_time w' = Suc (n_time w) + Suc n" by auto
  then show ?thesis
    using assms(2) by (intro exI [of _ n] exI [of _ w']) (simp add: complete_request_def time_now_def waited_def Let_def)
qed

text \<open>
  C27: a client whose server falls silent in the middle of the transfer sends its whole window of 50 packets
  again in every round, the same chunks of the file with the same numbers, as long as no more than
  two seconds have passed since the last acknowledgement, and the first look at the clock that shows more ends it
  with its time-out code: \<open>n\<close> looks within the time, \<open>n + 1\<close> times the window.
\<close>

theorem data_phase_times_out:
  assumes "idle_line w" and "sending content s base N" and "read_sound content s"
    and "malloc_serves WINDOW_SIZE mal" and "s_written s < int (length content)"
    and "n_time w \<le> k" and "ACK_TIMEOUT < w_time w k - s_lastACK s"
  shows "\<exists>n w'. data_loop mal (int (length content)) target w s = Some (Exit CLIENT_TIMEOUT, w') \<and>
           sent w' = sent w @ concat (replicate (Suc n)
             (map (Pair target) (map (file_packet content) [Suc base..<Suc (base + WINDOW_SIZE)]))) \<and>
           (\<forall>i<n. w_time w (n_time w + i) - s_lastACK s \<le> ACK_TIMEOUT) \<and>
           ACK_TIMEOUT < w_time w (n_time w + n) - s_lastACK s"
  using data_loop_idle [OF assms, of target] unfolding waited_def packets_between_def not_le .

text \<open>
  The client reports success whether or not its FIN is acknowledged: with no FINACK ever coming,
  a client that has sent all its data stops repeating the FIN after two seconds and returns 0.
\<close>

theorem success_without_finack:
  assumes "complete_request w (replicate PACKET_SIZE 0) (get_file_size w garbage filename) filename target =
      Some (Return (buffer, target'), w1)"
    and "data_loop mal (get_file_size w garbage filename) target' (snd (time_now w1))
      (start_sender content buffer (fst (time_now w1))) = Some (Return s, w2)"
    and "idle_line w2" and "length (s_buffer s) = PACKET_SIZE"
    and "n_time w2 < k" and "ACK_TIMEOUT \<le> w_time w2 k - w_time w2 (n_time w2)"
  shows "\<exists>w'. copy_file_client mal garbage w content filename target = Some (Return 0, w')"
proof -
  let ?w3 = "w2\<lparr>n_time := Suc (n_time w2)\<rparr>"
  have "idle_line ?w3" using idle_line_same_answers [OF assms(3)] by (simp add: same_answers_def)
  then have "\<exists>r. close_loop (w_time w2 (n_time w2)) target' ?w3 (s_buffer s) = Some r"
    using assms(4-6) by (intro close_loop_idle [where k = k]) simp_all
  then show ?thesis
    using assms(1,2) by (auto simp: copy_file_client_def time_now_def Let_def split: prod.splits)
qed

section \<open>Examples\<close>

definition big_file :: buffer where
  "big_file = replicate 5000 7"

abbreviation example_sender :: sender where
  "example_sender \<equiv> start_sender big_file (replicate PACKET_SIZE 0) 0"

abbreviation example_malloc_50 :: "buffer heap \<Rightarrow> nat option" where
  "example_malloc_50 \<equiv> first_free WINDOW_SIZE"

lemma example_start_facts:
  "sending big_file example_sender 0 0" "read_sound big_file example_sender"
  "malloc_serves WINDOW_SIZE example_malloc_50" "s_written example_sender < int (length big_file)"
  by (simp_all only: start_sender_sending malloc_serves_first_free length_replicate)
    (simp_all add: start_sender_def big_file_def)

lemma example_window: "\<exists>s. sending big_file s 0 50"
  using fill_window_sending [OF example_start_facts] by auto

lemma example_moved_window: "\<exists>s. sending big_file s 1 50"
proof -
  obtain s where "sending big_file s 0 50" using example_window by blast
  then obtain s' where "sending big_file s' (2 - 1) 50"
    using ack_window_sending [of big_file s 0 50 2 "calm_world (\<lambda>_. Rx_error EAGAIN)"] by auto
  then show ?thesis by auto
qed

theorem fill_window_full_witness:
  "\<exists>s'. fill_window example_malloc_50 (int (length big_file)) example_sender = Some (Return s') \<and>
     ll_rep (s_heap s') (s_packets s') (map (file_packet big_file) [Suc 0..<Suc (0 + WINDOW_SIZE)]) \<and>
     s_sequence s' = seq16 (Suc (0 + WINDOW_SIZE)) \<and>
     s_unread s' = drop (PAYLOAD_SIZE * (0 + WINDOW_SIZE)) big_file \<and> s_written s' = s_written example_sender"
  by (rule fill_window_full [OF example_start_facts])

theorem ack_takes_acknowledged_witness:
  "\<exists>s s' w'. sending big_file s 0 50 \<and>
     ack_window (seq16 3) (calm_world (\<lambda>_. Rx_error EAGAIN)) s = Some (Return s', w') \<and>
     ll_rep (s_heap s') (s_packets s') (map (file_packet big_file) [3..<Suc 50]) \<and>
     s_written s' = int (min (PAYLOAD_SIZE * (3 - 1)) (length big_file)) \<and>
     sent w' = sent (calm_world (\<lambda>_. Rx_error EAGAIN))"
proof -
  obtain s where s: "sending big_file s 0 50" using example_window by blast
  with ack_takes_acknowledged [OF s, of 3 "calm_world (\<lambda>_. Rx_error EAGAIN)"] show ?thesis
    by (auto simp del: upt_Suc)
qed

theorem ack_window_reference_witness:
  "\<exists>s s' w'. ll_own (s_heap s) (s_packets s) (packets_between big_file 0 50) \<and>
     ack_window (seq16 3) (calm_world (\<lambda>_. Rx_error EAGAIN)) s = Some (Return s', w') \<and>
     ll_own (s_heap s') (s_packets s') (fst (acknowledge (seq16 3) (packets_between big_file 0 50))) \<and>
     s_written s' = s_written s + snd (acknowledge (seq16 3) (packets_between big_file 0 50))"
proof -
  obtain s where "sending big_file s 0 50" using example_window by blast
  then have own: "ll_own (s_heap s) (s_packets s) (packets_between big_file 0 50)" by (simp add: sending_def)
  with ack_window_reference [OF own, of "seq16 3" "calm_world (\<lambda>_. Rx_error EAGAIN)"] show ?thesis by blast
qed

theorem stale_ack_empties_window_witness:
  "\<exists>s s' w'. sending big_file s 1 50 \<and> s_written s = 2043 \<and>
     ack_window (seq16 1) (calm_world (\<lambda>_. Rx_error EAGAIN)) s = Some (Return s', w') \<and>
     ll_head (s_packets s') = None \<and> s_written s' = 5000"
proof -
  obtain s where s: "sending big_file s 1 50" using example_moved_window by blast
  then have "s_written s = 2043" by (simp add: sending_def big_file_def)
  with s stale_ack_empties_window [OF s, of 1 "calm_world (\<lambda>_. Rx_error EAGAIN)"] show ?thesis
    by (auto simp: big_file_def)
qed

lemma example_request_text: "length (request_text [97] 0) < PAYLOAD_SIZE"
  by (simp add: request_text_def cstr_def print_ld_def digits.simps)

text \<open>A peer that accepts the request and then says nothing.\<close>

definition accepting_world :: world where
  "accepting_world =
     calm_world (\<lambda>k. if k = 0 then Rx_dgram \<lparr>sin_addr = 1, sin_port = 9\<rparr> (control CMD_ACK 1) else Rx_error EAGAIN)
       \<lparr>files := [[97] \<mapsto> []]\<rparr>"

theorem request_reply_decides_witness:
  "\<exists>w'. complete_request (calm_world (\<lambda>_. Rx_dgram \<lparr>sin_addr = 1, sin_port = 9\<rparr> [CMD_DATA, 0]))
       (replicate PACKET_SIZE 0) 0 [97] \<lparr>sin_addr = 1, sin_port = 2\<rparr> =
     Some (if CMD_DATA = CMD_EXISTS then Exit CLIENT_FILE_EXISTS
           else if CMD_DATA = CMD_BADREQ then Exit CLIENT_BAD_REQUEST
           else Return (put_at (request_buffer (replicate PACKET_SIZE 0) [97] 0) 0 [CMD_DATA, 0],
             \<lparr>sin_addr = 1, sin_port = 9\<rparr>), w') \<and>
     sent w' = sent (calm_world (\<lambda>_. Rx_dgram \<lparr>sin_addr = 1, sin_port = 9\<rparr> [CMD_DATA, 0])) @
       [(\<lparr>sin_addr = 1, sin_port = 2\<rparr>, request_packet (request_buffer (replicate PACKET_SIZE 0) [97] 0))]"
  by (rule request_reply_decides [OF example_request_text]) simp_all

text \<open>On a clock that advances a second per look, the request is sent six times and the window four times.\<close>

theorem request_times_out_witness:
  "\<exists>w'. complete_request (calm_world (\<lambda>_. Rx_error EAGAIN)) (replicate PACKET_SIZE 0) 0 [97]
       \<lparr>sin_addr = 1, sin_port = 2\<rparr> = Some (Exit CLIENT_TIMEOUT, w') \<and>
     sent w' = replicate 6 (\<lparr>sin_addr = 1, sin_port = 2\<rparr>, request_packet (request_buffer (replicate PACKET_SIZE 0) [97] 0))"
proof -
  let ?w = "calm_world (\<lambda>_. Rx_error EAGAIN)"
  obtain n w' where r: "complete_request ?w (replicate PACKET_SIZE 0) 0 [97] \<lparr>sin_addr = 1, sin_port = 2\<rparr> = Some (Exit CLIENT_TIMEOUT, w')"
    "sent w' = replicate (Suc n) (\<lparr>sin_addr = 1, sin_port = 2\<rparr>, request_packet (request_buffer (replicate PACKET_SIZE 0) [97] 0))"
    "\<forall>i<n. int (1 + i) < 6" "6 \<le> int (1 + n)"
    using request_times_out [of ?w "[97]" 0 "replicate PACKET_SIZE 0" 6 "\<lparr>sin_addr = 1, sin_port = 2\<rparr>"] example_request_text
    by (auto simp: idle_line_def)
  have "n = 5" using r(4) spec [OF r(3), of 5] by auto
  with r(1,2) show ?thesis by (simp add: eval_nat_numeral)
qed

theorem data_phase_times_out_witness:
  "\<exists>w'. data_loop example_malloc_50 (int (length big_file)) \<lparr>sin_addr = 1, sin_port = 2\<rparr>
       (calm_world (\<lambda>_. Rx_error EAGAIN)) example_sender = Some (Exit CLIENT_TIMEOUT, w') \<and>
     sent w' = concat (replicate 4 (map (Pair \<lparr>sin_addr = 1, sin_port = 2\<rparr>) (map (file_packet big_file) [Suc 0..<Suc 50])))"
proof -
  let ?w = "calm_world (\<lambda>_. Rx_error EAGAIN)" and ?a = "\<lparr>sin_addr = 1, sin_port = 2\<rparr>"
  have w: "idle_line ?w" "n_time ?w \<le> 3" "ACK_TIMEOUT < w_time ?w 3 - s_lastACK example_sender"
    by (simp_all add: idle_line_def start_sender_def)
  obtain n w' where r: "data_loop example_malloc_50 (int (length big_file)) ?a ?w example_sender = Some (Exit CLIENT_TIMEOUT, w')"
    "sent w' = concat (replicate (Suc n) (map (Pair ?a) (map (file_packet big_file) [Suc 0..<Suc 50])))"
    "\<forall>i<n. int i \<le> 2" "2 < int n"
    using data_phase_times_out [OF w(1) example_start_facts w(2,3), of ?a] by (auto simp: start_sender_def simp del: upt_Suc)
  have n: "n = 3" using r(4) spec [OF r(3), of 3] by auto
  have "Suc 3 = (4 :: nat)" by simp
  with r(1,2) show ?thesis unfolding n by metis
qed

theorem success_without_finack_witness:
  "\<exists>w'. copy_file_client example_malloc_50 (-1) accepting_world [] [97] \<lparr>sin_addr = 1, sin_port = 2\<rparr> =
     Some (Return 0, w')"
proof -
  let ?b = "request_buffer (replicate PACKET_SIZE 0) [97] 0" and ?src = "\<lparr>sin_addr = 1, sin_port = 9\<rparr>"
  let ?b' = "put_at ?b 0 (control CMD_ACK 1)"
  let ?w1 = "accepting_world\<lparr>n_time := 1, n_send := 1, n_recv := 1,
      sent := [(\<lparr>sin_addr = 1, sin_port = 2\<rparr>, request_packet ?b)]\<rparr>"
  have len: "length ?b = PACKET_SIZE"
    using example_request_text by (simp add: request_buffer_def)
  have ack: "?b' ! 0 = CMD_ACK"
    by (simp add: nth_put_at_0) (simp add: pkt_cmd_def [symmetric])
  have loop: "request_loop 0 (accepting_world\<lparr>n_time := 1\<rparr>) \<lparr>sin_addr = 1, sin_port = 2\<rparr> (request_packet ?b) ?b =
      Some (Return (5, ?b', ?src), ?w1)"
    using request_packet_wf [OF _ example_request_text, of "replicate PACKET_SIZE 0"]
    by (subst request_loop.simps) (simp add: world_simps recvfrom_def accepting_world_def)
  have size: "get_file_size accepting_world (-1) [97] = 0"
    by (simp add: get_file_size_def accepting_world_def)
  have "complete_request accepting_world (replicate PACKET_SIZE 0) (get_file_size accepting_world (-1) [97])
      [97] \<lparr>sin_addr = 1, sin_port = 2\<rparr> = Some (Return (?b', ?src), ?w1)"
    using loop ack example_request_text
    by (simp add: complete_request_def time_now_def size Let_def) (simp add: accepting_world_def request_answer_def)
  moreover have "data_loop example_malloc_50 (get_file_size accepting_world (-1) [97]) ?src (snd (time_now ?w1))
      (start_sender [] ?b' (fst (time_now ?w1))) =
      Some (Return (start_sender [] ?b' (fst (time_now ?w1))), snd (time_now ?w1))"
    by (subst data_loop.simps) (simp add: start_sender_def size)
  ultimately show ?thesis
    by (rule success_without_finack [where k = 9])
      (use len in \<open>simp_all add: idle_line_def accepting_world_def time_now_def start_sender_def\<close>)
qed

end
