(* ===== verification/Ft_Exchange.thy ===== *)
theory Ft_Exchange
  imports Ft_Server Ft_Client
begin

text \<open>
  Where the two programs meet: the server reads from the client's request the name and the size
  the client put there, and a server that is delivered the client's packets in order and without
  loss ends with status 0 and the client's file.
\<close>

section \<open>The request\<close>

text \<open>The name without leading directories.\<close>

definition base_name :: "byte list \<Rightarrow> byte list" where
  "base_name name = rev (takeWhile (\<lambda>b. b \<noteq> 47) (rev name))"

text \<open>The buffer of the listening server, cleared and then filled with a datagram.\<close>

definition heard :: "buffer \<Rightarrow> buffer" where
  "heard p = put_at (replicate PACKET_SIZE 0) 0 p"

lemma base_name_split:
  assumes "47 \<in> set name"
  obtains xs ys where "name = xs @ 47 # ys" and "47 \<notin> set ys" and "base_name name = ys"
proof -
  obtain xs ys where s: "name = xs @ 47 # ys" "47 \<notin> set ys" using assms by (metis split_list_last)
  then have "base_name name = ys"
    using takeWhile_neq_stop [of 47 "rev ys" "rev xs"] by (simp add: base_name_def)
  with s that show thesis by blast
qed

lemma base_name_no_slash: "47 \<notin> set name \<Longrightarrow> base_name name = name"
  by (simp add: base_name_def takeWhile_neq_all)

lemma request_text_no_nul:
  assumes "0 \<notin> set name" and "0 \<le> fsize"
  shows "request_text name fsize = name @ 124 # print_ld fsize" and "0 \<notin> set (request_text name fsize)"
    and "47 \<notin> set (print_ld fsize)"
proof -
  show eq: "request_text name fsize = name @ 124 # print_ld fsize"
    using assms(1) by (simp add: request_text_def cstr_def takeWhile_neq_all)
  have "b \<noteq> 0 \<and> b \<noteq> 47" if "b \<in> set (print_ld fsize)" for b
    using that print_ld_isdigit [OF assms(2)] isdigit_not_sign by blast
  then show "0 \<notin> set (request_text name fsize)" and "47 \<notin> set (print_ld fsize)"
    using assms(1) by (auto simp: eq)
qed

lemma heard_request:
  assumes "0 \<notin> set name" and "0 \<le> fsize" and "length (request_text name fsize) < PAYLOAD_SIZE"
    and "length buffer = PACKET_SIZE"
  shows "wf_packet (request_packet (request_buffer buffer name fsize))"
    and "length (request_packet (request_buffer buffer name fsize)) \<le> PACKET_SIZE"
    and "pkt_cmd (request_packet (request_buffer buffer name fsize)) = CMD_WRQ"
    and "get_seq_num (request_packet (request_buffer buffer name fsize)) = 0"
    and "\<exists>k>0. drop HEADER_SIZE (heard (request_packet (request_buffer buffer name fsize))) =
           request_text name fsize @ replicate k 0"
    and "length (request_packet (request_buffer buffer name fsize)) = HEADER_SIZE + length (request_text name fsize)"
proof -
  let ?text = "request_text name fsize"
  let ?payload = "drop HEADER_SIZE (request_buffer buffer name fsize)"
  let ?p = "request_packet (request_buffer buffer name fsize)"
  obtain rest where pay: "?payload = ?text @ 0 # rest"
    using assms(4) by (simp add: request_buffer_def drop_put_at)
  then have "cstr ?payload = ?text" using request_text_no_nul(2) [OF assms(1,2)] by simp
  then have p: "?p = create_packet (\<lambda>_. 0) CMD_WRQ 0 (word_of_nat (length ?text)) (Some ?payload)"
    by (simp add: request_packet_def)
  have u: "unat (word_of_nat (length ?text) :: u16) = length ?text"
    using assms(3) by (intro unat_chunk_length) simp
  have fit: "\<And>q. Some ?payload = Some q \<Longrightarrow> unat (word_of_nat (length ?text) :: u16) \<le> length q"
    using u pay by auto
  note f = create_packet_fields [of "Some ?payload", OF fit]
  show wf: "wf_packet ?p" unfolding p using fit by (rule create_packet_wf)
  have len: "length ?p = 5 + length ?text" unfolding p using length_create_packet [of "Some ?payload", OF fit] u by simp
  then show "length ?p \<le> PACKET_SIZE" "length ?p = HEADER_SIZE + length ?text" using assms(3) by simp_all
  show "pkt_cmd ?p = CMD_WRQ" and "get_seq_num ?p = 0" unfolding p by (simp_all only: f)
  have "drop 5 ?p = ?text"
    unfolding p using create_packet_split(2) [of "Some ?payload", OF fit] u pay by simp
  then have "drop HEADER_SIZE (heard ?p) = ?text @ replicate (2043 - length ?text) 0"
    using len assms(3) by (simp add: heard_def put_at_def)
  then show "\<exists>k>0. drop HEADER_SIZE (heard ?p) = ?text @ replicate k 0"
    using assms(3) by (intro exI [of _ "2043 - length ?text"]) simp
qed

text \<open>What the server's parser makes of a payload that holds a name, the separator and a size.\<close>

lemma request_target_text:
  assumes "drop HEADER_SIZE b = name @ 124 # print_ld fsize @ replicate k 0" and "k > 0"
    and "0 \<notin> set name" and "124 \<notin> set name" and "0 \<le> fsize" and "fsize < 2 ^ 63"
  shows "request_target b = Some (base_name name, fsize)"
    and "strchr (drop HEADER_SIZE b) 124 = Some (length name)" and "terminated (drop HEADER_SIZE b)"
proof -
  let ?pay = "drop HEADER_SIZE b" and ?num = "print_ld fsize"
  obtain j where k: "replicate k (0 :: byte) = 0 # replicate j 0" using assms(2) by (cases k) auto
  have num: "0 \<notin> set ?num" "47 \<notin> set ?num"
    using request_text_no_nul [OF assms(3,5)] by auto
  have cs: "cstr ?pay = name @ 124 # ?num"
    using assms num cstr_append_nul [of "name @ 124 # ?num" "replicate j 0"] by (simp add: k)
  then show sep: "strchr ?pay 124 = Some (length name)" using strchr_first assms(4) by blast
  show "terminated ?pay" using assms(1) by (simp add: terminated_def k)
  let ?pay' = "?pay[length name := 0]"
  have pay': "?pay' = name @ 0 # ?num @ replicate k 0" using assms(1) by simp
  have scan: "sscanf_ld_c (cstr (drop (Suc (length name)) ?pay')) (-1) = (1, fsize)"
    using pay' num assms(5,6) sscanf_print_ld by (simp add: k)
  have "request_name ?pay' (strrchr ?pay 47) = base_name name"
  proof (cases "47 \<in> set name")
    case True
    then obtain xs ys where n: "name = xs @ 47 # ys" "47 \<notin> set ys" "base_name name = ys"
      by (rule base_name_split)
    have "strrchr ?pay 47 = Some (length xs)"
      using cs n num by (intro strrchr_last [of _ _ _ "ys @ 124 # ?num"]) auto
    moreover have "drop (Suc (length xs)) ?pay' = ys @ 0 # ?num @ replicate k 0"
      by (subst pay') (simp add: n(1))
    ultimately show ?thesis using n assms(3) by (simp add: request_name_def)
  next
    case False
    then have "strrchr ?pay 47 = None" unfolding strrchr_None_iff cs using num by simp
    moreover have "cstr ?pay' = name" unfolding pay' using assms(3) by simp
    ultimately show ?thesis using False by (simp add: request_name_def base_name_no_slash)
  qed
  with sep scan assms(5) show "request_target b = Some (base_name name, fsize)"
    by (simp add: request_target_def Let_def)
qed

text \<open>The name of the request is copied within its block: it has no directory, or blocks have a byte to spare.\<close>

definition spare_byte :: "world \<Rightarrow> byte list \<Rightarrow> bool" where
  "spare_byte w name \<longleftrightarrow> (47 \<in> set name \<longrightarrow> (\<forall>n. n < w_usable w n))"

lemma request_fits:
  assumes "drop HEADER_SIZE b = name @ 124 # print_ld fsize @ replicate k 0" and "k > 0" and "0 \<notin> set name"
    and "0 \<le> fsize" and "spare_byte w name"
  shows "\<not> name_overrun w payload (strrchr (drop HEADER_SIZE b) 47)"
proof (cases "47 \<in> set name")
  case True
  with assms(5) show ?thesis by (intro no_overrun) (simp add: spare_byte_def)
next
  case False
  obtain j where k: "replicate k (0 :: byte) = 0 # replicate j 0" using assms(2) by (cases k) auto
  have num: "0 \<notin> set (print_ld fsize)" "47 \<notin> set (print_ld fsize)"
    using request_text_no_nul [OF assms(3,4)] by auto
  have "cstr (drop HEADER_SIZE b) = name @ 124 # print_ld fsize"
    using assms num cstr_append_nul [of "name @ 124 # print_ld fsize" "replicate j 0"] by (simp add: k)
  with False num have "strrchr (drop HEADER_SIZE b) 47 = None" by (simp add: strrchr_None_iff)
  then show ?thesis by (simp add: name_overrun_def)
qed

section \<open>The next chunk\<close>

text \<open>A server that has the first \<open>E\<close> chunks and is delivered the next packet has the next chunk.\<close>

lemma handle_next_chunk:
  assumes has: "files w name = Some (take (PAYLOAD_SIZE * E) c)"
    and disk: "\<forall>k. PAYLOAD_SIZE \<le> w_fwrite w k" and junk: "length junk = PACKET_SIZE"
  obtains w' where
    "handle_packet w origin name (int (length c)) (int (min (PAYLOAD_SIZE * E) (length c)))
        (seq16 (Suc E)) (put_at junk 0 (file_packet c (Suc E))) =
      (Again (int (min (PAYLOAD_SIZE * Suc E) (length c))) (seq16 (Suc (Suc E))), w')"
    and "files w' name = Some (take (PAYLOAD_SIZE * Suc E) c)" and "same_answers w w'"
    and "newly_sent w w' = if_sent w (control CMD_ACK (seq16 (Suc (Suc E))))"
    and "sent w' = sent w @ map (Pair origin) (if_sent w (control CMD_ACK (seq16 (Suc (Suc E)))))"
proof -
  let ?p = "file_packet c (Suc E)" and ?read = "int (min (PAYLOAD_SIZE * E) (length c))"
  note fp = file_packet_fields [of c "Suc E"]
  have "min (PAYLOAD_SIZE * E) (length c) + length (chunk c (Suc E)) =
        min (PAYLOAD_SIZE * Suc E) (length c)" by (auto simp: chunk_def min_def)
  then have read: "?read + int (length (pkt_payload ?p)) = int (min (PAYLOAD_SIZE * Suc E) (length c))"
    unfolding fp(4) by (metis of_nat_add)
  have room: "unat (GETLEN ?p) \<le> w_fwrite w (n_fwrite w)"
    using length_chunk [of c "Suc E"] disk unfolding fp(3) by (meson le_trans)
  have content: "take (PAYLOAD_SIZE * E) c @ pkt_payload ?p = take (PAYLOAD_SIZE * Suc E) c"
    using payloads_upto [of c "Suc E"] payloads_upto [of c E] by (simp add: packets_between_Suc)
  have fit: "?read + int (length (pkt_payload ?p)) \<le> int (length c)" unfolding read by simp
  show thesis
    using handle_in_order [OF fp(5,6,1,2) room junk fit has] that
    unfolding read content by (metis seq16_Suc)
qed

section \<open>A run without losses\<close>

text \<open>The acknowledgements of packets \<open>E + 1\<close> to \<open>N\<close>; each names the packet expected next.\<close>

definition acks_between :: "nat \<Rightarrow> nat \<Rightarrow> buffer list" where
  "acks_between E N = map (\<lambda>a. control CMD_ACK (seq16 a)) [E + 2..<N + 2]"

lemma acks_between_Nil [simp]: "acks_between N N = []"
  by (simp add: acks_between_def)

lemma acks_between_Cons: "E < N \<Longrightarrow> acks_between E N = control CMD_ACK (seq16 (Suc (Suc E))) # acks_between (Suc E) N"
  by (simp add: acks_between_def upt_conv_Cons del: upt_Suc)

text \<open>A machine whose calls succeed and whose clock moves in steps below six seconds, without end.\<close>

definition works :: "world \<Rightarrow> bool" where
  "works w \<longleftrightarrow>
     (\<forall>k. w_send w k = Tx_ok) \<and> (\<forall>k. w_temp w k \<noteq> None) \<and> (\<forall>k. PAYLOAD_SIZE \<le> w_fwrite w k) \<and>
     (\<forall>n. w_fopen w n = None) \<and> w_socket w \<noteq> -1 \<and> (\<forall>a. w_bind w a \<noteq> -1) \<and>
     (\<forall>k. w_time w (Suc k) - w_time w k < 6) \<and> (\<forall>t m. \<exists>k\<ge>m. t \<le> w_time w k)"

definition incoming :: "world \<Rightarrow> buffer list \<Rightarrow> bool" where
  "incoming w ps \<longleftrightarrow> (\<forall>i<length ps. \<exists>src. w_recv w (n_recv w + i) = Rx_dgram src (ps ! i))"

lemma worksD:
  assumes "works w"
  shows "\<exists>fill. w_temp w k = Some fill" and "\<exists>k\<ge>m. t \<le> w_time w k"
  using assms by (simp_all add: works_def)

lemma works_same_answers: "works w \<Longrightarrow> same_answers w w' \<Longrightarrow> works w'"
  by (simp add: works_def same_answers_def)

lemma works_calm_world: "works (calm_world r)"
proof -
  have "\<exists>k\<ge>m. t \<le> int k" for t m by (rule exI [of _ "max m (nat t)"]) auto
  then show ?thesis by (simp add: works_def)
qed

lemma incoming_Cons:
  assumes "incoming w (p # ps)"
  shows "\<exists>src. w_recv w (n_recv w) = Rx_dgram src p"
    and "same_answers w w' \<Longrightarrow> n_recv w' = Suc (n_recv w) \<Longrightarrow> incoming w' ps"
  using assms by (fastforce simp: incoming_def same_answers_def)+

lemma next_datagram:
  assumes "works w" and "incoming w (p # ps)" and "p \<noteq> []" and "length p \<le> PACKET_SIZE"
    and "length b = PACKET_SIZE"
  obtains junk w' where "read_until_timeout w b a = Some (int (length p), put_at junk 0 p, w')"
    and "length junk = PACKET_SIZE" and "quiet w w'" and "n_recv w' = Suc (n_recv w)"
proof -
  let ?w2 = "w\<lparr>n_time := Suc (Suc (n_time w))\<rparr>"
  obtain fill where fill: "w_temp ?w2 (n_temp ?w2) = Some fill" using worksD(1) [OF assms(1)] by auto
  obtain src where src: "w_recv ?w2 (n_recv ?w2) = Rx_dgram src p"
    using incoming_Cons(1) [OF assms(2)] by auto
  let ?junk = "map fill [0..<PACKET_SIZE]"
  let ?w' = "?w2\<lparr>n_temp := Suc (n_temp w), n_recv := Suc (n_recv w)\<rparr>"
  have "read_only_from ?w2 b PACKET_SIZE a = (int (length p), put_at ?junk 0 p, ?w')"
    using read_only_from_dgram [OF fill src assms(5), of a] assms(4) by simp
  moreover have "w_time w (Suc (n_time w)) - w_time w (n_time w) < 6" using assms(1) by (simp add: works_def)
  ultimately have "read_until_timeout w b a = Some (int (length p), put_at ?junk 0 p, ?w')"
    using assms(3) by (simp add: read_until_timeout_def time_now_def read_poll.simps [of _ "w\<lparr>n_time := _\<rparr>"])
  then show thesis by (rule that) (simp_all add: quiet_def same_answers_def)
qed

lemma finish_transfer_returns:
  assumes "works w"
  shows "\<exists>w'. finish_transfer w b origin = Some (Return 0, w')"
proof -
  obtain t w1 where t: "time_now w = (t, w1)" by fastforce
  have "works w1" using works_same_answers [OF assms] quiet_time [OF t] by (simp add: quiet_def)
  then obtain k where "k \<ge> n_time w1" "t + ACK_TIMEOUT \<le> w_time w1 k"
    using worksD(2) by blast
  then have "\<exists>r. fin_loop t w1 b origin = Some r" by (intro fin_loop_returns) auto
  then show ?thesis by (auto simp: finish_transfer_def t)
qed

lemma receive_loop_step:
  assumes "works w" and "incoming w (p # ps)" and "p \<noteq> []" and "length p \<le> PACKET_SIZE"
    and "length b = PACKET_SIZE"
  obtains junk w1 where "length junk = PACKET_SIZE" and "quiet w w1" and "works w1"
    and "n_recv w1 = Suc (n_recv w)"
    and "receive_loop w b origin name fs read e =
      (case handle_packet w1 origin name fs read e (put_at junk 0 p) of (act, w2) \<Rightarrow>
         (case act of
            Again read' e' \<Rightarrow> receive_loop w2 (put_at junk 0 p) origin name fs read' e'
          | Fin_received \<Rightarrow> finish_transfer w2 (put_at junk 0 p) origin
          | Stop oc \<Rightarrow> Some (oc, w2)))"
proof -
  obtain junk w1 where r: "read_until_timeout w b origin = Some (int (length p), put_at junk 0 p, w1)"
    "length junk = PACKET_SIZE" "quiet w w1" "n_recv w1 = Suc (n_recv w)"
    using next_datagram [OF assms] by blast
  moreover have "works w1" using works_same_answers [OF assms(1)] r(3) by (simp add: quiet_def)
  ultimately show thesis using that by (simp add: receive_loop.simps [of w])
qed

lemma receive_loop_fin:
  assumes "works w" and "incoming w [control CMD_FIN 0]" and "files w name = Some c" and "length b = PACKET_SIZE"
  shows "\<exists>w'. receive_loop w b origin name (int (length c)) (int (length c)) e = Some (Return 0, w') \<and>
           files w' name = Some c \<and> (\<exists>k. sent w' = sent w @ map (Pair origin) (replicate k (control CMD_FINACK 0)))"
proof -
  let ?fin = "control CMD_FIN 0" and ?n = "int (length c)"
  obtain junk w1 where s: "length junk = PACKET_SIZE" "quiet w w1" "works w1"
    "receive_loop w b origin name ?n ?n e =
      (case handle_packet w1 origin name ?n ?n e (put_at junk 0 ?fin) of (act, w2) \<Rightarrow>
         (case act of
            Again read' e' \<Rightarrow> receive_loop w2 (put_at junk 0 ?fin) origin name ?n read' e'
          | Fin_received \<Rightarrow> finish_transfer w2 (put_at junk 0 ?fin) origin
          | Stop oc \<Rightarrow> Some (oc, w2)))"
    by (rule receive_loop_step [OF assms(1,2) _ _ assms(4)]) (auto simp flip: length_greater_0_conv)
  obtain w' where w': "finish_transfer w1 (put_at junk 0 ?fin) origin = Some (Return 0, w')"
    using finish_transfer_returns [OF s(3)] by blast
  moreover have "files w' name = Some c" using finish_transfer_frame [OF w'] s(2) assms(3) by (simp add: quiet_def)
  moreover have "\<exists>k. sent w' = sent w @ map (Pair origin) (replicate k (control CMD_FINACK 0))"
    using finish_transfer_sent [OF w'] s(2) by (simp add: quiet_def map_replicate)
  ultimately show ?thesis using s(4) handle_fin [OF s(1) refl, of w1 origin name ?n e 0] by simp
qed

lemma receive_loop_chunk:
  assumes "works w" and inc: "incoming w (file_packet c (Suc E) # ps)"
    and "files w name = Some (take (PAYLOAD_SIZE * E) c)" and "length b = PACKET_SIZE"
  shows "\<exists>w' b'. receive_loop w b origin name (int (length c)) (int (min (PAYLOAD_SIZE * E) (length c))) (seq16 (Suc E)) =
             receive_loop w' b' origin name (int (length c)) (int (min (PAYLOAD_SIZE * Suc E) (length c))) (seq16 (Suc (Suc E))) \<and>
           works w' \<and> incoming w' ps \<and> files w' name = Some (take (PAYLOAD_SIZE * Suc E) c) \<and>
           length b' = PACKET_SIZE \<and> sent w' = sent w @ [(origin, control CMD_ACK (seq16 (Suc (Suc E))))]"
proof -
  let ?p = "file_packet c (Suc E)" and ?n = "int (length c)" and ?read = "int (min (PAYLOAD_SIZE * E) (length c))"
  have "?p \<noteq> []" using wf_packet_length [OF file_packet_fields(5), of c "Suc E"] by auto
  then obtain junk w1 where s: "length junk = PACKET_SIZE" "quiet w w1" "works w1" "n_recv w1 = Suc (n_recv w)"
    "receive_loop w b origin name ?n ?read (seq16 (Suc E)) =
      (case handle_packet w1 origin name ?n ?read (seq16 (Suc E)) (put_at junk 0 ?p) of (act, w2) \<Rightarrow>
         (case act of
            Again read' e' \<Rightarrow> receive_loop w2 (put_at junk 0 ?p) origin name ?n read' e'
          | Fin_received \<Rightarrow> finish_transfer w2 (put_at junk 0 ?p) origin
          | Stop oc \<Rightarrow> Some (oc, w2)))"
    using receive_loop_step [OF assms(1) inc _ file_packet_fields(6) assms(4)] by blast
  have f1: "files w1 name = Some (take (PAYLOAD_SIZE * E) c)" using s(2) assms(3) by (simp add: quiet_def)
  have disk: "\<forall>k. PAYLOAD_SIZE \<le> w_fwrite w1 k" using s(3) by (simp add: works_def)
  obtain w2 where h: "handle_packet w1 origin name ?n ?read (seq16 (Suc E)) (put_at junk 0 ?p) =
      (Again (int (min (PAYLOAD_SIZE * Suc E) (length c))) (seq16 (Suc (Suc E))), w2)"
    "files w2 name = Some (take (PAYLOAD_SIZE * Suc E) c)" "same_answers w1 w2"
    "sent w2 = sent w1 @ map (Pair origin) (if_sent w1 (control CMD_ACK (seq16 (Suc (Suc E)))))"
    using handle_next_chunk [OF f1 disk s(1)] by blast
  have "same_answers w w2" using s(2) h(3) by (auto simp: quiet_def same_answers_def)
  then have "incoming w2 ps"
    using incoming_Cons(2) [OF inc] handle_packet_frame(3) [OF h(1)] s(4) by simp
  moreover have "sent w2 = sent w @ [(origin, control CMD_ACK (seq16 (Suc (Suc E))))]"
    using h(4) s(2,3) by (simp add: quiet_def works_def if_sent_def)
  moreover have "length (put_at junk 0 ?p) = PACKET_SIZE" using file_packet_fields(6) [of c "Suc E"] s(1) by simp
  ultimately show ?thesis using s(5) h(1,2) works_same_answers [OF s(3) h(3)] by auto
qed

lemma receive_loop_file:
  assumes "works w" and "incoming w (packets_between c E N @ [control CMD_FIN 0])"
    and "files w name = Some (take (PAYLOAD_SIZE * E) c)" and "length b = PACKET_SIZE"
    and "E \<le> N" and "length c \<le> PAYLOAD_SIZE * N"
  shows "\<exists>w'. receive_loop w b origin name (int (length c)) (int (min (PAYLOAD_SIZE * E) (length c)))
           (seq16 (Suc E)) = Some (Return 0, w') \<and> files w' name = Some c \<and>
           (\<exists>k. sent w' = sent w @ map (Pair origin) (acks_between E N @ replicate k (control CMD_FINACK 0)))"
  using assms
proof (induction "N - E" arbitrary: w b E)
  case 0
  then show ?case using receive_loop_fin [of w name c b origin "seq16 (Suc E)"] by simp
next
  case (Suc d)
  have "E < N" using Suc(2) by simp
  then have "incoming w (file_packet c (Suc E) # packets_between c (Suc E) N @ [control CMD_FIN 0])"
    using Suc.prems(2) by (simp add: packets_between_Cons)
  then obtain w' b' where step: "receive_loop w b origin name (int (length c)) (int (min (PAYLOAD_SIZE * E) (length c))) (seq16 (Suc E)) =
      receive_loop w' b' origin name (int (length c)) (int (min (PAYLOAD_SIZE * Suc E) (length c))) (seq16 (Suc (Suc E)))"
    "works w'" "incoming w' (packets_between c (Suc E) N @ [control CMD_FIN 0])"
    "files w' name = Some (take (PAYLOAD_SIZE * Suc E) c)" "length b' = PACKET_SIZE"
    "sent w' = sent w @ [(origin, control CMD_ACK (seq16 (Suc (Suc E))))]"
    using receive_loop_chunk [OF Suc.prems(1) _ Suc.prems(3,4)] by blast
  show ?case
    using Suc(1) [OF _ step(2,3,4,5)] Suc(2) Suc.prems(6) \<open>E < N\<close> step(1,6) acks_between_Cons [OF \<open>E < N\<close>] by auto
qed

section \<open>From the request to the end\<close>

text \<open>The client's request takes the server to its receive loop, with the file created and the request acknowledged.\<close>

lemma request_reaches_loop:
  assumes "works w" and "files w (base_name name) = None"
    and "0 \<notin> set name" and "124 \<notin> set name" and "0 \<le> fsize" and "fsize < 2 ^ 63"
    and "length (request_text name fsize) < PAYLOAD_SIZE" and "length buffer = PACKET_SIZE" and "spare_byte w name"
  obtains b w2 where "copy_file_server w (heard (request_packet (request_buffer buffer name fsize))) origin =
      receive_loop w2 b origin (base_name name) fsize 0 1"
    and "length b = PACKET_SIZE" and "same_answers w w2" and "n_recv w2 = n_recv w"
    and "n_time w2 = Suc (n_time w)" and "files w2 = (files w)(base_name name \<mapsto> [])"
    and "sent w2 = sent w @ [(origin, control CMD_ACK 1)]"
proof -
  let ?name = "base_name name" and ?p = "request_packet (request_buffer buffer name fsize)"
  note hr = heard_request [OF assms(3,5,7,8)]
  obtain k where k: "k > 0" "drop HEADER_SIZE (heard ?p) = request_text name fsize @ replicate k 0"
    using hr(5) by blast
  then have pay: "drop HEADER_SIZE (heard ?p) = name @ 124 # print_ld fsize @ replicate k 0"
    by (simp add: request_text_no_nul(1) [OF assms(3,5)])
  note rt = request_target_text [OF pay k(1) assms(3-6)] and fits = request_fits [OF pay k(1) assms(3,5,9)]
  have cmd: "\<not> request_refused (heard ?p)"
    using received_packet(1) [OF hr(1), of "replicate PACKET_SIZE 0"] hr(2,3)
    by (simp add: heard_def request_refused_def pkt_cmd_def)
  have sock: "fst (setup_socket w 0) = 0" using assms(1) by (simp add: setup_socket_def works_def)
  let ?w1 = "w\<lparr>errno := ENOENT, files := (files w)(?name \<mapsto> []), n_time := Suc (n_time w)\<rparr>"
  let ?w2 = "?w1\<lparr>n_send := Suc (n_send w), sent := sent w @ [(origin, control CMD_ACK 1)]\<rparr>"
  let ?b = "put_at (heard ?p) HEADER_SIZE ((drop HEADER_SIZE (heard ?p))[length name := 0])"
  have ack: "ack_request (w_time w (n_time w)) ?w1 origin (control CMD_ACK 1) ?name = Some (Return (), ?w2)"
    using ack_request_once [of ?w1 "control CMD_ACK 1"] assms(1) by (simp add: works_def)
  have "copy_file_server w (heard ?p) origin = receive_loop ?w2 ?b origin ?name fsize 0 1"
    using copy_file_server_request [OF sock cmd rt(3,2,1) assms(2) fits, of origin] assms(1) ack
    by (simp add: serve_file_def fopen_w_def time_now_def works_def)
  moreover have "length ?b = PACKET_SIZE" using hr(2) by (simp add: heard_def)
  ultimately show thesis by (rule that) (simp_all add: same_answers_def)
qed

lemma served_run:
  assumes "works w" and "files w (base_name name) = None"
    and "0 \<notin> set name" and "124 \<notin> set name" and "int (length content) < 2 ^ 63"
    and "length (request_text name (int (length content))) < PAYLOAD_SIZE" and "length buffer = PACKET_SIZE"
    and "incoming w (packets_between content 0 N @ [control CMD_FIN 0])"
    and "length content \<le> PAYLOAD_SIZE * N" and "spare_byte w name"
  shows "\<exists>w'. copy_file_server w (heard (request_packet (request_buffer buffer name (int (length content)))))
           origin = Some (Return 0, w') \<and> files w' (base_name name) = Some content \<and>
         (\<exists>k. sent w' = sent w @ map (Pair origin)
            (control CMD_ACK 1 # acks_between 0 N @ replicate k (control CMD_FINACK 0)))"
proof -
  have "0 \<le> int (length content)" by simp
  then obtain b w2 where r: "copy_file_server w (heard (request_packet (request_buffer buffer name
        (int (length content))))) origin = receive_loop w2 b origin (base_name name) (int (length content)) 0 1"
    "length b = PACKET_SIZE" "same_answers w w2" "n_recv w2 = n_recv w"
    "files w2 = (files w)(base_name name \<mapsto> [])" "sent w2 = sent w @ [(origin, control CMD_ACK 1)]"
    using request_reaches_loop [OF assms(1-4) _ assms(5-7,10)] by metis
  have "\<exists>w'. receive_loop w2 b origin (base_name name) (int (length content))
      (int (min (PAYLOAD_SIZE * 0) (length content))) (seq16 (Suc 0)) = Some (Return 0, w') \<and>
      files w' (base_name name) = Some content \<and>
      (\<exists>k. sent w' = sent w2 @ map (Pair origin) (acks_between 0 N @ replicate k (control CMD_FINACK 0)))"
  proof (rule receive_loop_file)
    show "works w2" using works_same_answers [OF assms(1) r(3)] .
    show "incoming w2 (packets_between content 0 N @ [control CMD_FIN 0])"
      using assms(8) r(3,4) by (simp add: incoming_def same_answers_def)
  qed (use assms(9) r in simp_all)
  with r(1,6) show ?thesis by (auto simp: seq16_def)
qed

lemma silent_run:
  assumes "works w" and "files w (base_name name) = None"
    and "0 \<notin> set name" and "124 \<notin> set name" and "0 \<le> fsize" and "fsize < 2 ^ 63"
    and "length (request_text name fsize) < PAYLOAD_SIZE" and "length buffer = PACKET_SIZE"
    and "silent w" and "spare_byte w name"
  shows "\<exists>w'. copy_file_server w (heard (request_packet (request_buffer buffer name fsize))) origin =
           Some (Exit TIMEOUT, w') \<and> files w' = files w"
proof -
  obtain b w2 where r: "copy_file_server w (heard (request_packet (request_buffer buffer name fsize))) origin =
      receive_loop w2 b origin (base_name name) fsize 0 1"
    "length b = PACKET_SIZE" "same_answers w w2" "n_recv w2 = n_recv w"
    "files w2 = (files w)(base_name name \<mapsto> [])"
    using request_reaches_loop [OF assms(1-8,10)] by metis
  have s: "silent w2" using assms(9) r(3,4) by (simp add: silent_def same_answers_def)
  have "works w2" using works_same_answers [OF assms(1) r(3)] .
  then obtain k where k: "k \<ge> Suc (n_time w2)" "w_time w2 (n_time w2) + 6 \<le> w_time w2 k"
    using worksD(2) by blast
  then have "n_time w2 < k" "6 \<le> w_time w2 k - w_time w2 (n_time w2)" by auto
  with receive_loop_silent [OF s r(2), of k origin "base_name name" fsize 0 1] r assms(2)
  show ?thesis by (auto simp: fun_upd_idem)
qed

section \<open>Properties\<close>

text \<open>
  C16: the request the client sends for a file name and a size is accepted by the server's checks and
  parsed back to the same size and to the name without its leading directories, for every name
  without a zero byte or a separator whose request fits into a packet.
\<close>

theorem request_round_trip:
  assumes "0 \<notin> set name" and "124 \<notin> set name" and "0 \<le> fsize" and "fsize < 2 ^ 63"
    and "length (request_text name fsize) < PAYLOAD_SIZE" and "length buffer = PACKET_SIZE"
  shows "\<not> request_refused (heard (request_packet (request_buffer buffer name fsize))) \<and>
         terminated (drop HEADER_SIZE (heard (request_packet (request_buffer buffer name fsize)))) \<and>
         request_target (heard (request_packet (request_buffer buffer name fsize))) =
           Some (base_name name, fsize)"
proof -
  let ?p = "request_packet (request_buffer buffer name fsize)"
  note hr = heard_request [OF assms(1,3,5,6)]
  obtain k where k: "k > 0" "drop HEADER_SIZE (heard ?p) = request_text name fsize @ replicate k 0"
    using hr(5) by blast
  then have "drop HEADER_SIZE (heard ?p) = name @ 124 # print_ld fsize @ replicate k 0"
    by (simp add: request_text_no_nul(1) [OF assms(1,3)])
  note rt = request_target_text [OF this k(1) assms(1-4)]
  have "pkt_cmd (heard ?p) = CMD_WRQ"
    using received_packet(1) [OF hr(1), of "replicate PACKET_SIZE 0"] hr(2,3) by (simp add: heard_def)
  with rt show ?thesis by (simp add: request_refused_def pkt_cmd_def)
qed

theorem request_round_trip_witness:
  "\<not> request_refused (heard (request_packet (request_buffer (replicate PACKET_SIZE 0) [97, 47, 98] 6))) \<and>
   terminated (drop HEADER_SIZE (heard (request_packet (request_buffer (replicate PACKET_SIZE 0) [97, 47, 98] 6)))) \<and>
   request_target (heard (request_packet (request_buffer (replicate PACKET_SIZE 0) [97, 47, 98] 6))) =
     Some (base_name [97, 47, 98], 6)"
  by (rule request_round_trip)
    (simp_all add: request_text_def cstr_def print_ld_def digits.simps)

text \<open>
  A server that hears the client's request for a file with a new name, and then receives the
  file's packets in order and the client's FIN, ends with status 0 and has a file of that name with
  exactly the client's content, whatever its length and number of packets.
\<close>

theorem server_receives_file:
  assumes "works w" and "files w (base_name name) = None"
    and "0 \<notin> set name" and "124 \<notin> set name" and "int (length content) < 2 ^ 63"
    and "length (request_text name (int (length content))) < PAYLOAD_SIZE" and "length buffer = PACKET_SIZE"
    and "incoming w (packets_between content 0 N @ [control CMD_FIN 0])"
    and "length content \<le> PAYLOAD_SIZE * N" and "spare_byte w name"
  shows "\<exists>w'. copy_file_server w (heard (request_packet (request_buffer buffer name (int (length content)))))
           origin = Some (Return 0, w') \<and> files w' (base_name name) = Some content"
  using served_run [OF assms] by blast

text \<open>
  When nothing follows the client's request, the server gives up after its time-out, exits
  with the time-out code and leaves its directory as it was before the request.
\<close>

theorem abandoned_request_leaves_no_trace:
  assumes "works w" and "files w (base_name name) = None"
    and "0 \<notin> set name" and "124 \<notin> set name" and "0 \<le> fsize" and "fsize < 2 ^ 63"
    and "length (request_text name fsize) < PAYLOAD_SIZE" and "length buffer = PACKET_SIZE"
    and "silent w" and "spare_byte w name"
  shows "\<exists>w'. copy_file_server w (heard (request_packet (request_buffer buffer name fsize))) origin =
           Some (Exit TIMEOUT, w') \<and> files w' = files w"
  using assms by (rule silent_run)

text \<open>A run of one packet: the request for a file of three bytes, its data packet, and the FIN.\<close>

definition example_datagrams :: "nat \<Rightarrow> recv_result" where
  "example_datagrams k =
     (if k = 0 then Rx_dgram \<lparr>sin_addr = 1, sin_port = 2\<rparr> (file_packet [1, 2, 3] 1)
      else Rx_dgram \<lparr>sin_addr = 1, sin_port = 2\<rparr> (control CMD_FIN 0))"

lemma example_incoming:
  "incoming (calm_world example_datagrams) (packets_between [1, 2, 3] 0 1 @ [control CMD_FIN 0])"
  by (auto simp: incoming_def example_datagrams_def packets_between_def nth_Cons split: nat.splits)

lemma example_text:
  "length (request_text [100, 47, 97] (int (length [1, 2, 3 :: byte]))) < PAYLOAD_SIZE"
  by (simp add: request_text_def cstr_def print_ld_def digits.simps)

theorem server_receives_file_witness:
  "\<exists>w'. copy_file_server (calm_world example_datagrams)
       (heard (request_packet (request_buffer (replicate PACKET_SIZE 0) [100, 47, 97] (int (length [1, 2, 3 :: byte])))))
       \<lparr>sin_addr = 1, sin_port = 2\<rparr> = Some (Return 0, w') \<and>
     files w' (base_name [100, 47, 97]) = Some [1, 2, 3]"
  using server_receives_file [OF works_calm_world _ _ _ _ example_text _ example_incoming]
  by (simp add: spare_byte_def)

section \<open>Examples\<close>

definition example_origin :: sockaddr_in where
  "example_origin = \<lparr>sin_addr = 1, sin_port = 2\<rparr>"

definition example_world :: world where
  "example_world = calm_world example_datagrams\<lparr>files := [[120] \<mapsto> [5]]\<rparr>"

definition silent_world :: world where
  "silent_world = calm_world (\<lambda>_. Rx_error EAGAIN)"

definition example_request :: buffer where
  "example_request = heard (request_packet (request_buffer (replicate PACKET_SIZE 0) [100, 47, 97] 3))"

lemma example_request_length: "length example_request = PACKET_SIZE"
  using heard_request(2) [of "[100, 47, 97]" 3 "replicate PACKET_SIZE 0"] example_text
  by (simp add: example_request_def heard_def)

lemma example_run: "\<exists>w'. copy_file_server example_world example_request example_origin = Some (Return 0, w')"
proof -
  have w: "works example_world"
    using works_same_answers [OF works_calm_world [of example_datagrams], of example_world]
    by (simp add: same_answers_def example_world_def)
  have i: "incoming example_world (packets_between [1, 2, 3] 0 1 @ [control CMD_FIN 0])"
    using example_incoming by (simp add: incoming_def example_world_def)
  show ?thesis
    using served_run [OF w _ _ _ _ example_text _ i, of "replicate PACKET_SIZE 0" example_origin]
    by (auto simp: example_request_def example_world_def base_name_def spare_byte_def)
qed

lemma silent_example_run:
  "\<exists>w'. copy_file_server silent_world example_request example_origin = Some (Exit TIMEOUT, w')"
  using silent_run [OF works_calm_world [of "\<lambda>_. Rx_error EAGAIN"] _ _ _ _ _ example_text,
      of "replicate PACKET_SIZE 0" example_origin]
  by (auto simp: example_request_def silent_world_def silent_def spare_byte_def)

theorem abandoned_request_leaves_no_trace_witness:
  "\<exists>w'. copy_file_server (calm_world (\<lambda>_. Rx_error EAGAIN))
       (heard (request_packet (request_buffer (replicate PACKET_SIZE 0) [100, 47, 97]
         (int (length [1, 2, 3 :: byte])))))
       example_origin = Some (Exit TIMEOUT, w') \<and> files w' = files (calm_world (\<lambda>_. Rx_error EAGAIN))"
  using abandoned_request_leaves_no_trace [OF works_calm_world _ _ _ _ _ example_text]
  by (simp add: silent_def spare_byte_def)

theorem server_success_complete_witness:
  "\<exists>w' name filesize ks ps.
     copy_file_server example_world example_request example_origin = Some (Return 0, w') \<and>
     request_target example_request = Some (name, filesize) \<and>
     files example_world name = None \<and> complete_file w' name filesize ks ps"
  using example_run server_success_complete [OF _ example_request_length] by blast

theorem server_keeps_existing_files_witness:
  "\<exists>w'. copy_file_server example_world example_request example_origin = Some (Return 0, w') \<and>
     (\<forall>m c. files example_world m = Some c \<longrightarrow> files w' m = Some c) \<and>
     dom (files w') \<subseteq> dom (files example_world) \<union> fst ` set_option (request_target example_request)"
  using example_run server_keeps_existing_files [OF _ example_request_length] by blast

theorem server_exit_discards_file_witness:
  "\<exists>w'. copy_file_server silent_world example_request example_origin = Some (Exit TIMEOUT, w') \<and>
     (files w' = files silent_world \<or>
      (\<exists>name filesize. request_target example_request = Some (name, filesize) \<and> files w' name = None))"
  using silent_example_run server_exit_discards_file [OF _ example_request_length] by blast

text \<open>A FIN packet with number 0 whose payload reads \<^verbatim>\<open>a|0\<close>.\<close>

definition odd_request :: buffer where
  "odd_request = heard (create_packet (\<lambda>_. 0) CMD_FIN 0 3 (Some [97, 124, 48]))"

lemma odd_request_bytes: "odd_request = [6, 0, 0, 0, 3, 97, 124, 48] @ replicate 2040 0"
proof -
  have "create_packet (\<lambda>_. 0) CMD_FIN 0 3 (Some [97, 124, 48]) = [6, 0, 0, 0, 3, 97, 124, 48]"
    by code_simp
  then show ?thesis by (simp add: odd_request_def heard_def put_at_def)
qed

lemma odd_request_target:
  "request_target odd_request = Some ([97], 0)" "strchr (drop HEADER_SIZE odd_request) 124 = Some 1"
  "terminated (drop HEADER_SIZE odd_request)"
proof -
  have "print_ld 0 = [48]" by (simp add: print_ld_def digits.simps digit_byte_def)
  then have "drop HEADER_SIZE odd_request = [97] @ 124 # print_ld 0 @ replicate 2040 0"
    by (simp add: odd_request_bytes)
  note rt = request_target_text [OF this]
  show "request_target odd_request = Some ([97], 0)" using rt(1) by (simp add: base_name_def)
  show "strchr (drop HEADER_SIZE odd_request) 124 = Some 1" using rt(2) by simp
  show "terminated (drop HEADER_SIZE odd_request)" using rt(3) by simp
qed

theorem server_serves_any_command_witness:
  "copy_file_server silent_world odd_request example_origin =
   serve_file (silent_world\<lparr>errno := ENOENT\<rparr>)
     (put_at odd_request HEADER_SIZE ((drop HEADER_SIZE odd_request)[1 := 0])) example_origin [97] 0"
proof (rule server_serves_any_command)
  show "get_seq_num odd_request = 0"
    by (simp add: odd_request_bytes get_seq_num_def load16_def ntohs_def join16_def hi8_def lo8_def)
  show "\<not> name_overrun silent_world ((drop HEADER_SIZE odd_request)[1 := 0]) (strrchr (drop HEADER_SIZE odd_request) 47)"
    by (rule no_overrun) (simp add: silent_world_def)
qed (simp_all add: odd_request_target [simplified] silent_world_def setup_socket_def)

end
