(* ===== verification/Ft_Transfer.thy ===== *)
theory Ft_Transfer
  imports Ft_Exchange
begin

text \<open>
  The client's data phase and the server's receive loop, joined by two channels that keep the
  order of datagrams but may lose and duplicate them. The steps call the functions of the two
  programs: \<open>fill_window\<close>, \<open>send_all\<close> and \<open>handle_reply\<close> on one side, \<open>handle_packet\<close> on the other.
  Sequence numbers are 16 bits wide and wrap around; the invariant speaks about unbounded packet
  numbers and shows that a window of 50 keeps them apart.
\<close>

section \<open>The joint system\<close>

text \<open>
  \<open>y_filling\<close> is true at the head of the client's outer loop and false while it looks for
  replies; \<open>y_gone\<close> is the exit status of a client that has ended, \<open>y_end\<close> what the server did when
  it left its receive loop. The clocks are not part of the system: a time-out may happen whenever
  the process looks at its clock. A look at the clock, or at a socket that has nothing for the
  process, is a step of its own (\<open>client_looks\<close>, \<open>server_looks\<close>).
\<close>

record system =
  y_client :: world
  y_sender :: sender
  y_filling :: bool
  y_gone :: "int option"
  y_server :: world
  y_read :: int
  y_expected :: u16
  y_end :: "next_action option"
  y_c2s :: "buffer list"
  y_s2c :: "buffer list"

text \<open>The constants of one transfer: the file, its name on the server, the allocator, the addresses.\<close>

record transfer =
  t_content :: buffer
  t_name :: "byte list"
  t_malloc :: "buffer heap \<Rightarrow> nat option"
  t_target :: sockaddr_in
  t_origin :: sockaddr_in

definition t_size :: "transfer \<Rightarrow> int" where
  "t_size t = int (length (t_content t))"

inductive step :: "transfer \<Rightarrow> system \<Rightarrow> system \<Rightarrow> bool" for t where
  client_round:
    "y_gone y = None \<Longrightarrow> y_filling y \<Longrightarrow> s_written (y_sender y) \<noteq> t_size t \<Longrightarrow>
     fill_window (t_malloc t) (t_size t) (y_sender y) = Some (Return s') \<Longrightarrow>
     send_all (y_client y) (t_target t) (s_heap s') (s_packets s') = Some (Return 0, w') \<Longrightarrow>
     step t y (y\<lparr>y_client := w', y_sender := s', y_filling := False,
                 y_c2s := y_c2s y @ newly_sent (y_client y) w'\<rparr>)"
| client_send_fails:
    "y_gone y = None \<Longrightarrow> y_filling y \<Longrightarrow> s_written (y_sender y) \<noteq> t_size t \<Longrightarrow>
     fill_window (t_malloc t) (t_size t) (y_sender y) = Some (Return s') \<Longrightarrow>
     send_all (y_client y) (t_target t) (s_heap s') (s_packets s') = Some (Return 1, w') \<Longrightarrow>
     step t y (y\<lparr>y_client := w', y_sender := s', y_filling := False,
                 y_c2s := y_c2s y @ newly_sent (y_client y) w', y_gone := Some CLIENT_RUNTIME_ERROR\<rparr>)"
| client_timeout:
    "y_gone y = None \<Longrightarrow> \<not> y_filling y \<Longrightarrow> step t y (y\<lparr>y_gone := Some CLIENT_TIMEOUT\<rparr>)"
| client_reply:
    "y_gone y = None \<Longrightarrow> \<not> y_filling y \<Longrightarrow> y_s2c y = p # rest \<Longrightarrow> length junk = PACKET_SIZE \<Longrightarrow>
     handle_reply (t_size t) (y_client y)
       ((y_sender y)\<lparr>s_read := int (length p), s_buffer := put_at junk 0 p\<rparr>) =
       Some (Next_reply s', w') \<Longrightarrow>
     step t y (y\<lparr>y_client := w', y_sender := s', y_s2c := rest\<rparr>)"
| client_leaves_loop:
    "y_gone y = None \<Longrightarrow> \<not> y_filling y \<Longrightarrow> y_s2c y = p # rest \<Longrightarrow> length junk = PACKET_SIZE \<Longrightarrow>
     handle_reply (t_size t) (y_client y)
       ((y_sender y)\<lparr>s_read := int (length p), s_buffer := put_at junk 0 p\<rparr>) =
       Some (Leave_loop s', w') \<Longrightarrow>
     step t y (y\<lparr>y_client := w', y_sender := s', y_filling := True, y_s2c := rest\<rparr>)"
| client_quits:
    "y_gone y = None \<Longrightarrow> \<not> y_filling y \<Longrightarrow> y_s2c y = p # rest \<Longrightarrow> length junk = PACKET_SIZE \<Longrightarrow>
     handle_reply (t_size t) (y_client y)
       ((y_sender y)\<lparr>s_read := int (length p), s_buffer := put_at junk 0 p\<rparr>) =
       Some (Quit (Exit c), w') \<Longrightarrow>
     step t y (y\<lparr>y_client := w', y_gone := Some c, y_s2c := rest\<rparr>)"
| client_idle:
    "y_gone y = None \<Longrightarrow> \<not> y_filling y \<Longrightarrow> length junk = PACKET_SIZE \<Longrightarrow>
     step t y (y\<lparr>y_sender := (y_sender y)\<lparr>s_read := -1, s_buffer := junk\<rparr>, y_filling := True\<rparr>)"
| client_fin:
    "y_gone y = None \<Longrightarrow> y_filling y \<Longrightarrow> s_written (y_sender y) = t_size t \<Longrightarrow>
     send_packet (y_client y) (t_target t) (control CMD_FIN 0) = (r, w') \<Longrightarrow>
     step t y (y\<lparr>y_client := w', y_c2s := y_c2s y @ newly_sent (y_client y) w'\<rparr>)"
| client_ends:
    "y_gone y = None \<Longrightarrow> y_filling y \<Longrightarrow> s_written (y_sender y) = t_size t \<Longrightarrow>
     step t y (y\<lparr>y_gone := Some 0\<rparr>)"
| server_again:
    "y_end y = None \<Longrightarrow> y_c2s y = p # rest \<Longrightarrow> length junk = PACKET_SIZE \<Longrightarrow>
     handle_packet (y_server y) (t_origin t) (t_name t) (t_size t) (y_read y) (y_expected y)
       (put_at junk 0 p) = (Again r e, w') \<Longrightarrow>
     step t y (y\<lparr>y_server := w', y_read := r, y_expected := e, y_c2s := rest,
                 y_s2c := y_s2c y @ newly_sent (y_server y) w'\<rparr>)"
| server_end:
    "y_end y = None \<Longrightarrow> y_c2s y = p # rest \<Longrightarrow> length junk = PACKET_SIZE \<Longrightarrow>
     handle_packet (y_server y) (t_origin t) (t_name t) (t_size t) (y_read y) (y_expected y)
       (put_at junk 0 p) = (act, w') \<Longrightarrow> (\<And>r e. act \<noteq> Again r e) \<Longrightarrow>
     step t y (y\<lparr>y_server := w', y_end := Some act, y_c2s := rest,
                 y_s2c := y_s2c y @ newly_sent (y_server y) w'\<rparr>)"
| server_timeout:
    "y_end y = None \<Longrightarrow>
     step t y (y\<lparr>y_server := unlink_file (y_server y) (t_name t), y_end := Some (Stop (Exit TIMEOUT))\<rparr>)"
| client_looks: "quiet (y_client y) w' \<Longrightarrow> step t y (y\<lparr>y_client := w'\<rparr>)"
| server_looks: "quiet (y_server y) w' \<Longrightarrow> step t y (y\<lparr>y_server := w'\<rparr>)"
| lose_data: "y_c2s y = xs @ p # ys \<Longrightarrow> step t y (y\<lparr>y_c2s := xs @ ys\<rparr>)"
| lose_reply: "y_s2c y = xs @ p # ys \<Longrightarrow> step t y (y\<lparr>y_s2c := xs @ ys\<rparr>)"
| duplicate_data: "y_c2s y = xs @ p # ys \<Longrightarrow> step t y (y\<lparr>y_c2s := xs @ p # p # ys\<rparr>)"
| duplicate_reply: "y_s2c y = xs @ p # ys \<Longrightarrow> step t y (y\<lparr>y_s2c := xs @ p # p # ys\<rparr>)"

text \<open>
  The start: the server has created the file and sent its acknowledgement of the request some
  number of times, the client has an empty window and the file opened at its beginning.
\<close>

definition start_system :: "transfer \<Rightarrow> system \<Rightarrow> bool" where
  "start_system t y \<longleftrightarrow>
     (\<exists>buffer now k. length buffer = PACKET_SIZE \<and>
        y_sender y = start_sender (t_content t) buffer now \<and>
        y_s2c y = replicate k (control CMD_ACK 1)) \<and>
     y_filling y \<and> files (y_server y) (t_name t) = Some [] \<and> y_read y = 0 \<and> y_expected y = 1 \<and>
     y_gone y = None \<and> y_end y = None \<and> y_c2s y = [] \<and>
     (\<forall>k. PAYLOAD_SIZE \<le> w_fwrite (y_server y) k)"

inductive reachable :: "transfer \<Rightarrow> system \<Rightarrow> bool" for t where
  start: "start_system t y \<Longrightarrow> reachable t y"
| more: "reachable t y \<Longrightarrow> step t y y' \<Longrightarrow> reachable t y'"

section \<open>The invariant\<close>

datatype message = Data nat | Fin

fun wire :: "buffer \<Rightarrow> message \<Rightarrow> buffer" where
  "wire content (Data i) = file_packet content i"
| "wire content Fin = control CMD_FIN 0"

text \<open>Packets in flight: an older packet in front is never a whole window ahead of a later one.\<close>

fun near :: "message \<Rightarrow> message \<Rightarrow> bool" where
  "near (Data j) (Data i) = (j < i + WINDOW_SIZE)"
| "near _ _ = True"

definition in_flight :: "nat \<Rightarrow> nat \<Rightarrow> message list \<Rightarrow> bool" where
  "in_flight E N ms \<longleftrightarrow>
     sorted_wrt near ms \<and> (\<forall>i. Data i \<in> set ms \<longrightarrow> 0 < i \<and> i \<le> N \<and> E < i + WINDOW_SIZE)"

definition acks_in_flight :: "nat \<Rightarrow> nat \<Rightarrow> nat list \<Rightarrow> bool" where
  "acks_in_flight base E as \<longleftrightarrow> sorted as \<and> (\<forall>a\<in>set as. base < a \<and> a \<le> Suc E)"

definition server_has :: "transfer \<Rightarrow> system \<Rightarrow> nat \<Rightarrow> bool" where
  "server_has t y E \<longleftrightarrow>
     files (y_server y) (t_name t) = Some (take (PAYLOAD_SIZE * E) (t_content t)) \<and>
     y_read y = int (min (PAYLOAD_SIZE * E) (length (t_content t))) \<and>
     y_expected y = seq16 (Suc E) \<and>
     (\<forall>k. PAYLOAD_SIZE \<le> w_fwrite (y_server y) k)"

text \<open>The server goes on or has accepted a FIN, and has \<open>E\<close> chunks; or it timed out and removed the file.\<close>

definition server_inv :: "transfer \<Rightarrow> system \<Rightarrow> nat \<Rightarrow> bool" where
  "server_inv t y E \<longleftrightarrow>
     server_has t y E \<and> (y_end y = None \<or> y_end y = Some Fin_received \<and> s_written (y_sender y) = t_size t) \<or>
     files (y_server y) (t_name t) = None \<and> y_end y = Some (Stop (Exit TIMEOUT))"

lemma server_inv_running: "server_inv t y E \<Longrightarrow> y_end y = None \<Longrightarrow> server_has t y E"
  by (simp add: server_inv_def)

definition transfer_inv :: "transfer \<Rightarrow> system \<Rightarrow> nat \<Rightarrow> nat \<Rightarrow> nat \<Rightarrow> message list \<Rightarrow> nat list \<Rightarrow> bool" where
  "transfer_inv t y base E N ms as \<longleftrightarrow>
     sending (t_content t) (y_sender y) base N \<and>
     (y_filling y \<longrightarrow> read_sound (t_content t) (y_sender y)) \<and>
     base \<le> E \<and> E \<le> N \<and> server_inv t y E \<and>
     y_c2s y = map (wire (t_content t)) ms \<and> in_flight E N ms \<and>
     (Fin \<in> set ms \<longrightarrow> s_written (y_sender y) = t_size t) \<and>
     y_s2c y = map (\<lambda>a. control CMD_ACK (seq16 a)) as \<and> acks_in_flight base E as \<and>
     (y_gone y = Some 0 \<longrightarrow> s_written (y_sender y) = t_size t)"

lemma sending_done:
  assumes "sending (t_content t) s base N" and "s_written s = t_size t"
  shows "length (t_content t) \<le> PAYLOAD_SIZE * base"
  using assms by (auto simp: sending_def t_size_def min_def split: if_splits)

text \<open>A client that has just been accepted, with a server that has received nothing yet.\<close>

lemma fresh_inv:
  assumes s: "y_sender y = start_sender (t_content t) buffer now" "length buffer = PACKET_SIZE"
    and "y_s2c y = replicate k (control CMD_ACK 1)" and "y_c2s y = []" and "server_inv t y 0" and "y_gone y \<noteq> Some 0"
  shows "transfer_inv t y 0 0 0 [] (replicate k 1)"
proof -
  have "ll_own Map.empty \<lparr>ll_head = None, ll_tail = None, ll_size = 0\<rparr> []"
    by (simp add: ll_own_def ll_rep_def ll_nodes_def)
  then have "sending (t_content t) (y_sender y) 0 0" and "read_sound (t_content t) (y_sender y)"
    using s by (simp_all add: sending_def read_sound_def start_sender_def seq16_def)
  moreover have "acks_in_flight 0 0 (replicate k 1)" by (auto simp: acks_in_flight_def)
  ultimately show ?thesis
    using assms by (simp add: transfer_inv_def in_flight_def seq16_def)
qed

lemma start_inv:
  assumes "start_system t y"
  shows "\<exists>as. transfer_inv t y 0 0 0 [] as"
proof -
  obtain buffer now k where s: "length buffer = PACKET_SIZE"
    "y_sender y = start_sender (t_content t) buffer now"
    "y_s2c y = replicate k (control CMD_ACK 1)"
    using assms by (auto simp: start_system_def)
  have "server_inv t y 0" using assms by (simp add: start_system_def server_inv_def server_has_def seq16_def)
  with s assms show ?thesis using fresh_inv [of y t buffer now k] by (auto simp: start_system_def)
qed

section \<open>Channels\<close>

lemma in_flight_window:
  assumes "in_flight E N ms" and "N \<le> M" and "N \<le> base + WINDOW_SIZE" and "E \<le> N" and "Fin \<notin> set ms"
    and "M \<le> base + WINDOW_SIZE"
  shows "in_flight E M (ms @ map Data [Suc base..<Suc M])"
proof -
  have "sorted_wrt near (map Data [Suc base..<Suc M])"
    unfolding sorted_wrt_map by (rule sorted_wrt_mono_rel [OF _ sorted_wrt_upt]) simp
  moreover have "near m (Data i)" if "m \<in> set ms" "base < i" for m i
  proof (cases m)
    case (Data j)
    then have "j \<le> N" using that(1) assms(1) by (simp add: in_flight_def)
    with Data that(2) assms(3) show ?thesis by simp
  qed simp
  moreover have "E < i + WINDOW_SIZE" if "base < i" for i
    using that assms by simp
  ultimately show ?thesis
    using assms(1,2) by (auto simp: in_flight_def sorted_wrt_append simp del: upt_Suc)
qed

lemma in_flight_sub:
  "in_flight E N (xs @ m # ys) \<Longrightarrow> in_flight E N (xs @ ys)"
  "in_flight E N (xs @ m # ys) \<Longrightarrow> in_flight E N (xs @ m # m # ys)"
  by (cases m; auto simp: in_flight_def sorted_wrt_append)+

lemma in_flight_take: "in_flight E N (ms @ xs) \<Longrightarrow> in_flight E N (ms @ take k xs)"
  by (auto simp: in_flight_def sorted_wrt_append intro: sorted_wrt_take dest: in_set_takeD)

lemma acks_in_flight_sub:
  "acks_in_flight base E (xs @ a # ys) \<Longrightarrow> acks_in_flight base E (xs @ ys)"
  "acks_in_flight base E (xs @ a # ys) \<Longrightarrow> acks_in_flight base E (xs @ a # a # ys)"
  by (auto simp: acks_in_flight_def sorted_append)

lemma acks_in_flight_snoc:
  "acks_in_flight base E as \<Longrightarrow> E \<le> E' \<Longrightarrow> base \<le> E' \<Longrightarrow> acks_in_flight base E' (as @ [Suc E'])"
  by (fastforce simp: acks_in_flight_def sorted_append)

lemma acks_in_flight_mono: "acks_in_flight base E as \<Longrightarrow> E \<le> E' \<Longrightarrow> acks_in_flight base E' as"
  by (auto simp: acks_in_flight_def)

section \<open>Every step keeps the invariant\<close>

text \<open>Filling the window and sending it, or as much of it as the network takes.\<close>

lemma window_sent_inv:
  assumes inv: "transfer_inv t y base E N ms as" and mal: "malloc_serves WINDOW_SIZE (t_malloc t)"
    and fill: "y_filling y" "s_written (y_sender y) \<noteq> t_size t"
      "fill_window (t_malloc t) (t_size t) (y_sender y) = Some (Return s')"
      "send_all (y_client y) (t_target t) (s_heap s') (s_packets s') = Some (r, w')"
  obtains k where "r = Return (if k = WINDOW_SIZE then 0 else 1)" and "k \<le> WINDOW_SIZE"
    and "transfer_inv t (y\<lparr>y_client := w', y_sender := s', y_filling := False,
                 y_c2s := y_c2s y @ newly_sent (y_client y) w'\<rparr>)
           base E (base + WINDOW_SIZE) (ms @ take k (map Data [Suc base..<Suc (base + WINDOW_SIZE)])) as"
proof -
  let ?M = "base + WINDOW_SIZE" and ?ds = "packets_between (t_content t) base (base + WINDOW_SIZE)"
  have snd: "sending (t_content t) (y_sender y) base N" using inv by (simp add: transfer_inv_def)
  then have "s_written (y_sender y) < int (length (t_content t))"
    using fill(2) by (auto simp: sending_def t_size_def)
  then have snd': "sending (t_content t) s' base ?M"
    using fill_window_sending [OF snd _ mal] inv fill(1,3)
    by (auto simp: transfer_inv_def t_size_def)
  define k where "k = sends_ok (y_client y) (length ?ds)"
  have new: "r = Return (if k = length ?ds then 0 else 1)" "newly_sent (y_client y) w' = take k ?ds"
    using send_all_rep_prefix [OF sending_window [OF snd'], of "y_client y" "t_target t"] fill(4) by (auto simp: k_def)
  have k: "k \<le> WINDOW_SIZE" using sends_ok_le [of "y_client y" "length ?ds"] by (simp add: k_def)
  have written: "s_written s' = s_written (y_sender y)"
    using snd snd' by (simp add: sending_def)
  have nofin: "Fin \<notin> set ms"
    using inv fill(2) by (auto simp: transfer_inv_def)
  have "N \<le> ?M" using snd by (simp add: sending_def)
  then have "in_flight E ?M (ms @ map Data [Suc base..<Suc ?M])"
    using inv snd nofin by (intro in_flight_window [of E N]) (auto simp: transfer_inv_def sending_def)
  then have fl: "in_flight E ?M (ms @ take k (map Data [Suc base..<Suc ?M]))" by (rule in_flight_take)
  have "map (wire (t_content t)) (take k (map Data [Suc base..<Suc ?M])) = take k ?ds"
    by (simp add: packets_between_def comp_def take_map del: upt_Suc)
  moreover have "Fin \<notin> set (take k (map Data [Suc base..<Suc ?M]))" by (auto dest: in_set_takeD)
  ultimately have "transfer_inv t (y\<lparr>y_client := w', y_sender := s', y_filling := False,
                 y_c2s := y_c2s y @ newly_sent (y_client y) w'\<rparr>)
           base E ?M (ms @ take k (map Data [Suc base..<Suc ?M])) as"
    using inv snd' new(2) written nofin \<open>N \<le> ?M\<close> fill(2) fl
    by (auto simp: transfer_inv_def server_inv_def server_has_def simp del: upt_Suc)
  then show thesis using new(1) k by (intro that [of k]) simp_all
qed

lemma round_inv:
  assumes inv: "transfer_inv t y base E N ms as" and mal: "malloc_serves WINDOW_SIZE (t_malloc t)"
    and fill: "y_filling y" "s_written (y_sender y) \<noteq> t_size t"
      "fill_window (t_malloc t) (t_size t) (y_sender y) = Some (Return s')"
      "send_all (y_client y) (t_target t) (s_heap s') (s_packets s') = Some (Return 0, w')"
  shows "transfer_inv t (y\<lparr>y_client := w', y_sender := s', y_filling := False,
                 y_c2s := y_c2s y @ newly_sent (y_client y) w'\<rparr>)
           base E (base + WINDOW_SIZE) (ms @ map Data [Suc base..<Suc (base + WINDOW_SIZE)]) as"
proof -
  obtain k where k: "Return 0 = (Return (if k = WINDOW_SIZE then 0 else 1) :: int outcome)"
    and i: "transfer_inv t (y\<lparr>y_client := w', y_sender := s', y_filling := False,
                 y_c2s := y_c2s y @ newly_sent (y_client y) w'\<rparr>)
           base E (base + WINDOW_SIZE) (ms @ take k (map Data [Suc base..<Suc (base + WINDOW_SIZE)])) as"
    using window_sent_inv [OF inv mal fill] by blast
  have "k = WINDOW_SIZE" using k by (simp split: if_splits)
  with i show ?thesis by (simp del: upt_Suc)
qed

lemma reply_inv:
  assumes inv: "transfer_inv t y base E N ms (a # as)" and junk: "length junk = PACKET_SIZE"
    and phase: "\<not> y_filling y"
  obtains s' w' where "handle_reply (t_size t) (y_client y)
       ((y_sender y)\<lparr>s_read := int (length (control CMD_ACK (seq16 a))),
          s_buffer := put_at junk 0 (control CMD_ACK (seq16 a))\<rparr>) = Some (Next_reply s', w')"
    and "quiet (y_client y) w'"
    and "transfer_inv t (y\<lparr>y_client := w', y_sender := s', y_s2c := map (\<lambda>a. control CMD_ACK (seq16 a)) as\<rparr>)
           (a - 1) E N ms as"
proof -
  let ?p = "control CMD_ACK (seq16 a)"
  let ?s = "(y_sender y)\<lparr>s_read := int (length ?p), s_buffer := put_at junk 0 ?p\<rparr>"
  have a: "base < a" "a \<le> Suc E" and E: "E \<le> N" using inv by (auto simp: transfer_inv_def acks_in_flight_def)
  have snd: "sending (t_content t) ?s base N"
    using inv junk by (simp add: transfer_inv_def sending_def)
  note rp = received_packet [OF control_fields(4), of CMD_ACK "seq16 a" junk]
  have b: "put_at junk 0 ?p ! 0 = CMD_ACK" "get_seq_num (put_at junk 0 ?p) = seq16 a"
    using rp(1,2) junk unfolding pkt_cmd_def [symmetric] by simp_all
  have "a \<le> Suc N" using a E by simp
  then obtain s' w' where ack: "ack_window (seq16 a) (y_client y) ?s = Some (Return s', w')"
    and snd': "sending (t_content t) s' (a - 1) N" and q: "quiet (y_client y) w'"
    using ack_window_sending [OF snd a(1), of "y_client y"] by blast
  have h: "handle_reply (t_size t) (y_client y) ?s = Some (Next_reply s', w')"
    using ack b by (simp add: handle_reply_def)
  have finished: "s_written s' = t_size t" if "s_written (y_sender y) = t_size t"
  proof -
    have "length (t_content t) \<le> PAYLOAD_SIZE * base"
      using inv that by (intro sending_done) (auto simp: transfer_inv_def)
    also have "\<dots> \<le> PAYLOAD_SIZE * (a - 1)" using a by (intro mult_le_mono2) simp
    finally show ?thesis using snd' by (simp add: sending_def t_size_def)
  qed
  have "acks_in_flight (a - 1) E as"
    using inv a by (fastforce simp: transfer_inv_def acks_in_flight_def)
  moreover have "a - 1 \<le> E" using a by simp
  ultimately have "transfer_inv t (y\<lparr>y_client := w', y_sender := s',
      y_s2c := map (\<lambda>a. control CMD_ACK (seq16 a)) as\<rparr>) (a - 1) E N ms as"
    using inv snd' finished phase by (auto simp: transfer_inv_def server_inv_def server_has_def)
  with h q show thesis by (rule that)
qed

lemma client_reply_inv:
  assumes inv: "transfer_inv t y base E N ms as" and hd: "y_s2c y = p # rest"
    and junk: "length junk = PACKET_SIZE" and phase: "\<not> y_filling y"
    and h: "handle_reply (t_size t) (y_client y)
       ((y_sender y)\<lparr>s_read := int (length p), s_buffer := put_at junk 0 p\<rparr>) = Some (Next_reply s', w')"
  shows "\<exists>a as'. transfer_inv t (y\<lparr>y_client := w', y_sender := s', y_s2c := rest\<rparr>) (a - 1) E N ms as'"
proof -
  obtain a as' where as: "as = a # as'" "p = control CMD_ACK (seq16 a)"
    "rest = map (\<lambda>a. control CMD_ACK (seq16 a)) as'"
    using inv hd by (auto simp: transfer_inv_def)
  have inv': "transfer_inv t y base E N ms (a # as')" using inv as by simp
  show ?thesis using reply_inv [OF inv' junk phase] h as by (metis Pair_inject option.inject reply_action.inject(1))
qed

text \<open>The server sends nothing but acknowledgements, so no reply ends the client's loop.\<close>

lemma reply_is_ack:
  assumes inv: "transfer_inv t y base E N ms as" and "y_s2c y = p # rest" and "length junk = PACKET_SIZE"
    and "\<not> y_filling y"
    and h: "handle_reply (t_size t) (y_client y)
       ((y_sender y)\<lparr>s_read := int (length p), s_buffer := put_at junk 0 p\<rparr>) = Some (act, w')"
  shows "act \<noteq> Leave_loop s'" and "act \<noteq> Quit oc"
proof -
  obtain a as' where as: "as = a # as'" "p = control CMD_ACK (seq16 a)"
    using inv assms(2) by (auto simp: transfer_inv_def)
  have inv': "transfer_inv t y base E N ms (a # as')" using inv as by simp
  show "act \<noteq> Leave_loop s'" and "act \<noteq> Quit oc" using reply_inv [OF inv' assms(3,4)] h as(2) by auto
qed

lemma idle_inv:
  "transfer_inv t y base E N ms as \<Longrightarrow> length junk = PACKET_SIZE \<Longrightarrow>
   transfer_inv t (y\<lparr>y_sender := (y_sender y)\<lparr>s_read := -1, s_buffer := junk\<rparr>, y_filling := True\<rparr>)
     base E N ms as"
  by (auto simp: transfer_inv_def sending_def read_sound_def server_inv_def server_has_def)

lemma fin_inv:
  assumes "transfer_inv t y base E N ms as" and "s_written (y_sender y) = t_size t"
  shows "transfer_inv t (y\<lparr>y_client := w, y_c2s := y_c2s y @ [control CMD_FIN 0]\<rparr>) base E N (ms @ [Fin]) as"
  using assms
  by (simp add: transfer_inv_def server_inv_def server_has_def in_flight_def sorted_wrt_append)

lemma client_world_inv: "transfer_inv t (y\<lparr>y_client := w\<rparr>) base E N ms as = transfer_inv t y base E N ms as"
  by (simp add: transfer_inv_def server_inv_def server_has_def)

lemma server_looks_inv:
  "transfer_inv t y base E N ms as \<Longrightarrow> quiet (y_server y) w \<Longrightarrow> transfer_inv t (y\<lparr>y_server := w\<rparr>) base E N ms as"
  by (auto simp: transfer_inv_def server_inv_def server_has_def quiet_def same_answers_def)

lemma client_fin_inv:
  assumes inv: "transfer_inv t y base E N ms as" and "s_written (y_sender y) = t_size t"
    and sp: "send_packet (y_client y) (t_target t) (control CMD_FIN 0) = (r, w)"
  shows "\<exists>ms'. transfer_inv t (y\<lparr>y_client := w, y_c2s := y_c2s y @ newly_sent (y_client y) w\<rparr>) base E N ms' as"
proof (cases "w_send (y_client y) (n_send (y_client y)) = Tx_ok")
  case True
  then show ?thesis using send_packet_newly [OF sp control_fields(4) refl] fin_inv [OF assms(1,2)] by (auto simp: if_sent_def)
next
  case False
  then show ?thesis using send_packet_newly [OF sp control_fields(4) refl] inv by (auto simp: if_sent_def client_world_inv)
qed

lemma timeout_inv:
  "transfer_inv t y base E N ms as \<Longrightarrow>
   transfer_inv t (y\<lparr>y_server := unlink_file (y_server y) (t_name t), y_end := Some (Stop (Exit TIMEOUT))\<rparr>)
     base E N ms as"
  by (auto simp: transfer_inv_def server_inv_def unlink_file_def)

lemma gone_inv:
  "transfer_inv t y base E N ms as \<Longrightarrow> c = 0 \<longrightarrow> s_written (y_sender y) = t_size t \<Longrightarrow>
   transfer_inv t (y\<lparr>y_gone := Some c\<rparr>) base E N ms as"
  by (auto simp: transfer_inv_def server_inv_def server_has_def)

text \<open>The packet the server takes is the next one if and only if its 16-bit number says so.\<close>

lemma expected_iff:
  assumes "transfer_inv t y base E N (Data i # ms) as"
  shows "seq16 i = seq16 (Suc E) \<longleftrightarrow> i = Suc E"
proof (rule seq16_near_eq_iff)
  have "N \<le> base + WINDOW_SIZE" "base \<le> E" "i \<le> N" "E < i + WINDOW_SIZE"
    using assms by (auto simp: transfer_inv_def sending_def in_flight_def)
  then show "i < Suc E + 65536" "Suc E < i + 65536" by auto
qed

lemma server_fin:
  assumes "transfer_inv t y base E N (Fin # ms) as" and "length junk = PACKET_SIZE" and "y_end y = None"
  shows "handle_packet (y_server y) (t_origin t) (t_name t) (t_size t) (y_read y) (y_expected y)
           (put_at junk 0 (control CMD_FIN 0)) = (Fin_received, y_server y)"
proof (rule handle_fin [OF assms(2)])
  have "length (t_content t) \<le> PAYLOAD_SIZE * base"
    using assms(1) by (intro sending_done) (auto simp: transfer_inv_def)
  also have "\<dots> \<le> PAYLOAD_SIZE * E"
    using assms(1) by (intro mult_le_mono2) (simp add: transfer_inv_def)
  finally show "y_read y = t_size t"
    using assms(1,3) by (simp add: transfer_inv_def server_inv_def server_has_def t_size_def)
qed

text \<open>
  The server's answer to a data packet: it takes the next chunk, or keeps what it has, and
  acknowledges the first packet it does not have.
\<close>

definition after_data :: "nat \<Rightarrow> nat \<Rightarrow> nat" where
  "after_data E i = (if i = Suc E then Suc E else E)"

lemma server_data:
  assumes inv: "transfer_inv t y base E N (Data i # ms) as" and junk: "length junk = PACKET_SIZE"
    and run: "y_end y = None"
  obtains w' where "handle_packet (y_server y) (t_origin t) (t_name t) (t_size t) (y_read y) (y_expected y)
        (put_at junk 0 (file_packet (t_content t) i)) =
      (Again (int (min (PAYLOAD_SIZE * after_data E i) (length (t_content t)))) (seq16 (Suc (after_data E i))), w')"
    and "files w' (t_name t) = Some (take (PAYLOAD_SIZE * after_data E i) (t_content t))"
    and "same_answers (y_server y) w'"
    and "newly_sent (y_server y) w' = if_sent (y_server y) (control CMD_ACK (seq16 (Suc (after_data E i))))"
proof -
  let ?c = "t_content t"
  note fp = file_packet_fields [of ?c i]
  have has: "files (y_server y) (t_name t) = Some (take (PAYLOAD_SIZE * E) ?c)"
    "y_read y = int (min (PAYLOAD_SIZE * E) (length ?c))" "y_expected y = seq16 (Suc E)"
    "\<forall>k. PAYLOAD_SIZE \<le> w_fwrite (y_server y) k"
    using inv run by (simp_all add: transfer_inv_def server_inv_def server_has_def)
  show thesis
  proof (cases "i = Suc E")
    case True
    then show thesis
      using handle_next_chunk [OF has(1,4) junk] that unfolding has(2,3) t_size_def after_data_def by auto
  next
    case False
    then have ne: "get_seq_num (file_packet ?c i) \<noteq> y_expected y"
      using expected_iff [OF inv] by (simp add: fp(2) has(3))
    obtain w' where "handle_packet (y_server y) (t_origin t) (t_name t) (t_size t) (y_read y) (y_expected y)
        (put_at junk 0 (file_packet ?c i)) = (Again (y_read y) (y_expected y), w')"
      "files w' = files (y_server y)" "same_answers (y_server y) w'"
      "newly_sent (y_server y) w' = if_sent (y_server y) (control CMD_ACK (y_expected y))"
      using handle_out_of_order [OF fp(5,6,1) ne junk] by blast
    with has False show thesis by (intro that [of w']) (simp_all add: after_data_def)
  qed
qed

lemma data_inv:
  assumes inv: "transfer_inv t y base E N (Data i # ms) as" and run: "y_end y = None"
    and w': "files w' (t_name t) = Some (take (PAYLOAD_SIZE * after_data E i) (t_content t))"
      "same_answers (y_server y) w'"
      "newly_sent (y_server y) w' = if_sent (y_server y) (control CMD_ACK (seq16 (Suc (after_data E i))))"
  shows "transfer_inv t (y\<lparr>y_server := w',
             y_read := int (min (PAYLOAD_SIZE * after_data E i) (length (t_content t))),
             y_expected := seq16 (Suc (after_data E i)), y_c2s := map (wire (t_content t)) ms,
             y_s2c := y_s2c y @ newly_sent (y_server y) w'\<rparr>)
           base (after_data E i) N ms (as @ if_sent (y_server y) (Suc (after_data E i)))"
proof -
  let ?E = "after_data E i"
  have fl: "in_flight E N (Data i # ms)" "acks_in_flight base E as" "base \<le> E" "E \<le> N"
    using inv by (simp_all add: transfer_inv_def)
  have E: "E \<le> ?E" "base \<le> ?E" "?E \<le> N" using fl by (auto simp: after_data_def in_flight_def)
  have fl': "in_flight ?E N ms" using fl by (auto simp: after_data_def in_flight_def)
  have acks: "acks_in_flight base ?E (as @ if_sent (y_server y) (Suc ?E))"
    using acks_in_flight_snoc [OF fl(2) E(1,2)] acks_in_flight_mono [OF fl(2) E(1)]
    by (simp add: if_sent_def)
  have "server_has t (y\<lparr>y_server := w', y_read := int (min (PAYLOAD_SIZE * ?E) (length (t_content t))),
             y_expected := seq16 (Suc ?E), y_c2s := map (wire (t_content t)) ms,
             y_s2c := y_s2c y @ newly_sent (y_server y) w'\<rparr>) ?E"
    using inv w' run by (simp add: server_has_def server_inv_def transfer_inv_def same_answers_def)
  with inv w'(3) E fl' acks run show ?thesis by (simp add: transfer_inv_def server_inv_def)
qed

lemma first_message:
  assumes inv: "transfer_inv t y base E N ms as" and "y_c2s y = p # rest"
  obtains m ms' where "ms = m # ms'" "p = wire (t_content t) m" "rest = map (wire (t_content t)) ms'"
  using assms by (auto simp: transfer_inv_def)

lemma again_inv:
  assumes inv: "transfer_inv t y base E N ms as" and hd: "y_c2s y = p # rest"
    and junk: "length junk = PACKET_SIZE" and run: "y_end y = None"
    and h: "handle_packet (y_server y) (t_origin t) (t_name t) (t_size t) (y_read y) (y_expected y)
       (put_at junk 0 p) = (Again r e, w')"
  shows "\<exists>E' ms' as'. E \<le> E' \<and> transfer_inv t (y\<lparr>y_server := w', y_read := r, y_expected := e, y_c2s := rest,
                 y_s2c := y_s2c y @ newly_sent (y_server y) w'\<rparr>) base E' N ms' as'"
proof -
  obtain m ms' where ms: "ms = m # ms'" "p = wire (t_content t) m" "rest = map (wire (t_content t)) ms'"
    using inv hd by (rule first_message)
  have "m \<noteq> Fin" using server_fin [of t y base E N ms' as junk] inv junk run h ms by auto
  then obtain i where m: "m = Data i" by (cases m) auto
  then have inv': "transfer_inv t y base E N (Data i # ms') as" using inv ms by simp
  obtain w2 where w2: "handle_packet (y_server y) (t_origin t) (t_name t) (t_size t) (y_read y) (y_expected y)
        (put_at junk 0 (file_packet (t_content t) i)) =
      (Again (int (min (PAYLOAD_SIZE * after_data E i) (length (t_content t)))) (seq16 (Suc (after_data E i))), w2)"
    "files w2 (t_name t) = Some (take (PAYLOAD_SIZE * after_data E i) (t_content t))"
    "same_answers (y_server y) w2"
    "newly_sent (y_server y) w2 = if_sent (y_server y) (control CMD_ACK (seq16 (Suc (after_data E i))))"
    using inv' junk run by (rule server_data)
  then have "r = int (min (PAYLOAD_SIZE * after_data E i) (length (t_content t)))"
    "e = seq16 (Suc (after_data E i))" "w' = w2" using h ms m by simp_all
  moreover have "E \<le> after_data E i" by (simp add: after_data_def)
  ultimately show ?thesis using data_inv [OF inv' run w2(2-4)] ms by blast
qed

lemma end_inv:
  assumes inv: "transfer_inv t y base E N ms as" and hd: "y_c2s y = p # rest"
    and junk: "length junk = PACKET_SIZE" and run: "y_end y = None" and stop: "\<And>r e. act \<noteq> Again r e"
    and h: "handle_packet (y_server y) (t_origin t) (t_name t) (t_size t) (y_read y) (y_expected y)
       (put_at junk 0 p) = (act, w')"
  shows "\<exists>ms'. transfer_inv t (y\<lparr>y_server := w', y_end := Some act, y_c2s := rest,
      y_s2c := y_s2c y @ newly_sent (y_server y) w'\<rparr>) base E N ms' as"
proof -
  obtain m ms' where ms: "ms = m # ms'" "p = wire (t_content t) m" "rest = map (wire (t_content t)) ms'"
    using inv hd by (rule first_message)
  have "m = Fin"
  proof (cases m)
    case (Data i)
    then have inv': "transfer_inv t y base E N (Data i # ms') as" using inv ms by simp
    show ?thesis using server_data [OF inv' junk run] h ms Data stop by fastforce
  qed
  then have "act = Fin_received" "w' = y_server y" "s_written (y_sender y) = t_size t"
    using server_fin [of t y base E N ms' as junk] inv junk run h ms by (auto simp: transfer_inv_def)
  with inv ms run show ?thesis
    by (intro exI [of _ ms']) (auto simp: transfer_inv_def server_inv_def server_has_def in_flight_def newly_sent_def)
qed

lemma map_split:
  assumes "map f zs = xs @ p # ys"
  obtains us a vs where "zs = us @ a # vs" "xs = map f us" "p = f a" "ys = map f vs"
  using assms by (auto simp: map_eq_append_conv map_eq_Cons_conv)

lemma data_channel_inv:
  assumes inv: "transfer_inv t y base E N ms as" and "y_c2s y = xs @ p # ys"
  shows "\<exists>ms'. transfer_inv t (y\<lparr>y_c2s := xs @ ys\<rparr>) base E N ms' as"
    and "\<exists>ms'. transfer_inv t (y\<lparr>y_c2s := xs @ p # p # ys\<rparr>) base E N ms' as"
proof -
  have "map (wire (t_content t)) ms = xs @ p # ys" using assms by (simp add: transfer_inv_def)
  then obtain us m vs where ms: "ms = us @ m # vs" "xs = map (wire (t_content t)) us"
    "p = wire (t_content t) m" "ys = map (wire (t_content t)) vs" by (rule map_split)
  have fl: "in_flight E N (us @ m # vs)" using inv ms by (simp add: transfer_inv_def)
  show "\<exists>ms'. transfer_inv t (y\<lparr>y_c2s := xs @ ys\<rparr>) base E N ms' as"
    using inv ms in_flight_sub(1) [OF fl]
    by (intro exI [of _ "us @ vs"]) (auto simp: transfer_inv_def server_inv_def server_has_def)
  show "\<exists>ms'. transfer_inv t (y\<lparr>y_c2s := xs @ p # p # ys\<rparr>) base E N ms' as"
    using inv ms in_flight_sub(2) [OF fl]
    by (intro exI [of _ "us @ m # m # vs"]) (auto simp: transfer_inv_def server_inv_def server_has_def)
qed

lemma reply_channel_inv:
  assumes inv: "transfer_inv t y base E N ms as" and "y_s2c y = xs @ p # ys"
  shows "\<exists>as'. transfer_inv t (y\<lparr>y_s2c := xs @ ys\<rparr>) base E N ms as'"
    and "\<exists>as'. transfer_inv t (y\<lparr>y_s2c := xs @ p # p # ys\<rparr>) base E N ms as'"
proof -
  let ?f = "\<lambda>a. control CMD_ACK (seq16 a)"
  have "map ?f as = xs @ p # ys" using assms by (simp add: transfer_inv_def)
  then obtain us a vs where as: "as = us @ a # vs" "xs = map ?f us" "p = ?f a" "ys = map ?f vs"
    by (rule map_split)
  have fl: "acks_in_flight base E (us @ a # vs)" using inv as by (simp add: transfer_inv_def)
  show "\<exists>as'. transfer_inv t (y\<lparr>y_s2c := xs @ ys\<rparr>) base E N ms as'"
    using inv as acks_in_flight_sub(1) [OF fl]
    by (intro exI [of _ "us @ vs"]) (auto simp: transfer_inv_def server_inv_def server_has_def)
  show "\<exists>as'. transfer_inv t (y\<lparr>y_s2c := xs @ p # p # ys\<rparr>) base E N ms as'"
    using inv as acks_in_flight_sub(2) [OF fl]
    by (intro exI [of _ "us @ a # a # vs"]) (auto simp: transfer_inv_def server_inv_def server_has_def)
qed

lemma step_inv:
  assumes "step t y y'" and inv: "transfer_inv t y base E N ms as"
    and mal: "malloc_serves WINDOW_SIZE (t_malloc t)"
  shows "\<exists>base' E' N' ms' as'. transfer_inv t y' base' E' N' ms' as'"
  using assms(1)
proof cases
  case client_round
  then show ?thesis using round_inv [OF inv mal] by blast
next
  case (client_send_fails s' w')
  obtain k where "transfer_inv t (y\<lparr>y_client := w', y_sender := s', y_filling := False,
                 y_c2s := y_c2s y @ newly_sent (y_client y) w'\<rparr>)
           base E (base + WINDOW_SIZE) (ms @ take k (map Data [Suc base..<Suc (base + WINDOW_SIZE)])) as"
    using window_sent_inv [OF inv mal client_send_fails(3-6)] by blast
  from gone_inv [OF this, of CLIENT_RUNTIME_ERROR] show ?thesis unfolding client_send_fails(1) by fastforce
next
  case client_timeout
  then show ?thesis using gone_inv [OF inv, of CLIENT_TIMEOUT] by fastforce
next
  case client_leaves_loop
  then show ?thesis using reply_is_ack [OF inv] by blast
next
  case client_quits
  then show ?thesis using reply_is_ack [OF inv] by blast
next
  case client_ends
  then show ?thesis using gone_inv [OF inv] by blast
next
  case server_timeout
  then show ?thesis using timeout_inv [OF inv] by blast
next
  case client_reply
  then show ?thesis using client_reply_inv [OF inv] by blast
next
  case client_idle
  then show ?thesis using idle_inv [OF inv] by blast
next
  case client_fin
  then show ?thesis using client_fin_inv [OF inv] by blast
next
  case client_looks
  then show ?thesis using inv client_world_inv by blast
next
  case server_looks
  then show ?thesis using server_looks_inv [OF inv] by blast
next
  case server_again
  then show ?thesis using again_inv [OF inv] by blast
next
  case server_end
  then show ?thesis using end_inv [OF inv] by blast
next
  case lose_data
  then show ?thesis using data_channel_inv(1) [OF inv] by blast
next
  case lose_reply
  then show ?thesis using reply_channel_inv(1) [OF inv] by blast
next
  case duplicate_data
  then show ?thesis using data_channel_inv(2) [OF inv] by blast
next
  case duplicate_reply
  then show ?thesis using reply_channel_inv(2) [OF inv] by blast
qed

lemma reachable_inv:
  assumes "reachable t y" and "malloc_serves WINDOW_SIZE (t_malloc t)"
  shows "\<exists>base E N ms as. transfer_inv t y base E N ms as"
  using assms(1)
proof induction
  case (start y)
  then show ?case using start_inv by blast
next
  case (more y y')
  then show ?case using step_inv assms(2) by blast
qed

lemma transfer_inv_done:
  assumes inv: "transfer_inv t y base E N ms as" and "s_written (y_sender y) = t_size t"
    and "y_end y \<noteq> Some (Stop (Exit TIMEOUT))"
  shows "files (y_server y) (t_name t) = Some (t_content t)"
proof -
  have "length (t_content t) \<le> PAYLOAD_SIZE * base"
    using assms by (intro sending_done) (auto simp: transfer_inv_def)
  also have "\<dots> \<le> PAYLOAD_SIZE * E"
    using inv by (intro mult_le_mono2) (simp add: transfer_inv_def)
  finally show ?thesis using inv assms(3) by (auto simp: transfer_inv_def server_inv_def server_has_def)
qed

section \<open>Progress\<close>

abbreviation steps :: "transfer \<Rightarrow> system \<Rightarrow> system \<Rightarrow> bool" where
  "steps t \<equiv> (step t)\<^sup>*\<^sup>*"

text \<open>The client has not ended, and both machines can send.\<close>

definition able :: "system \<Rightarrow> bool" where
  "able y \<longleftrightarrow> y_gone y = None \<and> (\<forall>k. w_send (y_client y) k = Tx_ok) \<and> (\<forall>k. w_send (y_server y) k = Tx_ok)"

lemma reachable_steps: "steps t y y' \<Longrightarrow> reachable t y \<Longrightarrow> reachable t y'"
  by (induction rule: rtranclp_induct) (auto intro: reachable.more)

text \<open>Losing the oldest datagrams of a channel.\<close>

lemma drop_data: "steps t y (y\<lparr>y_c2s := drop n (y_c2s y)\<rparr>)"
proof (induction n)
  case (Suc n)
  let ?y = "y\<lparr>y_c2s := drop n (y_c2s y)\<rparr>"
  have "drop (Suc n) (y_c2s y) = drop n (y_c2s y) \<or> (\<exists>p. drop n (y_c2s y) = p # drop (Suc n) (y_c2s y))"
    by (metis Cons_nth_drop_Suc drop_all le_SucI not_less)
  then have "steps t ?y (y\<lparr>y_c2s := drop (Suc n) (y_c2s y)\<rparr>)"
    using lose_data [of ?y "[]" _ "drop (Suc n) (y_c2s y)" t] by auto
  with Suc show ?case by (rule rtranclp_trans)
qed simp

lemma drop_replies: "steps t y (y\<lparr>y_s2c := drop n (y_s2c y)\<rparr>)"
proof (induction n)
  case (Suc n)
  let ?y = "y\<lparr>y_s2c := drop n (y_s2c y)\<rparr>"
  have "drop (Suc n) (y_s2c y) = drop n (y_s2c y) \<or> (\<exists>p. drop n (y_s2c y) = p # drop (Suc n) (y_s2c y))"
    by (metis Cons_nth_drop_Suc drop_all le_SucI not_less)
  then have "steps t ?y (y\<lparr>y_s2c := drop (Suc n) (y_s2c y)\<rparr>)"
    using lose_reply [of ?y "[]" _ "drop (Suc n) (y_s2c y)" t] by auto
  with Suc show ?case by (rule rtranclp_trans)
qed simp

lemma drop_inv:
  assumes "transfer_inv t y base E N ms as"
  shows "transfer_inv t (y\<lparr>y_c2s := drop k (y_c2s y), y_s2c := drop n (y_s2c y)\<rparr>) base E N (drop k ms) (drop n as)"
proof -
  have "in_flight E N (drop k ms)"
    using assms by (auto simp: transfer_inv_def in_flight_def intro: sorted_wrt_drop dest: in_set_dropD)
  moreover have "acks_in_flight base E (drop n as)"
    using assms by (auto simp: transfer_inv_def acks_in_flight_def intro: sorted_wrt_drop dest: in_set_dropD)
  ultimately show ?thesis
    using assms by (auto simp: transfer_inv_def server_inv_def server_has_def drop_map dest: in_set_dropD)
qed

text \<open>What a step of the server leaves alone.\<close>

definition client_kept :: "system \<Rightarrow> system \<Rightarrow> bool" where
  "client_kept y y' \<longleftrightarrow>
     y_client y' = y_client y \<and> y_sender y' = y_sender y \<and> y_filling y' = y_filling y \<and> y_gone y' = y_gone y \<and>
     y_end y' = y_end y \<and> same_answers (y_server y) (y_server y')"

lemma client_kept_sends: "client_kept y y' \<Longrightarrow> able y \<Longrightarrow> able y'"
  by (simp add: client_kept_def able_def same_answers_def)

lemma client_kept_trans: "client_kept y y' \<Longrightarrow> client_kept y' y'' \<Longrightarrow> client_kept y y''"
  by (auto simp: client_kept_def intro: same_answers_trans)

lemma deliver_one:
  assumes inv: "transfer_inv t y base E N (Data i # ms) as" and run: "y_end y = None" "able y"
  shows "\<exists>y'. step t y y' \<and> client_kept y y' \<and>
           transfer_inv t y' base (after_data E i) N ms (as @ [Suc (after_data E i)])"
proof -
  have junk: "length (replicate PACKET_SIZE (0 :: byte)) = PACKET_SIZE" by simp
  obtain w' where w': "handle_packet (y_server y) (t_origin t) (t_name t) (t_size t) (y_read y) (y_expected y)
        (put_at (replicate PACKET_SIZE 0) 0 (file_packet (t_content t) i)) =
      (Again (int (min (PAYLOAD_SIZE * after_data E i) (length (t_content t)))) (seq16 (Suc (after_data E i))), w')"
    "files w' (t_name t) = Some (take (PAYLOAD_SIZE * after_data E i) (t_content t))"
    "same_answers (y_server y) w'"
    "newly_sent (y_server y) w' = if_sent (y_server y) (control CMD_ACK (seq16 (Suc (after_data E i))))"
    using inv junk run(1) by (rule server_data)
  have c2s: "y_c2s y = file_packet (t_content t) i # map (wire (t_content t)) ms"
    using inv by (simp add: transfer_inv_def)
  note st = server_again [OF run(1) c2s junk w'(1)]
  have "as @ [Suc (after_data E i)] = as @ if_sent (y_server y) (Suc (after_data E i))"
    using run(2) by (simp add: if_sent_def able_def)
  with st data_inv [OF inv run(1) w'(2-4)] w'(3) show ?thesis
    by (auto simp: client_kept_def intro!: exI)
qed

lemma deliver_window:
  assumes "transfer_inv t y base E N (map Data [Suc j..<Suc M]) as" and "y_end y = None" and "able y"
    and "j \<le> E" and "j \<le> M"
  shows "\<exists>y' as'. steps t y y' \<and> client_kept y y' \<and> transfer_inv t y' base (max E M) N [] (as @ as') \<and>
           (if j < M then as' \<noteq> [] \<and> last as' = Suc (max E M) else as' = [])"
  using assms
proof (induction "M - j" arbitrary: y j E as)
  case 0
  then show ?case
    by (intro exI [of _ y] exI [of _ "[]"]) (simp add: client_kept_def same_answers_def max_def)
next
  case (Suc d)
  then have jM: "Suc j \<le> M" by simp
  have "[Suc j..<Suc M] = Suc j # [Suc (Suc j)..<Suc M]" using jM by (simp add: upt_conv_Cons del: upt_Suc)
  then have inv: "transfer_inv t y base E N (Data (Suc j) # map Data [Suc (Suc j)..<Suc M]) as"
    using Suc.prems(1) by (simp del: upt_Suc)
  have E: "after_data E (Suc j) = max E (Suc j)" using Suc.prems(4) by (auto simp: after_data_def)
  obtain y1 where y1: "step t y y1" "client_kept y y1"
    "transfer_inv t y1 base (max E (Suc j)) N (map Data [Suc (Suc j)..<Suc M]) (as @ [Suc (max E (Suc j))])"
    using deliver_one [OF inv Suc.prems(2,3)] unfolding E by blast
  have run: "y_end y1 = None" "able y1"
    using client_kept_sends [OF y1(2) Suc.prems(3)] y1(2) Suc.prems(2) by (auto simp: client_kept_def)
  have d: "d = M - Suc j" using Suc(2) by simp
  have m: "max (max E (Suc j)) M = max E M" using jM by simp
  obtain y' as' where y': "steps t y1 y'" "client_kept y1 y'"
    "transfer_inv t y' base (max E M) N [] (as @ [Suc (max E (Suc j))] @ as')"
    "if Suc j < M then as' \<noteq> [] \<and> last as' = Suc (max E M) else as' = []"
    using Suc(1) [OF d y1(3) run _ jM] unfolding m by auto
  have "last ([Suc (max E (Suc j))] @ as') = Suc (max E M)"
    using y'(4) jM by (cases "Suc j = M") auto
  then show ?case
    using y1(1,2) y' jM client_kept_trans converse_rtranclp_into_rtranclp
    by (intro exI [of _ y'] exI [of _ "[Suc (max E (Suc j))] @ as'"]) auto
qed

lemma round_step:
  assumes inv: "transfer_inv t y base E N ms as" and mal: "malloc_serves WINDOW_SIZE (t_malloc t)"
    and run: "y_filling y" "s_written (y_sender y) \<noteq> t_size t" "able y"
  shows "\<exists>y'. step t y y' \<and> \<not> y_filling y' \<and> y_end y' = y_end y \<and> able y' \<and>
           transfer_inv t y' base E (base + WINDOW_SIZE)
             (ms @ map Data [Suc base..<Suc (base + WINDOW_SIZE)]) as"
proof -
  have snd: "sending (t_content t) (y_sender y) base N" and rs: "read_sound (t_content t) (y_sender y)"
    using inv run(1) by (auto simp: transfer_inv_def)
  then have less: "s_written (y_sender y) < int (length (t_content t))"
    using run(2) by (auto simp: sending_def t_size_def)
  obtain s' where s': "fill_window (t_malloc t) (t_size t) (y_sender y) = Some (Return s')"
    "sending (t_content t) s' base (base + WINDOW_SIZE)"
    using fill_window_sending [OF snd rs mal less] by (auto simp: t_size_def)
  let ?ds = "packets_between (t_content t) base (base + WINDOW_SIZE)"
  have ok: "\<forall>k. w_send (y_client y) k = Tx_ok" using run(3) by (simp add: able_def)
  define w' where "w' = (y_client y)\<lparr>n_send := n_send (y_client y) + length ?ds,
      sent := sent (y_client y) @ map (Pair (t_target t)) ?ds\<rparr>"
  have send: "send_all (y_client y) (t_target t) (s_heap s') (s_packets s') = Some (Return 0, w')"
    using sending_send_all [OF s'(2) ok] by (simp add: w'_def)
  let ?y' = "y\<lparr>y_client := w', y_sender := s', y_filling := False, y_c2s := y_c2s y @ newly_sent (y_client y) w'\<rparr>"
  have "able ?y'" using run(3) by (simp add: able_def w'_def)
  moreover have "step t y ?y'" using run client_round [OF _ run(1,2) s'(1) send] by (simp add: able_def)
  ultimately show ?thesis using round_inv [OF inv mal run(1,2) s'(1) send]
    by (intro exI [of _ ?y']) simp
qed

text \<open>A round in which the whole window and the last acknowledgement arrive moves the window.\<close>

lemma window_round:
  assumes inv: "transfer_inv t y base E N [] []" and mal: "malloc_serves WINDOW_SIZE (t_malloc t)"
    and run: "y_filling y" "s_written (y_sender y) \<noteq> t_size t" "able y" "y_end y = None"
  shows "\<exists>y' E' N'. steps t y y' \<and> y_filling y' \<and> able y' \<and> y_end y' = None \<and>
           transfer_inv t y' (base + WINDOW_SIZE) E' N' [] []"
proof -
  let ?M = "base + WINDOW_SIZE"
  obtain y1 where y1: "step t y y1" "\<not> y_filling y1" "y_end y1 = None" "able y1"
    "transfer_inv t y1 base E ?M (map Data [Suc base..<Suc ?M]) []"
    using round_step [OF inv mal run(1-3)] run(4) by auto
  have E: "base \<le> E" "E \<le> ?M" using y1(5) by (simp_all add: transfer_inv_def)
  obtain y2 as where y2: "steps t y1 y2" "client_kept y1 y2" "transfer_inv t y2 base (max E ?M) ?M [] as"
    "as \<noteq> []" "last as = Suc (max E ?M)"
    using deliver_window [OF y1(5,3,4) E(1)] by auto
  let ?n = "length as - 1" and ?y3 = "y2\<lparr>y_s2c := drop (length as - 1) (y_s2c y2)\<rparr>"
  have "drop ?n as = [Suc ?M]" using y2(4,5) E(2) by (metis append_butlast_last_id append_eq_conv_conj length_butlast max_absorb2)
  then have inv3: "transfer_inv t ?y3 base ?M ?M [] [Suc ?M]"
    using drop_inv [OF y2(3), where k = 0 and n = ?n] E(2) by (simp add: max_absorb2)
  have junk: "length (replicate PACKET_SIZE (0 :: byte)) = PACKET_SIZE" by simp
  have idle: "\<not> y_filling ?y3" using y1(2) y2(2) by (simp add: client_kept_def)
  obtain s' w' where r: "handle_reply (t_size t) (y_client ?y3)
       ((y_sender ?y3)\<lparr>s_read := int (length (control CMD_ACK (seq16 (Suc ?M)))),
          s_buffer := put_at (replicate PACKET_SIZE 0) 0 (control CMD_ACK (seq16 (Suc ?M)))\<rparr>) = Some (Next_reply s', w')"
    "quiet (y_client ?y3) w'"
    "transfer_inv t (?y3\<lparr>y_client := w', y_sender := s', y_s2c := map (\<lambda>a. control CMD_ACK (seq16 a)) []\<rparr>)
       (Suc ?M - 1) ?M ?M [] []"
    using inv3 junk idle by (rule reply_inv)
  let ?y4 = "?y3\<lparr>y_client := w', y_sender := s', y_s2c := []\<rparr>"
  have "y_s2c ?y3 = control CMD_ACK (seq16 (Suc ?M)) # []" using inv3 by (simp add: transfer_inv_def)
  note s2c = this
  have alive: "y_gone y2 = None" using client_kept_sends [OF y2(2) y1(4)] by (simp add: able_def)
  then have "y_gone ?y3 = None" "y_gone (?y3\<lparr>y_client := w', y_sender := s', y_s2c := []\<rparr>) = None" by simp_all
  note s34 = client_reply [OF this(1) idle s2c junk r(1)] and alive4 = this(2)
  have idle4: "\<not> y_filling ?y4" using idle by simp
  let ?y5 = "?y4\<lparr>y_sender := (y_sender ?y4)\<lparr>s_read := -1, s_buffer := replicate PACKET_SIZE 0\<rparr>, y_filling := True\<rparr>"
  have "steps t y ?y5"
    using y1(1) y2(1) drop_replies [of t y2 ?n] s34 client_idle [OF alive4 idle4 junk, of t]
    by (meson converse_rtranclp_into_rtranclp rtranclp.rtrancl_into_rtrancl rtranclp_trans)
  moreover have "transfer_inv t ?y5 ?M ?M ?M [] []" using idle_inv [OF _ junk, of t ?y4] r(3) by (simp add: add.commute)
  moreover have "able ?y5" "y_end ?y5 = None"
    using client_kept_sends [OF y2(2) y1(4)] r(2) y1(3) y2(2)
    by (simp_all add: able_def quiet_def same_answers_def client_kept_def)
  ultimately show ?thesis by (intro exI [of _ ?y5]) auto
qed

text \<open>A FIN on its way, from a client that can send.\<close>

lemma fin_step:
  assumes "y_filling y" "s_written (y_sender y) = t_size t" "y_gone y = None" "\<forall>k. w_send (y_client y) k = Tx_ok"
  obtains w where "step t y (y\<lparr>y_client := w, y_c2s := y_c2s y @ [control CMD_FIN 0]\<rparr>)" "same_answers (y_client y) w"
proof -
  let ?w = "y_client y"
  let ?w' = "?w\<lparr>n_send := Suc (n_send ?w), sent := sent ?w @ [(t_target t, control CMD_FIN 0)]\<rparr>"
  have "send_packet ?w (t_target t) (control CMD_FIN 0) = (0, ?w')"
    using assms(4) control_fields(4) by (intro send_packet_ok) simp_all
  from client_fin [OF assms(3,1,2) this] show thesis by (intro that [of ?w']) (simp_all add: newly_sent_def same_answers_def)
qed

lemma close_step:
  assumes inv: "transfer_inv t y base E N [] as"
    and run: "y_filling y" "s_written (y_sender y) = t_size t" "able y" "y_end y = None"
  shows "\<exists>y'. steps t y y' \<and> y_gone y' = Some 0 \<and> y_end y' = Some Fin_received"
proof -
  have live: "y_gone y = None" "\<forall>k. w_send (y_client y) k = Tx_ok" using run(3) by (simp_all add: able_def)
  obtain w where s1: "step t y (y\<lparr>y_client := w, y_c2s := y_c2s y @ [control CMD_FIN 0]\<rparr>)" (is "step t y ?y1")
    using fin_step [OF run(1,2) live] by blast
  let ?y2 = "?y1\<lparr>y_server := y_server ?y1, y_end := Some Fin_received, y_c2s := [],
    y_s2c := y_s2c ?y1 @ newly_sent (y_server ?y1) (y_server ?y1)\<rparr>"
  have inv1: "transfer_inv t ?y1 base E N (Fin # []) as" using fin_inv [OF inv run(2)] by simp
  have junk: "length (replicate PACKET_SIZE (0 :: byte)) = PACKET_SIZE" by simp
  have end1: "y_end ?y1 = None" using run(4) by simp
  have "y_c2s ?y1 = control CMD_FIN 0 # []" using inv by (simp add: transfer_inv_def)
  then have "step t ?y1 ?y2"
    using end1 by (intro server_end [OF _ _ junk server_fin [OF inv1 junk end1]]) simp_all
  moreover have "step t ?y2 (?y2\<lparr>y_gone := Some 0\<rparr>)" using run live by (intro client_ends) simp_all
  ultimately have "steps t y (?y2\<lparr>y_gone := Some 0\<rparr>)"
    using s1 by (meson converse_rtranclp_into_rtranclp r_into_rtranclp)
  then show ?thesis by (intro exI [of _ "?y2\<lparr>y_gone := Some 0\<rparr>"]) simp
qed

text \<open>The client can get all its data acknowledged, and then the server can accept its FIN.\<close>

lemma can_send_all:
  assumes "transfer_inv t y base E N [] []" and "malloc_serves WINDOW_SIZE (t_malloc t)"
    and "y_filling y" and "able y" and "y_end y = None"
  shows "\<exists>y' base' E' N'. steps t y y' \<and> transfer_inv t y' base' E' N' [] [] \<and> y_filling y' \<and>
           s_written (y_sender y') = t_size t \<and> able y' \<and> y_end y' = None"
  using assms
proof (induction "length (t_content t) - PAYLOAD_SIZE * base" arbitrary: y base E N rule: less_induct)
  case less
  show ?case
  proof (cases "s_written (y_sender y) = t_size t")
    case True
    then show ?thesis using less.prems by blast
  next
    case False
    obtain y1 E' N' where y1: "steps t y y1" "y_filling y1" "able y1" "y_end y1 = None"
      "transfer_inv t y1 (base + WINDOW_SIZE) E' N' [] []"
      using window_round [OF less.prems(1,2,3) False less.prems(4,5)] by blast
    have "PAYLOAD_SIZE * base < length (t_content t)"
      using less.prems(1) False by (auto simp: transfer_inv_def sending_def t_size_def min_def split: if_splits)
    then have "length (t_content t) - PAYLOAD_SIZE * (base + WINDOW_SIZE) < length (t_content t) - PAYLOAD_SIZE * base"
      by simp
    from less.hyps [OF this y1(5) less.prems(2) y1(2,3,4)] y1(1) show ?thesis
      by (meson rtranclp_trans)
  qed
qed

lemma can_finish:
  assumes "transfer_inv t y base E N [] []" and "malloc_serves WINDOW_SIZE (t_malloc t)"
    and "y_filling y" and "able y" and "y_end y = None"
  shows "\<exists>y'. steps t y y' \<and> y_gone y' = Some 0 \<and> y_end y' = Some Fin_received"
proof -
  obtain y1 base1 E1 N1 where "steps t y y1" "transfer_inv t y1 base1 E1 N1 [] []" "y_filling y1"
    "s_written (y_sender y1) = t_size t" "able y1" "y_end y1 = None"
    using can_send_all [OF assms] by blast
  with close_step show ?thesis by (metis rtranclp_trans)
qed

lemma calm_down:
  assumes inv: "transfer_inv t y base E N ms as" and "able y" and "y_end y = None"
  shows "\<exists>y'. steps t y y' \<and> transfer_inv t y' base E N [] [] \<and> y_filling y' \<and> able y' \<and> y_end y' = None"
proof -
  let ?y1 = "y\<lparr>y_c2s := []\<rparr>" and ?y2 = "y\<lparr>y_c2s := [], y_s2c := []\<rparr>"
  have "steps t y ?y1" using drop_data [of t y "length (y_c2s y)"] by simp
  moreover have "steps t ?y1 ?y2" using drop_replies [of t ?y1 "length (y_s2c y)"] by simp
  ultimately have s: "steps t y ?y2" by (rule rtranclp_trans)
  have "length ms = length (y_c2s y)" "length as = length (y_s2c y)" using inv by (auto simp: transfer_inv_def)
  then have i: "transfer_inv t ?y2 base E N [] []"
    using drop_inv [OF inv, where k = "length (y_c2s y)" and n = "length (y_s2c y)"] by simp
  have w: "able ?y2" "y_end ?y2 = None" using assms(2,3) by (simp_all add: able_def)
  have junk: "length (replicate PACKET_SIZE (0 :: byte)) = PACKET_SIZE" by simp
  show ?thesis
  proof (cases "y_filling y")
    case True
    with s i w show ?thesis by (intro exI [of _ ?y2]) simp
  next
    case False
    let ?y3 = "?y2\<lparr>y_sender := (y_sender ?y2)\<lparr>s_read := -1, s_buffer := replicate PACKET_SIZE 0\<rparr>,
        y_filling := True\<rparr>"
    have "step t ?y2 ?y3" using False assms(2) by (intro client_idle junk) (simp_all add: able_def)
    with s have "steps t y ?y3" by (rule rtranclp.rtrancl_into_rtrancl)
    with idle_inv [OF i junk] w show ?thesis by (intro exI [of _ ?y3]) (simp add: able_def)
  qed
qed

lemma transfer_can_end:
  assumes "reachable t y" and "malloc_serves WINDOW_SIZE (t_malloc t)" and "able y" and "y_end y = None"
  shows "\<exists>y'. steps t y y' \<and> reachable t y' \<and> y_gone y' = Some 0 \<and> y_end y' = Some Fin_received"
proof -
  obtain base E N ms as where "transfer_inv t y base E N ms as" using reachable_inv assms(1,2) by blast
  then obtain y1 where "steps t y y1" "transfer_inv t y1 base E N [] []" "y_filling y1" "able y1" "y_end y1 = None"
    using calm_down assms(3,4) by blast
  with can_finish assms(2) show ?thesis by (meson assms(1) reachable_steps rtranclp_trans)
qed

section \<open>Properties\<close>

text \<open>
  C6: at every moment of a transfer over channels that lose and duplicate datagrams, unless the
  server has timed out and removed it, the file on the server is a prefix of the file on the client:
  no chunk is ever skipped, repeated or reordered, although the sequence numbers wrap around.
\<close>

theorem transfer_prefix:
  assumes "reachable t y" and "malloc_serves WINDOW_SIZE (t_malloc t)"
    and "y_end y \<noteq> Some (Stop (Exit TIMEOUT))"
  shows "\<exists>k. files (y_server y) (t_name t) = Some (take k (t_content t))"
  using reachable_inv [OF assms(1,2)] assms(3) by (auto simp: transfer_inv_def server_inv_def server_has_def)

text \<open>
  C7: when the client has counted every byte of the file as acknowledged, in particular when it has
  ended with status 0, the server has the whole file, unless the server has timed out.
\<close>

theorem transfer_client_done:
  assumes "reachable t y" and "malloc_serves WINDOW_SIZE (t_malloc t)"
    and "s_written (y_sender y) = t_size t \<or> y_gone y = Some 0"
    and "y_end y \<noteq> Some (Stop (Exit TIMEOUT))"
  shows "files (y_server y) (t_name t) = Some (t_content t)"
  using reachable_inv [OF assms(1,2)] transfer_inv_done assms(3,4) by (metis transfer_inv_def)

text \<open>
  C2: the server leaves its receive loop in two ways only: it accepts a FIN, and then its file equals
  the client's; or it times out, and then the file is gone. It never reports a bad request, an
  overrun or a failure, and never keeps a partial file.
\<close>

theorem transfer_server_done:
  assumes "reachable t y" and "malloc_serves WINDOW_SIZE (t_malloc t)" and "y_end y = Some act"
  shows "act = Fin_received \<and> files (y_server y) (t_name t) = Some (t_content t) \<or>
         act = Stop (Exit TIMEOUT) \<and> files (y_server y) (t_name t) = None"
proof -
  obtain base E N ms as where inv: "transfer_inv t y base E N ms as"
    using reachable_inv [OF assms(1,2)] by blast
  then consider "act = Fin_received" "s_written (y_sender y) = t_size t"
    | "act = Stop (Exit TIMEOUT)" "files (y_server y) (t_name t) = None"
    using assms(3) by (auto simp: transfer_inv_def server_inv_def)
  then show ?thesis using transfer_inv_done [OF inv] assms(3) by cases auto
qed

text \<open>
  C9: no sequence of losses and duplications leads to a dead end: as long as neither process has
  ended and the two machines can send, the transfer can still be completed from where it is: the
  server accepts the client's FIN, has the client's file, and the client ends with status 0.
\<close>

theorem transfer_never_stuck:
  assumes "reachable t y" and "malloc_serves WINDOW_SIZE (t_malloc t)" and "able y" and "y_end y = None"
  shows "\<exists>y'. steps t y y' \<and> y_gone y' = Some 0 \<and> y_end y' = Some Fin_received \<and>
              files (y_server y') (t_name t) = Some (t_content t)"
proof -
  obtain y' where y': "steps t y y'" "reachable t y'" "y_gone y' = Some 0" "y_end y' = Some Fin_received"
    using transfer_can_end [OF assms] by blast
  obtain base E N ms as where inv: "transfer_inv t y' base E N ms as" using reachable_inv y'(2) assms(2) by blast
  then have "s_written (y_sender y') = t_size t" using y'(3) by (simp add: transfer_inv_def)
  with y' transfer_inv_done [OF inv] show ?thesis by auto
qed


section \<open>Examples\<close>

definition example_transfer :: transfer where
  "example_transfer =
     \<lparr>t_content = [1, 2, 3], t_name = [97], t_malloc = first_free WINDOW_SIZE,
      t_target = \<lparr>sin_addr = 1, sin_port = 2\<rparr>, t_origin = \<lparr>sin_addr = 3, sin_port = 4\<rparr>\<rparr>"

definition example_start :: system where
  "example_start =
     \<lparr>y_client = silent_world, y_sender = start_sender [1, 2, 3] (replicate PACKET_SIZE 0) 0, y_filling = True, y_gone = None,
      y_server = silent_world\<lparr>files := [[97] \<mapsto> []]\<rparr>, y_read = 0, y_expected = 1, y_end = None,
      y_c2s = [], y_s2c = [control CMD_ACK 1]\<rparr>"

lemma example_malloc: "malloc_serves WINDOW_SIZE (t_malloc example_transfer)"
  by (simp add: example_transfer_def malloc_serves_first_free)

lemma example_reachable: "reachable example_transfer example_start"
proof (rule reachable.start)
  have "\<exists>buffer now k. length buffer = PACKET_SIZE \<and>
      y_sender example_start = start_sender (t_content example_transfer) buffer now \<and>
      y_s2c example_start = replicate k (control CMD_ACK 1)"
    by (rule exI [of _ "replicate PACKET_SIZE 0"], rule exI [of _ 0], rule exI [of _ 1])
      (simp add: example_start_def example_transfer_def)
  then show "start_system example_transfer example_start"
    by (simp add: start_system_def) (simp add: example_start_def example_transfer_def silent_world_def)
qed

lemma example_sends: "able example_start" "y_end example_start = None"
  by (simp_all add: able_def example_start_def silent_world_def)

lemma example_end:
  "\<exists>y. reachable example_transfer y \<and> y_end y = Some Fin_received \<and> y_gone y = Some 0"
  using transfer_can_end [OF example_reachable example_malloc example_sends] by blast

theorem transfer_prefix_witness:
  "\<exists>y. reachable example_transfer y \<and> y_end y = Some Fin_received \<and>
     (\<exists>k. files (y_server y) (t_name example_transfer) = Some (take k (t_content example_transfer)))"
  using example_end transfer_prefix [OF _ example_malloc] by fastforce

theorem transfer_client_done_witness:
  "\<exists>y. reachable example_transfer y \<and> y_gone y = Some 0 \<and>
     files (y_server y) (t_name example_transfer) = Some (t_content example_transfer)"
proof -
  obtain y where y: "reachable example_transfer y" "y_end y = Some Fin_received" "y_gone y = Some 0"
    using example_end by blast
  then have "files (y_server y) (t_name example_transfer) = Some (t_content example_transfer)"
    by (intro transfer_client_done [OF y(1) example_malloc]) simp_all
  with y show ?thesis by blast
qed

theorem transfer_server_done_witness:
  "\<exists>y. reachable example_transfer y \<and> y_end y = Some Fin_received \<and>
     files (y_server y) (t_name example_transfer) = Some (t_content example_transfer)"
  using example_end transfer_server_done [OF _ example_malloc] by fastforce

theorem transfer_never_stuck_witness:
  "\<exists>y'. steps example_transfer example_start y' \<and> y_gone y' = Some 0 \<and> y_end y' = Some Fin_received \<and>
     files (y_server y') (t_name example_transfer) = Some (t_content example_transfer)"
  by (rule transfer_never_stuck [OF example_reachable example_malloc example_sends])


end
