(* ===== verification/Ft_Copy.thy ===== *)
theory Ft_Copy
  imports Ft_Transfer
begin

text \<open>
  What a transfer promises, without packets, windows or acknowledgements: a copy that grows as a
  prefix of the source until it is complete or discarded. The joint system of client, server and
  channels implements this specification.
\<close>

section \<open>The specification\<close>

datatype copy_status = Copying | Copied | Discarded

record copy =
  cp_source :: buffer
  cp_target :: "buffer option"
  cp_status :: copy_status

inductive copy_step :: "copy \<Rightarrow> copy \<Rightarrow> bool" where
  extend: "cp_status c = Copying \<Longrightarrow> cp_target c = Some (take k (cp_source c)) \<Longrightarrow> k \<le> k' \<Longrightarrow>
    copy_step c (c\<lparr>cp_target := Some (take k' (cp_source c))\<rparr>)"
| complete: "cp_status c = Copying \<Longrightarrow> cp_target c = Some (cp_source c) \<Longrightarrow> copy_step c (c\<lparr>cp_status := Copied\<rparr>)"
| discard: "cp_status c = Copying \<Longrightarrow> copy_step c (c\<lparr>cp_target := None, cp_status := Discarded\<rparr>)"

inductive_cases copy_stepE: "copy_step c c'"

definition new_copy :: "buffer \<Rightarrow> copy" where
  "new_copy content = \<lparr>cp_source = content, cp_target = Some [], cp_status = Copying\<rparr>"

text \<open>What the specification guarantees: the copy is never anything but a prefix, complete when it says so.\<close>

definition copy_ok :: "copy \<Rightarrow> bool" where
  "copy_ok c \<longleftrightarrow>
     (case cp_status c of
        Copying \<Rightarrow> \<exists>k. cp_target c = Some (take k (cp_source c))
      | Copied \<Rightarrow> cp_target c = Some (cp_source c)
      | Discarded \<Rightarrow> cp_target c = None)"

interpretation copying: invariant_system "\<lambda>c. c = new_copy content" copy_step
  "\<lambda>c. cp_source c = content \<and> copy_ok c" for content
  by unfold_locales (auto simp: new_copy_def copy_ok_def elim!: copy_stepE)

text \<open>A copy that has ended stays as it is.\<close>

lemma copy_final:
  assumes "copy_step\<^sup>*\<^sup>* c c'" and "cp_status c \<noteq> Copying"
  shows "c' = c"
  using assms(1) by (cases rule: converse_rtranclpE) (use assms(2) in \<open>auto elim: copy_stepE\<close>)

section \<open>The transfer as a copy\<close>

fun status_of :: "next_action option \<Rightarrow> copy_status" where
  "status_of None = Copying"
| "status_of (Some Fin_received) = Copied"
| "status_of (Some _) = Discarded"

definition copy_of :: "transfer \<Rightarrow> system \<Rightarrow> copy" where
  "copy_of t y =
     \<lparr>cp_source = t_content t, cp_target = files (y_server y) (t_name t), cp_status = status_of (y_end y)\<rparr>"

lemma copy_of_again:
  assumes "transfer_inv t y base E N ms as" and "transfer_inv t y' base' E' N' ms' as'" and "E \<le> E'"
    and "y_end y = None" and "y_end y' = None"
  shows "copy_step (copy_of t y) (copy_of t y')"
proof -
  have "files (y_server y) (t_name t) = Some (take (PAYLOAD_SIZE * E) (t_content t))"
    "files (y_server y') (t_name t) = Some (take (PAYLOAD_SIZE * E') (t_content t))"
    using assms by (simp_all add: transfer_inv_def server_inv_def server_has_def)
  then show ?thesis
    using copy_step.extend [of "copy_of t y" "PAYLOAD_SIZE * E" "PAYLOAD_SIZE * E'"] assms(3-5)
    by (simp add: copy_of_def)
qed

lemma copy_of_end:
  assumes inv: "transfer_inv t y' base E N ms as" and "y_end y = None" and "y_end y' = Some act"
    and "files (y_server y') (t_name t) = files (y_server y) (t_name t) \<or> act \<noteq> Fin_received"
  shows "copy_step (copy_of t y) (copy_of t y')"
proof -
  consider "act = Fin_received" "s_written (y_sender y') = t_size t"
    | "act = Stop (Exit TIMEOUT)" "files (y_server y') (t_name t) = None"
    using inv assms(3) by (auto simp: transfer_inv_def server_inv_def)
  then show ?thesis
  proof cases
    case 1
    then have "files (y_server y') (t_name t) = Some (t_content t)" using transfer_inv_done [OF inv] assms(3) by simp
    with 1 assms show ?thesis using copy_step.complete [of "copy_of t y"] by (simp add: copy_of_def)
  next
    case 2
    with assms show ?thesis using copy_step.discard [of "copy_of t y"] by (simp add: copy_of_def)
  qed
qed

lemma handle_packet_accepts_fin:
  "handle_packet w origin name fs read e b = (Fin_received, w') \<Longrightarrow> w' = w"
  by (auto simp: handle_packet_def Let_def split: if_splits prod.splits)

lemma copy_of_step:
  assumes st: "step t y y'" and inv: "transfer_inv t y base E N ms as"
    and mal: "malloc_serves WINDOW_SIZE (t_malloc t)"
  shows "copy_of t y' = copy_of t y \<or> copy_step (copy_of t y) (copy_of t y')"
proof -
  obtain base' E' N' ms' as' where inv': "transfer_inv t y' base' E' N' ms' as'"
    using step_inv [OF st inv mal] by blast
  from st show ?thesis
  proof cases
    case (server_again p rest junk r e w')
    then show ?thesis
      using again_inv [OF inv server_again(3,4,2,5)] copy_of_again [OF inv] by fastforce
  next
    case (server_end p rest junk act w')
    have "w' = y_server y" if "act = Fin_received"
      using server_end(5) that by (metis handle_packet_accepts_fin)
    then have "files (y_server y') (t_name t) = files (y_server y) (t_name t) \<or> act \<noteq> Fin_received"
      using server_end(1) by auto
    with server_end inv' copy_of_end show ?thesis by fastforce
  next
    case server_timeout
    with inv' copy_of_end show ?thesis by fastforce
  qed (simp_all add: copy_of_def quiet_def)
qed

section \<open>The refinement\<close>

text \<open>The runs of the joint system, one for each transfer whose allocator serves a window.\<close>

definition run_init :: "transfer \<times> system \<Rightarrow> bool" where
  "run_init = (\<lambda>(t, y). start_system t y \<and> malloc_serves WINDOW_SIZE (t_malloc t))"

definition run_step :: "transfer \<times> system \<Rightarrow> transfer \<times> system \<Rightarrow> bool" where
  "run_step = (\<lambda>(t, y) (t', y'). t' = t \<and> step t y y')"

definition run_inv :: "transfer \<times> system \<Rightarrow> bool" where
  "run_inv = (\<lambda>(t, y). malloc_serves WINDOW_SIZE (t_malloc t) \<and> (\<exists>base E N ms as. transfer_inv t y base E N ms as))"

interpretation transfer_copies: simulation run_init run_step run_inv
  "case_prod copy_of" "\<lambda>c. c = new_copy (cp_source c)" copy_step
proof
  fix c c' :: "transfer \<times> system"
  obtain t y t' y' where c: "c = (t, y)" "c' = (t', y')" by (metis surj_pair)
  show "run_init c \<Longrightarrow> run_inv c" using start_inv [of t y] unfolding c run_init_def run_inv_def prod.case by blast
  show "run_inv c'" if i: "run_inv c" and s: "run_step c c'"
  proof -
    obtain base E N ms as where "transfer_inv t y base E N ms as" "malloc_serves WINDOW_SIZE (t_malloc t)"
      using i by (auto simp: c run_inv_def)
    with step_inv [of t y y'] s show ?thesis by (auto simp: c run_inv_def run_step_def)
  qed
  show "run_init c \<Longrightarrow> case_prod copy_of c = new_copy (cp_source (case_prod copy_of c))"
    by (auto simp: c run_init_def start_system_def copy_of_def new_copy_def)
  show "case_prod copy_of c' = case_prod copy_of c \<or> copy_step (case_prod copy_of c) (case_prod copy_of c')"
    if i: "run_inv c" and s: "run_step c c'"
  proof -
    obtain base E N ms as where "transfer_inv t y base E N ms as" "malloc_serves WINDOW_SIZE (t_malloc t)"
      using i by (auto simp: c run_inv_def)
    with copy_of_step [of t y y'] s show ?thesis by (auto simp: c run_step_def)
  qed
qed

lemma reachable_run:
  "reachable t y \<Longrightarrow> \<exists>y0. start_system t y0 \<and> run_step\<^sup>*\<^sup>* (t, y0) (t, y)"
proof (induction rule: reachable.induct)
  case (more y y')
  have "run_step (t, y) (t, y')" using more.hyps by (simp add: run_step_def)
  with more.IH show ?case by (blast intro: rtranclp.rtrancl_into_rtrancl)
qed blast

text \<open>
  C3: the transfer implements the abstract copy: whatever the channels lose or duplicate and whenever
  a process gives up, what the server's directory shows is a run of the specification, which extends
  the copy as a prefix of the client's file, completes it only when it equals that file, and
  otherwise discards it.
\<close>

theorem transfer_refines_copy:
  assumes "reachable t y" and "malloc_serves WINDOW_SIZE (t_malloc t)"
  shows "copy_step\<^sup>*\<^sup>* (new_copy (t_content t)) (copy_of t y) \<and> copy_ok (copy_of t y)"
proof -
  obtain y0 where y0: "start_system t y0" "run_step\<^sup>*\<^sup>* (t, y0) (t, y)" using reachable_run [OF assms(1)] by blast
  then have "run_init (t, y0)" using assms(2) by (simp add: run_init_def)
  with transfer_copies.run_simulated [OF y0(2)] have "copy_step\<^sup>*\<^sup>* (new_copy (t_content t)) (copy_of t y)"
    by (auto simp: copy_of_def [of t y0])
  with copying.run_inv [OF refl] show ?thesis by blast
qed

theorem transfer_refines_copy_witness:
  "\<exists>y. y_end y = Some Fin_received \<and>
     copy_step\<^sup>*\<^sup>* (new_copy (t_content example_transfer)) (copy_of example_transfer y) \<and>
     copy_ok (copy_of example_transfer y)"
  using example_end transfer_refines_copy [OF _ example_malloc] by blast

end
