(* ===== verification/Ft_Reorder.thy ===== *)
theory Ft_Reorder
  imports Ft_Transfer
begin

text \<open>
  The joint system over channels that lose and duplicate nothing but may reorder datagrams, as UDP may. Two
  acknowledgements in the wrong order and a FIN ahead of data are enough to lose the file while the
  client reports success.
\<close>

section \<open>Reordering without loss\<close>

text \<open>
  Loss and duplication change a channel and nothing else. A step of the system in which something else changes
  is therefore one of a process: it takes at most the oldest datagram of its channel, and adds what it has
  sent (\<open>nothing_lost\<close>).
\<close>

definition process_moves :: "system \<Rightarrow> system \<Rightarrow> bool" where
  "process_moves y y' \<longleftrightarrow> y' \<noteq> y\<lparr>y_c2s := y_c2s y', y_s2c := y_s2c y'\<rparr>"

inductive reorder_step :: "transfer \<Rightarrow> system \<Rightarrow> system \<Rightarrow> bool" for t where
  process: "step t y y' \<Longrightarrow> process_moves y y' \<Longrightarrow> reorder_step t y y'"
| reorder_data: "y_c2s y = xs @ p # q # ys \<Longrightarrow> reorder_step t y (y\<lparr>y_c2s := xs @ q # p # ys\<rparr>)"
| reorder_reply: "y_s2c y = xs @ p # q # ys \<Longrightarrow> reorder_step t y (y\<lparr>y_s2c := xs @ q # p # ys\<rparr>)"

abbreviation reorder_steps :: "transfer \<Rightarrow> system \<Rightarrow> system \<Rightarrow> bool" where
  "reorder_steps t \<equiv> (reorder_step t)\<^sup>*\<^sup>*"

lemma nothing_lost:
  assumes "step t y y'" and "process_moves y y'"
  shows "(\<exists>new. y_c2s y' = y_c2s y @ new) \<or> (\<exists>p. y_c2s y = p # y_c2s y')"
    and "(\<exists>new. y_s2c y' = y_s2c y @ new) \<or> (\<exists>p. y_s2c y = p # y_s2c y')"
  using assms by (induction rule: step.induct) (simp_all add: process_moves_def)

lemma moves:
  "y_client y' \<noteq> y_client y \<or> y_sender y' \<noteq> y_sender y \<or> y_filling y' \<noteq> y_filling y \<or> y_gone y' \<noteq> y_gone y \<or>
   y_expected y' \<noteq> y_expected y \<or> y_end y' \<noteq> y_end y \<Longrightarrow> process_moves y y'"
  by (cases y, cases y') (auto simp: process_moves_def)

text \<open>One datagram overtakes all that were sent before it.\<close>

lemma overtakes: "y_c2s y = xs @ p # ys \<Longrightarrow> reorder_steps t y (y\<lparr>y_c2s := p # xs @ ys\<rparr>)"
proof (induction xs arbitrary: y ys rule: rev_induct)
  case Nil
  then have "y\<lparr>y_c2s := p # ys\<rparr> = y" by (cases y) simp
  then show ?case by simp
next
  case (snoc x xs)
  then have "reorder_step t y (y\<lparr>y_c2s := xs @ p # x # ys\<rparr>)" by (intro reorder_data) simp
  moreover have "reorder_steps t (y\<lparr>y_c2s := xs @ p # x # ys\<rparr>) (y\<lparr>y_c2s := xs @ p # x # ys, y_c2s := p # xs @ (x # ys)\<rparr>)"
    by (rule snoc.IH) simp
  ultimately show ?case by (simp add: converse_rtranclp_into_rtranclp)
qed

section \<open>The run\<close>

text \<open>A FIN before all bytes have arrived: the server removes the file and reports a bad request.\<close>

lemma handle_early_fin:
  assumes "length junk = PACKET_SIZE" and "read \<noteq> filesize"
  shows "handle_packet w origin name filesize read e (put_at junk 0 (control CMD_FIN 0)) =
           (Stop (Exit BAD_REQUEST), unlink_file w name)"
proof -
  have "put_at junk 0 (control CMD_FIN 0) ! 0 = CMD_FIN"
    using received_packet(1) [OF control_fields(4), of CMD_FIN 0 junk] assms(1)
    unfolding pkt_cmd_def [symmetric] by simp
  with assms(2) show ?thesis by (simp add: handle_packet_def)
qed

text \<open>The window has been sent, and its first two packets have arrived and are acknowledged.\<close>

lemma expected_is:
  "transfer_inv t y base E N ms as \<Longrightarrow> y_end y = None \<Longrightarrow> y_expected y = seq16 (Suc E) \<and> y_read y = int (min (PAYLOAD_SIZE * E) (length (t_content t)))"
  by (simp add: transfer_inv_def server_inv_def server_has_def)

lemma deliver_next:
  assumes inv: "transfer_inv t y base E N (Data (Suc E) # ms) as" and run: "y_end y = None" "able y" "\<not> y_filling y"
  obtains y' where "reorder_step t y y'" "transfer_inv t y' base (Suc E) N ms (as @ [Suc (Suc E)])"
    "y_end y' = None" "able y'" "\<not> y_filling y'"
proof -
  obtain y' where y': "step t y y'" "client_kept y y'" "transfer_inv t y' base (Suc E) N ms (as @ [Suc (Suc E)])"
    using deliver_one [OF inv run(1,2)] by (auto simp: after_data_def)
  then have "y_end y' = None" using run(1) by (simp add: client_kept_def)
  with expected_is [OF y'(3)] expected_is [OF inv run(1)] have "y_expected y' \<noteq> y_expected y"
    using seq16_near_eq_iff [of "Suc E" "Suc (Suc E)"] by auto
  then have "reorder_step t y y'" using y'(1) by (intro process moves) simp_all
  with y' run \<open>y_end y' = None\<close> client_kept_sends [OF y'(2) run(2)] show thesis
    by (intro that [of y']) (simp_all add: client_kept_def)
qed

lemma two_acknowledged:
  assumes start: "start_system t y" "y_s2c y = []" "able y"
    and mal: "malloc_serves WINDOW_SIZE (t_malloc t)" and long: "2 * PAYLOAD_SIZE < length (t_content t)"
  obtains y' where "reorder_steps t y y'" and "\<not> y_filling y'" and "able y'" and "y_end y' = None"
    and "transfer_inv t y' 0 2 WINDOW_SIZE (map Data [3..<Suc WINDOW_SIZE]) [2, 3]"
proof -
  obtain as where inv: "transfer_inv t y 0 0 0 [] as" using start_inv start(1) by blast
  then have as: "as = []" using start(2) by (simp add: transfer_inv_def)
  have run: "y_filling y" "y_end y = None" using start(1) by (simp_all add: start_system_def)
  have "s_written (y_sender y) \<noteq> t_size t"
    using inv long by (auto simp: transfer_inv_def sending_def t_size_def)
  then obtain y1 where y1: "step t y y1" "\<not> y_filling y1" "y_end y1 = None" "able y1"
    "transfer_inv t y1 0 0 WINDOW_SIZE (map Data [Suc 0..<Suc WINDOW_SIZE]) []"
    using round_step [OF inv mal run(1) _ start(3)] run(2) as by auto
  have s1: "reorder_step t y y1" using y1(1,2) run(1) by (intro process moves) simp_all
  have "[Suc 0..<Suc WINDOW_SIZE] = Suc 0 # Suc 1 # [3..<Suc WINDOW_SIZE]"
    by (simp add: upt_conv_Cons eval_nat_numeral del: upt_Suc)
  then have "transfer_inv t y1 0 0 WINDOW_SIZE (Data (Suc 0) # Data (Suc 1) # map Data [3..<Suc WINDOW_SIZE]) []"
    using y1(5) by (simp del: upt_Suc)
  then have inv1: "transfer_inv t y1 0 0 WINDOW_SIZE (Data (Suc 0) # Data (Suc (Suc 0)) # map Data [3..<Suc WINDOW_SIZE]) []" by simp
  obtain y2 where y2: "reorder_step t y1 y2" "y_end y2 = None" "able y2" "\<not> y_filling y2"
    "transfer_inv t y2 0 (Suc 0) WINDOW_SIZE (Data (Suc (Suc 0)) # map Data [3..<Suc WINDOW_SIZE]) ([] @ [Suc (Suc 0)])"
    by (rule deliver_next [OF inv1 y1(3,4,2)])
  have "[] @ [Suc (Suc 0)] = [2 :: nat]" by simp
  with y2(5) have inv2: "transfer_inv t y2 0 (Suc 0) WINDOW_SIZE (Data (Suc (Suc 0)) # map Data [3..<Suc WINDOW_SIZE]) [2]" by metis
  obtain y3 where y3: "reorder_step t y2 y3" "y_end y3 = None" "able y3" "\<not> y_filling y3"
    "transfer_inv t y3 0 (Suc (Suc 0)) WINDOW_SIZE (map Data [3..<Suc WINDOW_SIZE]) ([2] @ [Suc (Suc (Suc 0))])"
    by (rule deliver_next [OF inv2 y2(2-4)])
  moreover have "Suc (Suc 0) = 2" "[2] @ [Suc (Suc (Suc 0))] = [2, 3 :: nat]" by simp_all
  ultimately have inv3: "transfer_inv t y3 0 2 WINDOW_SIZE (map Data [3..<Suc WINDOW_SIZE]) [2, 3]" by metis
  have "reorder_steps t y y3" using s1 y2(1) y3(1) by (meson converse_rtranclp_into_rtranclp r_into_rtranclp)
  with y3 inv3 show thesis by (intro that)
qed

text \<open>A client whose window starts behind packet 2 takes the acknowledgement of packet 1 for a recent one.\<close>

lemma stale_reply:
  assumes "sending content s 2 WINDOW_SIZE" and "length content \<le> PAYLOAD_SIZE * WINDOW_SIZE"
    and "length junk = PACKET_SIZE"
  obtains s' w' where "handle_reply fs w (s\<lparr>s_read := n, s_buffer := put_at junk 0 (control CMD_ACK (seq16 2))\<rparr>) =
      Some (Next_reply s', w')" and "s_written s' = int (length content)" and "quiet w w'"
proof -
  let ?s = "s\<lparr>s_read := n, s_buffer := put_at junk 0 (control CMD_ACK (seq16 2))\<rparr>"
  have snd: "sending content ?s 2 WINDOW_SIZE" using assms(1,3) by (simp add: sending_def)
  note rp = received_packet [OF control_fields(4), of CMD_ACK "seq16 2" junk]
  have b: "put_at junk 0 (control CMD_ACK (seq16 2)) ! 0 = CMD_ACK"
    "get_seq_num (put_at junk 0 (control CMD_ACK (seq16 2))) = seq16 2"
    using rp(1,2) assms(3) unfolding pkt_cmd_def [symmetric] by simp_all
  obtain s' w' where "ack_window (seq16 2) w ?s = Some (Return s', w')"
    "s_written s' = int (min (PAYLOAD_SIZE * WINDOW_SIZE) (length content))" "quiet w w'"
    using ack_window_stale [OF snd, of 2 w] by auto
  with b assms(2) show thesis by (intro that [of s' w']) (simp_all add: handle_reply_def)
qed

text \<open>From there: the two acknowledgements arrive in the wrong order.\<close>

lemma overtaken_acks:
  assumes inv: "transfer_inv t y 0 2 WINDOW_SIZE ms [2, 3]" and run: "\<not> y_filling y" "y_gone y = None"
    and long: "2 * PAYLOAD_SIZE < length (t_content t)" and short: "length (t_content t) \<le> PAYLOAD_SIZE * WINDOW_SIZE"
  obtains w s where "reorder_steps t y (y\<lparr>y_client := w, y_sender := s, y_s2c := []\<rparr>)"
    and "s_written s = t_size t" and "quiet (y_client y) w"
proof -
  let ?ack = "\<lambda>a. control CMD_ACK (seq16 a)" and ?junk = "replicate PACKET_SIZE (0 :: byte)"
  let ?y1 = "y\<lparr>y_s2c := [?ack 3, ?ack 2]\<rparr>" and ?y2 = "y\<lparr>y_s2c := [?ack 3]\<rparr>"
  have junk: "length ?junk = PACKET_SIZE" by simp
  have s2c: "y_s2c y = [] @ ?ack 2 # ?ack 3 # []" using inv by (simp add: transfer_inv_def)
  then have s1: "reorder_step t y ?y1" using reorder_reply [OF s2c, of t] by simp
  have inv2: "transfer_inv t ?y2 0 2 WINDOW_SIZE ms [3]"
    using drop_inv [OF inv, where k = 0 and n = 1] s2c by simp
  have idle2: "\<not> y_filling ?y2" using run(1) by simp
  obtain s w where "handle_reply (t_size t) (y_client ?y2)
       ((y_sender ?y2)\<lparr>s_read := int (length (?ack 3)), s_buffer := put_at ?junk 0 (?ack 3)\<rparr>) = Some (Next_reply s, w)"
    and q: "quiet (y_client ?y2) w"
    and h2: "transfer_inv t (?y2\<lparr>y_client := w, y_sender := s, y_s2c := map ?ack []\<rparr>) (3 - 1) 2 WINDOW_SIZE ms []"
    using inv2 junk idle2 by (rule reply_inv)
  then have h: "handle_reply (t_size t) (y_client y)
       ((y_sender y)\<lparr>s_read := int (length (?ack 3)), s_buffer := put_at ?junk 0 (?ack 3)\<rparr>) = Some (Next_reply s, w)"
    by simp
  have snd: "sending (t_content t) s 2 WINDOW_SIZE" using h2 by (simp add: transfer_inv_def)
  then obtain s' w' where h': "handle_reply (t_size t) w
       (s\<lparr>s_read := int (length (?ack 2)), s_buffer := put_at ?junk 0 (?ack 2)\<rparr>) =
       Some (Next_reply s', w')" "s_written s' = int (length (t_content t))" "quiet w w'"
    using stale_reply [OF _ short junk, where w = w and fs = "t_size t"] by blast
  have "s_written (y_sender y) = 0" using inv by (simp add: transfer_inv_def sending_def)
  moreover have "s_written s = int (2 * PAYLOAD_SIZE)" using snd long by (simp add: sending_def)
  ultimately have ne: "s \<noteq> y_sender y" "s' \<noteq> s" using h'(2) long by auto
  let ?y3 = "?y1\<lparr>y_client := w, y_sender := s, y_s2c := [?ack 2]\<rparr>"
  have "step t ?y1 ?y3" using run h by (intro client_reply [where junk = ?junk and p = "?ack 3"]) simp_all
  then have s2: "reorder_step t ?y1 ?y3" using ne(1) by (intro process moves) simp_all
  have "step t ?y3 (?y3\<lparr>y_client := w', y_sender := s', y_s2c := []\<rparr>)"
    using run h'(1) by (intro client_reply [where junk = ?junk and p = "?ack 2"]) simp_all
  then have s3: "reorder_step t ?y3 (?y3\<lparr>y_client := w', y_sender := s', y_s2c := []\<rparr>)" using ne(2) by (intro process moves) simp_all
  have "reorder_steps t y (?y3\<lparr>y_client := w', y_sender := s', y_s2c := []\<rparr>)"
    using s1 s2 s3 by (meson converse_rtranclp_into_rtranclp r_into_rtranclp)
  moreover have "?y3\<lparr>y_client := w', y_sender := s', y_s2c := []\<rparr> = y\<lparr>y_client := w', y_sender := s', y_s2c := []\<rparr>" by simp
  moreover have "s_written s' = t_size t" using h'(2) by (simp add: t_size_def)
  moreover have "quiet (y_client y) w'" using quiet_trans [OF _ h'(3)] q by simp
  ultimately show thesis using that by metis
qed

text \<open>The client sends its FIN, and the FIN overtakes the data in front of it.\<close>

lemma fin_overtakes:
  assumes run: "\<not> y_filling y" "y_gone y = None" "y_end y = None" "\<forall>k. w_send (y_client y) k = Tx_ok"
    and written: "s_written (y_sender y) = t_size t" and read: "y_read y \<noteq> t_size t"
  obtains y' where "reorder_steps t y y'" "y_gone y' = Some 0" "y_end y' = Some (Stop (Exit BAD_REQUEST))"
    "files (y_server y') (t_name t) = None"
proof -
  let ?junk = "replicate PACKET_SIZE (0 :: byte)" and ?fin = "control CMD_FIN 0"
  have junk: "length ?junk = PACKET_SIZE" by simp
  let ?y1 = "y\<lparr>y_sender := (y_sender y)\<lparr>s_read := -1, s_buffer := ?junk\<rparr>, y_filling := True\<rparr>"
  have s1: "reorder_step t y ?y1" using run by (intro process client_idle moves) simp_all
  let ?w' = "(y_client y)\<lparr>n_send := Suc (n_send (y_client y)), sent := sent (y_client y) @ [(t_target t, ?fin)]\<rparr>"
  let ?y2 = "?y1\<lparr>y_client := ?w', y_c2s := y_c2s y @ [?fin]\<rparr>"
  have "send_packet (y_client y) (t_target t) ?fin = (0, ?w')"
    using run(4) control_fields(4) by (intro send_packet_ok) simp_all
  then have "step t ?y1 (?y1\<lparr>y_client := ?w', y_c2s := y_c2s ?y1 @ newly_sent (y_client ?y1) ?w'\<rparr>)"
    using run written by (intro client_fin) simp_all
  then have "step t ?y1 ?y2" by (simp add: newly_sent_def)
  moreover have "?w' \<noteq> y_client y"
  proof
    assume "?w' = y_client y"
    then have "n_send ?w' = n_send (y_client y)" by (rule arg_cong)
    then show False by simp
  qed
  ultimately have s2: "reorder_step t ?y1 ?y2" by (intro process moves) simp_all
  let ?y3 = "?y2\<lparr>y_c2s := ?fin # y_c2s y\<rparr>"
  have s3: "reorder_steps t ?y2 ?y3" using overtakes [of ?y2 "y_c2s y" ?fin "[]" t] by simp
  let ?y4 = "?y3\<lparr>y_server := unlink_file (y_server y) (t_name t), y_end := Some (Stop (Exit BAD_REQUEST)), y_c2s := y_c2s y\<rparr>"
  have "step t ?y3 (?y3\<lparr>y_server := unlink_file (y_server y) (t_name t), y_end := Some (Stop (Exit BAD_REQUEST)),
      y_c2s := y_c2s y, y_s2c := y_s2c ?y3 @ newly_sent (y_server ?y3) (unlink_file (y_server y) (t_name t))\<rparr>)"
    using handle_early_fin [OF junk read] run(3) by (intro server_end [where junk = ?junk and p = ?fin]) simp_all
  moreover have "newly_sent (y_server y) (unlink_file (y_server y) (t_name t)) = []" by (simp add: newly_sent_def unlink_file_def)
  ultimately have "step t ?y3 ?y4" by simp
  then have s4: "reorder_step t ?y3 ?y4" using run(3) by (intro process moves) simp_all
  have s5: "reorder_step t ?y4 (?y4\<lparr>y_gone := Some 0\<rparr>)" using run written by (intro process client_ends moves) simp_all
  have "reorder_steps t y (?y4\<lparr>y_gone := Some 0\<rparr>)"
    using s1 s2 s3 s4 s5 by (meson converse_rtranclp_into_rtranclp r_into_rtranclp rtranclp_trans)
  then show thesis by (rule that) (simp_all add: unlink_file_def)
qed

section \<open>Property\<close>

text \<open>
  C21: reordering alone loses the file. For every file of more than two packets and at most fifty there is
  a run over a network that loses and duplicates nothing in which the client ends with status 0 and
  the server removes the file and exits with the code for a bad request: the acknowledgements of the
  first two packets arrive in the wrong order, the client takes the older one for an acknowledgement
  of its whole window, and the FIN it sends overtakes data that is still on its way.
\<close>

theorem reordering_discards_file:
  assumes "start_system t y" and "y_s2c y = []" and "able y"
    and "malloc_serves WINDOW_SIZE (t_malloc t)" and "2 * PAYLOAD_SIZE < length (t_content t)"
    and "length (t_content t) \<le> PAYLOAD_SIZE * WINDOW_SIZE"
  shows "\<exists>y'. reorder_steps t y y' \<and> y_gone y' = Some 0 \<and> y_end y' = Some (Stop (Exit BAD_REQUEST)) \<and>
              files (y_server y') (t_name t) = None"
proof -
  obtain y1 where y1: "reorder_steps t y y1" "\<not> y_filling y1" "able y1" "y_end y1 = None"
    "transfer_inv t y1 0 2 WINDOW_SIZE (map Data [3..<Suc WINDOW_SIZE]) [2, 3]"
    using two_acknowledged [OF assms(1-5)] by blast
  have alive: "y_gone y1 = None" using y1(3) by (simp add: able_def)
  obtain w s where y2: "reorder_steps t y1 (y1\<lparr>y_client := w, y_sender := s, y_s2c := []\<rparr>)" (is "reorder_steps t y1 ?y2")
    "s_written s = t_size t" "quiet (y_client y1) w"
    using overtaken_acks [OF y1(5,2) alive assms(5,6)] by blast
  have "y_read ?y2 \<noteq> t_size t" using expected_is [OF y1(5,4)] assms(5) by (simp add: t_size_def)
  moreover have "\<forall>k. w_send (y_client ?y2) k = Tx_ok" using y1(3) y2(3) by (simp add: able_def quiet_def same_answers_def)
  ultimately obtain y' where "reorder_steps t ?y2 y'" "y_gone y' = Some 0" "y_end y' = Some (Stop (Exit BAD_REQUEST))"
    "files (y_server y') (t_name t) = None"
    using fin_overtakes [of ?y2 t] y1(2,4) alive y2(2) by auto
  with y1(1) y2(1) show ?thesis by (meson rtranclp_trans)
qed

section \<open>Example\<close>

definition three_packets :: transfer where
  "three_packets = example_transfer\<lparr>t_content := replicate 5000 7\<rparr>"

definition three_packets_start :: system where
  "three_packets_start = example_start\<lparr>y_sender := start_sender (replicate 5000 7) (replicate PACKET_SIZE 0) 0, y_s2c := []\<rparr>"

theorem reordering_discards_file_witness:
  "\<exists>y'. reorder_steps three_packets three_packets_start y' \<and> y_gone y' = Some 0 \<and>
     y_end y' = Some (Stop (Exit BAD_REQUEST)) \<and> files (y_server y') (t_name three_packets) = None"
proof (rule reordering_discards_file)
  show "start_system three_packets three_packets_start"
    unfolding start_system_def
    by (intro conjI exI [of _ "replicate PACKET_SIZE 0"] exI [of _ 0] exI [of _ 0])
      (simp_all add: three_packets_def three_packets_start_def example_start_def example_transfer_def silent_world_def)
  show "malloc_serves WINDOW_SIZE (t_malloc three_packets)"
    using example_malloc by (simp add: three_packets_def)
  show "able three_packets_start" using example_sends(1) by (simp add: able_def three_packets_start_def)
qed (simp_all add: three_packets_def three_packets_start_def)

end
