(* ===== verification/Ft_Client_Run.thy ===== *)
theory Ft_Client_Run
  imports Ft_Exchange
begin

text \<open>
  Whole runs of the client: against an arbitrary network it ends, if it ends, with one of its
  documented exit codes and never with an access outside its memory; against a server that receives
  everything it sends the file window by window and ends with status 0.
\<close>

section \<open>An arbitrary network\<close>

lemma handle_reply_safe:
  assumes inv: "sending content s base N"
  shows "\<exists>act w'. handle_reply fs w s = Some (act, w') \<and>
           (case act of
              Next_reply s' \<Rightarrow> \<exists>base'. sending content s' base' N
            | Leave_loop s' \<Rightarrow> s' = s \<and> fs \<le> s_written s
            | Quit oc \<Rightarrow> oc = Exit CLIENT_BAD_REQUEST)"
proof (cases "s_buffer s ! 0 = CMD_ACK")
  case True
  then show ?thesis using ack_window_any [OF inv, of "get_seq_num (s_buffer s)" w] by (auto simp: handle_reply_def)
next
  case False
  then show ?thesis using inv by (auto simp: handle_reply_def)
qed

text \<open>How the client's loops may end: with its data acknowledged, or with an exit code.\<close>

definition loop_end :: "buffer \<Rightarrow> sender outcome \<Rightarrow> bool" where
  "loop_end content oc \<longleftrightarrow>
     (case oc of
        Return s \<Rightarrow> \<exists>base N. sending content s base N \<and>
          (read_sound content s \<or> s_written s = int (length content))
      | Exit c \<Rightarrow> c \<in> {CLIENT_RUNTIME_ERROR, CLIENT_BAD_REQUEST, CLIENT_TIMEOUT}
      | Fault \<Rightarrow> False)"

lemma sending_written_le: "sending content s base N \<Longrightarrow> s_written s \<le> int (length content)"
  by (simp add: sending_def)

lemma ack_loop_safe:
  assumes ret: "ack_loop fs target w s = Some r" and "sending content s base N" and "fs = int (length content)"
  shows "loop_end content (fst r)"
proof -
  let ?P = "\<lambda>fs target w s r. fs = int (length content) \<longrightarrow> (\<forall>base. sending content s base N \<longrightarrow> loop_end content (fst r))"
  have "?P fs target w s r"
  proof (rule ack_loop.raw_induct [where P = ?P, OF _ ret], intro impI allI)
    fix f fs target w s base and r :: "sender outcome \<times> world"
    assume IH: "\<And>fs target w s r. f fs target w s = Some r \<Longrightarrow> ?P fs target w s r"
      and eq: "(case read_only_from w (s_buffer s) PACKET_SIZE target of
        (n, buffer, w1) \<Rightarrow>
          let s1 = s\<lparr>s_read := n, s_buffer := buffer\<rparr> in
          if n < 0 \<and> (errno w1 = EWOULDBLOCK \<or> errno w1 = EAGAIN) then Some (Return s1, w1)
          else Option.bind (handle_reply fs w1 s1) (\<lambda>(act, w2).
                 (case act of
                    Next_reply s2 \<Rightarrow> f fs target w2 s2
                  | Leave_loop s2 \<Rightarrow> Some (Return s2, w2)
                  | Quit oc \<Rightarrow> Some (oc, w2)))) = Some r"
      and fs: "fs = int (length content)" and inv: "sending content s base N"
    obtain n b w1 where rd: "read_only_from w (s_buffer s) PACKET_SIZE target = (n, b, w1)"
      by (cases "read_only_from w (s_buffer s) PACKET_SIZE target") auto
    let ?s1 = "s\<lparr>s_read := n, s_buffer := b\<rparr>"
    have inv1: "sending content ?s1 base N"
      using inv read_only_from_frame(3) [OF rd] by (simp add: sending_def)
    obtain act w2 where h: "handle_reply fs w1 ?s1 = Some (act, w2)"
      "case act of Next_reply s' \<Rightarrow> \<exists>base'. sending content s' base' N
         | Leave_loop s' \<Rightarrow> s' = ?s1 \<and> fs \<le> s_written ?s1 | Quit oc \<Rightarrow> oc = Exit CLIENT_BAD_REQUEST"
      using handle_reply_safe [OF inv1] by blast
    show "loop_end content (fst r)"
    proof (cases "n < 0 \<and> (errno w1 = EWOULDBLOCK \<or> errno w1 = EAGAIN)")
      case True
      then have "r = (Return ?s1, w1)" using eq rd by simp
      moreover have "read_sound content ?s1"
        using inv1 True by (auto simp: read_sound_def sending_def)
      ultimately show ?thesis using inv1 by (auto simp: loop_end_def)
    next
      case False
      then have body: "(case act of Next_reply s2 \<Rightarrow> f fs target w2 s2
            | Leave_loop s2 \<Rightarrow> Some (Return s2, w2) | Quit oc \<Rightarrow> Some (oc, w2)) = Some r"
        using eq rd h(1) by (simp only: Let_def prod.case if_False bind.bind_lunit)
      show ?thesis
      proof (cases act)
        case (Next_reply s2)
        then show ?thesis using body h(2) IH [of fs target w2 s2 r] fs by auto
      next
        case (Leave_loop s2)
        then show ?thesis
          using body h(2) inv1 fs sending_written_le [OF inv1] by (fastforce simp: loop_end_def)
      next
        case (Quit oc)
        then show ?thesis using body h(2) by (auto simp: loop_end_def)
      qed
    qed
  qed
  with assms(2,3) show ?thesis by blast
qed

text \<open>One round of the data loop up to the replies: the window is filled and handed to the network.\<close>

lemma data_round_sends:
  assumes "sending content s base N" and "read_sound content s" and "malloc_serves WINDOW_SIZE mal"
    and "s_written s < int (length content)"
  obtains s1 n w1 where "fill_window mal (int (length content)) s = Some (Return s1)"
    and "sending content s1 base (base + WINDOW_SIZE)"
    and "send_all w target (s_heap s1) (s_packets s1) = Some (Return n, w1)"
proof -
  obtain s1 where s1: "fill_window mal (int (length content)) s = Some (Return s1)" "sending content s1 base (base + WINDOW_SIZE)"
    using fill_window_sending [OF assms] by blast
  with send_all_rep_prefix [OF sending_window [OF s1(2)]] that show thesis by blast
qed

lemma data_body_safe:
  assumes body: "Option.bind (fill_window mal fs s) (\<lambda>oc.
        (case oc of
           Return s1 \<Rightarrow>
             Option.bind (send_all w target (s_heap s1) (s_packets s1)) (\<lambda>(r, w1).
               if r \<noteq> Return 0 then Some (if r = Fault then Fault else Exit CLIENT_RUNTIME_ERROR, w1)
               else
                 (case time_now w1 of
                    (now, w2) \<Rightarrow>
                      if now - s_lastACK s1 > ACK_TIMEOUT then Some (Exit CLIENT_TIMEOUT, w2)
                      else Option.bind (ack_loop fs target w2 s1) (\<lambda>(oc2, w3).
                             (case oc2 of
                                Return s2 \<Rightarrow> f w3 s2
                              | Exit c \<Rightarrow> Some (Exit c, w3)
                              | Fault \<Rightarrow> Some (Fault, w3)))))
         | Exit c \<Rightarrow> Some (Exit c, w)
         | Fault \<Rightarrow> Some (Fault, w))) = Some r"
    and inv: "sending content s base N" "read_sound content s" "malloc_serves WINDOW_SIZE mal"
    and fs: "fs = int (length content)" and less: "s_written s < fs"
  obtains c where "fst r = Exit c" and "loop_end content (fst r)"
    | w3 s2 where "f w3 s2 = Some r" and "loop_end content (Return s2)"
proof -
  obtain s1 n w1 where s1: "fill_window mal fs s = Some (Return s1)" "sending content s1 base (base + WINDOW_SIZE)"
    "send_all w target (s_heap s1) (s_packets s1) = Some (Return n, w1)"
    using data_round_sends [OF inv] less fs by blast
  show thesis
  proof (cases "n = 0 \<and> \<not> w_time w1 (n_time w1) - s_lastACK s1 > ACK_TIMEOUT")
    case False
    then have "fst r \<in> {Exit CLIENT_RUNTIME_ERROR, Exit CLIENT_TIMEOUT}"
      using body s1(1,3) by (auto simp: time_now_def split: if_splits)
    then show thesis using that(1) by (auto simp: loop_end_def)
  next
    case True
    then obtain oc2 w3 where a: "ack_loop fs target (w1\<lparr>n_time := Suc (n_time w1)\<rparr>) s1 = Some (oc2, w3)"
      "(case oc2 of Return s2 \<Rightarrow> f w3 s2 | Exit c \<Rightarrow> Some (Exit c, w3) | Fault \<Rightarrow> Some (Fault, w3)) = Some r"
      using body s1(1,3) by (auto simp: time_now_def bind_eq_Some_conv)
    have "loop_end content oc2" using ack_loop_safe [OF a(1) s1(2) fs] by simp
    then show thesis using a(2) that by (cases oc2) (auto simp: loop_end_def)
  qed
qed

lemma data_loop_safe:
  assumes ret: "data_loop mal fs target w s = Some r" and inv: "loop_end content (Return s)"
    and fs: "fs = int (length content)" and mal: "malloc_serves WINDOW_SIZE mal"
  shows "loop_end content (fst r) \<and> (\<forall>s'. fst r = Return s' \<longrightarrow> s_written s' = fs)"
proof -
  let ?Q = "\<lambda>r. loop_end content (fst r) \<and> (\<forall>s'. fst r = Return s' \<longrightarrow> s_written s' = fs)"
  let ?P = "\<lambda>mal' fs' target w s r. mal' = mal \<longrightarrow> fs' = fs \<longrightarrow> loop_end content (Return s) \<longrightarrow> ?Q r"
  have "?P mal fs target w s r"
  proof (rule data_loop.raw_induct [where P = ?P, OF _ ret], intro impI)
    fix f mal' fs' target w s and r :: "sender outcome \<times> world"
    assume IH: "\<And>mal' fs' target w s r. f mal' fs' target w s = Some r \<Longrightarrow> ?P mal' fs' target w s r"
      and body: "(if s_written s = fs' then Some (Return s, w)
      else Option.bind (fill_window mal' fs' s) (\<lambda>oc.
        (case oc of
           Return s1 \<Rightarrow>
             Option.bind (send_all w target (s_heap s1) (s_packets s1)) (\<lambda>(r, w1).
               if r \<noteq> Return 0 then Some (if r = Fault then Fault else Exit CLIENT_RUNTIME_ERROR, w1)
               else
                 (case time_now w1 of
                    (now, w2) \<Rightarrow>
                      if now - s_lastACK s1 > ACK_TIMEOUT then Some (Exit CLIENT_TIMEOUT, w2)
                      else Option.bind (ack_loop fs' target w2 s1) (\<lambda>(oc2, w3).
                             (case oc2 of
                                Return s2 \<Rightarrow> f mal' fs' target w3 s2
                              | Exit c \<Rightarrow> Some (Exit c, w3)
                              | Fault \<Rightarrow> Some (Fault, w3)))))
         | Exit c \<Rightarrow> Some (Exit c, w)
         | Fault \<Rightarrow> Some (Fault, w)))) = Some r"
      and args: "mal' = mal" "fs' = fs" and start: "loop_end content (Return s)"
    note eq = body [unfolded args]
    show "?Q r"
    proof (cases "s_written s = fs")
      case False
      obtain base N where inv: "sending content s base N" "read_sound content s"
        using start False fs by (auto simp: loop_end_def)
      have less: "s_written s < fs" using False fs sending_written_le [OF inv(1)] by simp
      show ?thesis
        using data_body_safe [OF eq [unfolded if_not_P [OF False]] inv mal fs less]
          IH [of mal fs target _ _ r] by (metis outcome.distinct(1))
    qed (use eq start in auto)
  qed
  with inv show ?thesis by blast
qed

lemma recvfrom_length: "recvfrom w room = (n, bs, src, w') \<Longrightarrow> length bs \<le> room"
  by (auto simp: recvfrom_def split: recv_result.splits)

definition request_end :: "(int \<times> buffer \<times> sockaddr_in) outcome \<Rightarrow> bool" where
  "request_end oc \<longleftrightarrow>
     (case oc of
        Return (n, b, a) \<Rightarrow> length b = PACKET_SIZE
      | Exit c \<Rightarrow> c = CLIENT_RUNTIME_ERROR
      | Fault \<Rightarrow> False)"

lemma request_loop_safe:
  assumes ret: "request_loop startTime w target request buffer = Some r" and "length buffer = PACKET_SIZE"
  shows "request_end (fst r)"
proof -
  let ?P = "\<lambda>startTime w target request buffer r. length buffer = PACKET_SIZE \<longrightarrow> request_end (fst r)"
  have "?P startTime w target request buffer r"
  proof (rule request_loop.raw_induct [where P = ?P, OF _ ret], intro impI)
    fix f startTime w target request buffer and r :: "(int \<times> buffer \<times> sockaddr_in) outcome \<times> world"
    assume IH: "\<And>startTime w target request buffer r.
        f startTime w target request buffer = Some r \<Longrightarrow> ?P startTime w target request buffer r"
      and eq: "(case send_packet w target request of
        (r, w1) \<Rightarrow>
          if r \<noteq> 0 then Some (Exit CLIENT_RUNTIME_ERROR, w1)
          else
            (case recvfrom w1 PACKET_SIZE of
               (size_read, bs, src, w2) \<Rightarrow>
                 (if size_read < 0 then
                    (case time_now w2 of
                       (now, w3) \<Rightarrow>
                         if now - startTime < 6
                         then f startTime w3 target request buffer
                         else Some (Return (size_read, buffer, target), w3))
                  else Some (Return (size_read, put_at buffer 0 bs,
                                     case src of None \<Rightarrow> target | Some a \<Rightarrow> a), w2)))) = Some r"
      and len: "length buffer = PACKET_SIZE"
    obtain n w1 where s: "send_packet w target request = (n, w1)" by fastforce
    obtain k bs src w2 where rx: "recvfrom w1 PACKET_SIZE = (k, bs, src, w2)" by (metis prod_cases4)
    have put: "length (put_at buffer 0 bs) = PACKET_SIZE" using len recvfrom_length [OF rx] by simp
    show "request_end (fst r)"
      using eq len put IH [of startTime _ target request buffer r]
      unfolding s rx time_now_def prod.case
      by (auto simp: request_end_def split: if_splits)
  qed
  with assms(2) show ?thesis by blast
qed

text \<open>The request ends with a buffer for the data phase or with one of four exit codes.\<close>

lemma complete_request_safe:
  assumes "complete_request w buffer fs filename target = Some (oc, w')" and "length buffer = PACKET_SIZE"
    and "length (request_text filename fs) < PAYLOAD_SIZE"
  shows "(\<exists>b a. oc = Return (b, a) \<and> length b = PACKET_SIZE) \<or>
         oc \<in> {Exit CLIENT_RUNTIME_ERROR, Exit CLIENT_BAD_REQUEST, Exit CLIENT_FILE_EXISTS, Exit CLIENT_TIMEOUT}"
proof -
  let ?b = "request_buffer buffer filename fs"
  have len: "length ?b = PACKET_SIZE" using assms(2,3) by (simp add: request_buffer_def)
  obtain oc1 w1 where r: "request_loop (w_time w (n_time w)) (w\<lparr>n_time := Suc (n_time w)\<rparr>) target (request_packet ?b) ?b =
      Some (oc1, w1)"
    using assms(1,3) by (auto simp: complete_request_def time_now_def Let_def bind_eq_Some_conv)
  have "request_end oc1" using request_loop_safe [OF r len] by simp
  then show ?thesis
    using assms(1,3) r by (auto simp: complete_request_def request_answer_def time_now_def Let_def request_end_def
        split: outcome.splits if_splits)
qed

text \<open>
  C14: whatever datagrams arrive, from whomever and with whatever content, the client does not read or
  write outside its memory: a run that ends, ends with status 0 or with one of the exit codes for a
  failed send, a refused or broken-off transfer, an existing file or a time-out.
\<close>

theorem client_never_faults:
  assumes "copy_file_client mal garbage w content filename target = Some (oc, w')"
    and "files w filename = Some content" and "malloc_serves WINDOW_SIZE mal"
    and "length (request_text filename (int (length content))) < PAYLOAD_SIZE"
  shows "oc \<in> {Return 0, Exit CLIENT_RUNTIME_ERROR, Exit CLIENT_BAD_REQUEST, Exit CLIENT_FILE_EXISTS, Exit CLIENT_TIMEOUT}"
proof -
  let ?fs = "int (length content)"
  have fs: "get_file_size w garbage filename = ?fs" using assms(2) by (simp add: get_file_size_def)
  obtain oc1 w1 where c: "complete_request w (replicate PACKET_SIZE 0) ?fs filename target = Some (oc1, w1)"
    using assms(1) by (auto simp: copy_file_client_def fs Let_def bind_eq_Some_conv)
  show ?thesis
  proof (cases "\<exists>b a. oc1 = Return (b, a)")
    case False
    then show ?thesis
      using complete_request_safe [OF c _ assms(4)] assms(1) c
      by (auto simp: copy_file_client_def fs Let_def)
  next
    case True
    then obtain b a where b: "oc1 = Return (b, a)" "length b = PACKET_SIZE"
      using complete_request_safe [OF c _ assms(4)] by auto
    obtain oc2 w2 where d: "data_loop mal ?fs a (snd (time_now w1)) (start_sender content b (fst (time_now w1))) = Some (oc2, w2)"
      using assms(1) c b by (auto simp: copy_file_client_def fs Let_def bind_eq_Some_conv time_now_def)
    have "loop_end content (Return (start_sender content b (fst (time_now w1))))"
      using start_sender_sending(1) [OF b(2)] start_sender_sending(2) by (fastforce simp: loop_end_def)
    then have "loop_end content oc2" using data_loop_safe [OF d _ refl assms(3)] by simp
    then show ?thesis
      using assms(1) c b d
      by (auto simp: copy_file_client_def fs Let_def time_now_def loop_end_def split: outcome.splits)
  qed
qed

text \<open>A server that has the file already.\<close>

definition refusing_world :: world where
  "refusing_world =
     (calm_world (\<lambda>_. Rx_dgram \<lparr>sin_addr = 1, sin_port = 9\<rparr> [CMD_EXISTS, 0, 0, 0, 0]))\<lparr>files := [[97] \<mapsto> []]\<rparr>"

lemma refused_run:
  "\<exists>w'. copy_file_client example_malloc_50 0 refusing_world [] [97] \<lparr>sin_addr = 1, sin_port = 2\<rparr> =
     Some (Exit CLIENT_FILE_EXISTS, w')"
proof -
  have "get_file_size refusing_world 0 [97] = 0" by (simp add: get_file_size_def refusing_world_def)
  moreover have "\<exists>w'. complete_request refusing_world (replicate PACKET_SIZE 0) 0 [97] \<lparr>sin_addr = 1, sin_port = 2\<rparr> =
      Some (Exit CLIENT_FILE_EXISTS, w')"
    by (subst complete_request_reply [OF example_request_text, where src = "\<lparr>sin_addr = 1, sin_port = 9\<rparr>"
          and c = CMD_EXISTS and bs = "[0, 0, 0, 0]"])
      (simp_all add: refusing_world_def)
  ultimately show ?thesis by (auto simp: copy_file_client_def)
qed

theorem client_never_faults_witness:
  "\<exists>oc w'. copy_file_client example_malloc_50 0 refusing_world [] [97] \<lparr>sin_addr = 1, sin_port = 2\<rparr> = Some (oc, w') \<and>
     oc \<in> {Return 0, Exit CLIENT_RUNTIME_ERROR, Exit CLIENT_BAD_REQUEST, Exit CLIENT_FILE_EXISTS, Exit CLIENT_TIMEOUT}"
proof -
  obtain oc w' where r: "copy_file_client example_malloc_50 0 refusing_world [] [97] \<lparr>sin_addr = 1, sin_port = 2\<rparr> = Some (oc, w')"
    using refused_run by blast
  have "files refusing_world [97] = Some []" by (simp add: refusing_world_def)
  moreover have "length (request_text [97] (int (length ([] :: buffer)))) < PAYLOAD_SIZE" using example_request_text by simp
  ultimately have "oc \<in> {Return 0, Exit CLIENT_RUNTIME_ERROR, Exit CLIENT_BAD_REQUEST, Exit CLIENT_FILE_EXISTS, Exit CLIENT_TIMEOUT}"
    by (rule client_never_faults [OF r _ malloc_serves_first_free])
  with r show ?thesis by blast
qed

section \<open>A run without losses\<close>

text \<open>The clock moves by at most a second between two looks at it.\<close>

definition prompt :: "world \<Rightarrow> bool" where
  "prompt w \<longleftrightarrow> works w \<and> (\<forall>k. w_time w (Suc k) - w_time w k \<le> 1)"

lemma prompt_same_answers: "prompt w \<Longrightarrow> same_answers w w' \<Longrightarrow> prompt w'"
  using works_same_answers by (auto simp: prompt_def same_answers_def)

text \<open>The next receives answer as listed.\<close>

definition arrives :: "world \<Rightarrow> recv_result list \<Rightarrow> bool" where
  "arrives w rs \<longleftrightarrow> (\<forall>i<length rs. w_recv w (n_recv w + i) = rs ! i)"

lemma arrives_Cons:
  assumes "arrives w (r # rs)"
  shows "w_recv w (n_recv w) = r"
    and "same_answers w w' \<Longrightarrow> n_recv w' = Suc (n_recv w) \<Longrightarrow> arrives w' rs"
  using assms by (fastforce simp: arrives_def same_answers_def)+

lemma arrives_same:
  "arrives w rs \<Longrightarrow> same_answers w w' \<Longrightarrow> n_recv w' = n_recv w \<Longrightarrow> arrives w' rs"
  by (simp add: arrives_def same_answers_def)

text \<open>What the client hears in a round in which every packet of the window is acknowledged.\<close>

definition ack_from :: "sockaddr_in \<Rightarrow> nat \<Rightarrow> recv_result" where
  "ack_from src a = Rx_dgram src (control CMD_ACK (seq16 a))"

definition round_replies :: "sockaddr_in \<Rightarrow> nat \<Rightarrow> recv_result list" where
  "round_replies src base = map (ack_from src) [base + 2..<base + WINDOW_SIZE + 2] @ [Rx_error EAGAIN]"

text \<open>The acknowledgements of one round are taken one after the other, up to the empty receive.\<close>

lemma read_nothing:
  assumes "prompt w" and "w_recv w (n_recv w) = Rx_error EAGAIN" and "length b = PACKET_SIZE"
  obtains b' w' where "read_only_from w b PACKET_SIZE a = (-1, b', w')" and "errno w' = EAGAIN"
    and "length b' = PACKET_SIZE" and "quiet w w'" and "n_time w' = n_time w" and "n_recv w' = Suc (n_recv w)"
proof -
  obtain n b' w' where r: "read_only_from w b PACKET_SIZE a = (n, b', w')"
    by (cases "read_only_from w b PACKET_SIZE a") auto
  obtain fill where "w_temp w (n_temp w) = Some fill" using worksD(1) assms(1) by (fastforce simp: prompt_def)
  then have "n = -1" "errno w' = EAGAIN" "n_recv w' = Suc (n_recv w)"
    using r by (auto simp: read_only_from_unfold malloc_temp_def recvfrom_def assms(2))
  then show thesis using r read_only_from_frame [OF r] assms(3) by (intro that [of b' w']) auto
qed

lemma read_datagram:
  assumes "prompt w" and "w_recv w (n_recv w) = Rx_dgram src p" and "length b = PACKET_SIZE"
    and "length p \<le> PACKET_SIZE"
  obtains junk where "length junk = PACKET_SIZE"
    and "read_only_from w b PACKET_SIZE a = (int (length p), put_at junk 0 p, w\<lparr>n_temp := Suc (n_temp w), n_recv := Suc (n_recv w)\<rparr>)"
proof -
  obtain fill where "w_temp w (n_temp w) = Some fill" using worksD(1) assms(1) by (fastforce simp: prompt_def)
  from read_only_from_dgram [OF this assms(2,3)] assms(4) show thesis
    by (intro that [of "map fill [0..<PACKET_SIZE]"]) simp_all
qed

lemma handle_ack:
  assumes "sending content s base N" and "base < a" and "a \<le> Suc N" and "length junk = PACKET_SIZE"
  obtains s' w' where "handle_reply fs w (s\<lparr>s_read := n, s_buffer := put_at junk 0 (control CMD_ACK (seq16 a))\<rparr>) =
      Some (Next_reply s', w')" and "sending content s' (a - 1) N" and "quiet w w'" and "n_recv w' = n_recv w"
    and "Suc base < a \<longrightarrow> ack_fresh w' s'"
proof -
  let ?p = "control CMD_ACK (seq16 a)"
  let ?s = "s\<lparr>s_read := n, s_buffer := put_at junk 0 ?p\<rparr>"
  have snd: "sending content ?s base N" using assms(1,4) by (simp add: sending_def)
  note rp = received_packet [OF control_fields(4), of CMD_ACK "seq16 a" junk]
  have b: "put_at junk 0 ?p ! 0 = CMD_ACK" "get_seq_num (put_at junk 0 ?p) = seq16 a"
    using rp(1,2) assms(4) unfolding pkt_cmd_def [symmetric] by simp_all
  obtain s' w' where "ack_window (seq16 a) w ?s = Some (Return s', w')" "sending content s' (a - 1) N" "quiet w w'"
    "n_recv w' = n_recv w" "Suc base < a \<longrightarrow> ack_fresh w' s'"
    using ack_window_sending [OF snd assms(2,3), of w] by blast
  then show thesis using b by (intro that [of s' w']) (simp_all add: handle_reply_def)
qed

lemma ack_loop_acks:
  assumes "sending content s base N" and "prompt w"
    and "arrives w (map (ack_from src) [base + 2..<b] @ Rx_error EAGAIN # rest)"
    and "base + 2 \<le> b" and "b \<le> N + 2" and "base + 2 < b \<or> ack_fresh w s"
  shows "\<exists>s' w'. ack_loop fs target w s = Some (Return s', w') \<and> sending content s' (b - 2) N \<and>
           read_sound content s' \<and> ack_fresh w' s' \<and> arrives w' rest \<and> quiet w w'"
  using assms
proof (induction "b - (base + 2)" arbitrary: s w base)
  case 0
  then have b: "b = base + 2" by simp
  have "arrives w (Rx_error EAGAIN # rest)" using 0 b by simp
  note rx = arrives_Cons [OF this]
  have len: "length (s_buffer s) = PACKET_SIZE" using 0 by (simp add: sending_def)
  obtain b' w' where r: "read_only_from w (s_buffer s) PACKET_SIZE target = (-1, b', w')" "errno w' = EAGAIN"
    "length b' = PACKET_SIZE" "quiet w w'" "n_time w' = n_time w" "n_recv w' = Suc (n_recv w)"
    using 0(3) rx(1) len by (rule read_nothing)
  let ?s = "s\<lparr>s_read := -1, s_buffer := b'\<rparr>"
  have "ack_loop fs target w s = Some (Return ?s, w')" using r(1,2) by (subst ack_loop.simps) simp
  moreover have "sending content ?s (b - 2) N" using 0 r(3) b by (simp add: sending_def)
  moreover have "read_sound content ?s" using 0 by (auto simp: read_sound_def sending_def)
  moreover have "ack_fresh w' ?s" using 0 b r(4,5) by (simp add: ack_fresh_def quiet_def same_answers_def)
  moreover have "arrives w' rest" using rx(2) r(4,6) by (simp add: quiet_def)
  ultimately show ?case using r(4) by blast
next
  case (Suc d)
  then have lt: "base + 2 < b" by simp
  let ?p = "control CMD_ACK (seq16 (base + 2))"
  have "arrives w (Rx_dgram src ?p # map (ack_from src) [Suc base + 2..<b] @ Rx_error EAGAIN # rest)"
    using Suc.prems(3) lt by (simp add: upt_conv_Cons ack_from_def)
  note rx = arrives_Cons [OF this]
  have len: "length (s_buffer s) = PACKET_SIZE" using Suc.prems(1) by (simp add: sending_def)
  let ?w1 = "w\<lparr>n_temp := Suc (n_temp w), n_recv := Suc (n_recv w)\<rparr>"
  have small: "length ?p \<le> PACKET_SIZE" by simp
  obtain junk where r: "length junk = PACKET_SIZE"
    "read_only_from w (s_buffer s) PACKET_SIZE target = (int (length ?p), put_at junk 0 ?p, ?w1)"
    using Suc.prems(2) rx(1) len small by (rule read_datagram)
  have a: "base < base + 2" "base + 2 \<le> Suc N" using Suc.prems lt by simp_all
  obtain s2 w2 where h: "handle_reply fs ?w1 (s\<lparr>s_read := int (length ?p), s_buffer := put_at junk 0 ?p\<rparr>) =
      Some (Next_reply s2, w2)" "sending content s2 (base + 2 - 1) N" "quiet ?w1 w2" "n_recv w2 = n_recv ?w1"
    "Suc base < base + 2 \<longrightarrow> ack_fresh w2 s2"
    using Suc.prems(1) a r(1) by (rule handle_ack [where fs = fs and w = ?w1 and n = "int (length ?p)"])
  have step: "ack_loop fs target w s = ack_loop fs target w2 s2"
    using r(2) h(1) by (subst ack_loop.simps) (simp add: Let_def)
  have q: "quiet w w2" using h(3) by (simp add: quiet_def same_answers_def)
  have "\<exists>s' w'. ack_loop fs target w2 s2 = Some (Return s', w') \<and> sending content s' (b - 2) N \<and>
      read_sound content s' \<and> ack_fresh w' s' \<and> arrives w' rest \<and> quiet w2 w'"
  proof (rule Suc(1))
    show "d = b - (Suc base + 2)" using Suc(2) by simp
    show "sending content s2 (Suc base) N" using h(2) by simp
    show "prompt w2" using prompt_same_answers [OF Suc.prems(2)] q by (simp add: quiet_def)
    show "arrives w2 (map (ack_from src) [Suc base + 2..<b] @ Rx_error EAGAIN # rest)"
      using rx(2) q h(4) by (simp add: quiet_def)
    show "Suc base + 2 < b \<or> ack_fresh w2 s2" using h(5) by simp
  qed (use lt Suc.prems(5) in simp_all)
  with step q show ?case using quiet_trans by metis
qed

lemma packets_between_append:
  assumes "a \<le> b" and "b \<le> c"
  shows "packets_between content a b @ packets_between content b c = packets_between content a c"
proof -
  have "[Suc a..<Suc b] @ [Suc b..<Suc c] = [Suc a..<Suc c]"
    using upt_add_eq_append [of "Suc a" "Suc b" "c - b"] assms by simp
  then show ?thesis unfolding packets_between_def by (metis map_append)
qed

text \<open>One round: the window is filled, sent and acknowledged, and moves by its size.\<close>

lemma data_loop_round:
  assumes inv: "sending content s base base" "read_sound content s" and fresh: "ack_fresh w s" and w: "prompt w"
    and mal: "malloc_serves WINDOW_SIZE mal" and less: "s_written s < int (length content)"
    and rx: "arrives w (round_replies src base @ rest)"
  obtains s' w' where "data_loop mal (int (length content)) target w s = data_loop mal (int (length content)) target w' s'"
    and "sending content s' (base + WINDOW_SIZE) (base + WINDOW_SIZE)" and "read_sound content s'" and "ack_fresh w' s'"
    and "same_answers w w'" and "sent w' = sent w @ map (Pair target) (packets_between content base (base + WINDOW_SIZE))"
    and "arrives w' rest" and "files w' = files w"
proof -
  let ?N = "base + WINDOW_SIZE" and ?fs = "int (length content)"
  let ?ds = "packets_between content base ?N"
  obtain s1 where s1: "fill_window mal ?fs s = Some (Return s1)" "sending content s1 base ?N" "s_lastACK s1 = s_lastACK s"
    using fill_window_sending [OF inv mal less] by blast
  have ok: "\<forall>k. w_send w k = Tx_ok" using w by (simp add: prompt_def works_def)
  define w1 where "w1 = w\<lparr>n_send := n_send w + length ?ds, sent := sent w @ map (Pair target) ?ds\<rparr>"
  have send: "send_all w target (s_heap s1) (s_packets s1) = Some (Return 0, w1)"
    using sending_send_all [OF s1(2) ok] by (simp add: w1_def)
  let ?w2 = "w1\<lparr>n_time := Suc (n_time w)\<rparr>"
  have sa: "same_answers w ?w2" "n_recv ?w2 = n_recv w" by (simp_all add: same_answers_def w1_def)
  have "w_time w (n_time w) - s_lastACK s1 \<le> 1"
    using w fresh s1(3) by (cases "n_time w") (auto simp: prompt_def ack_fresh_def)
  then have now: "\<not> w_time w (n_time w) - s_lastACK s1 > ACK_TIMEOUT" by simp
  have a: "\<exists>s' w'. ack_loop ?fs target ?w2 s1 = Some (Return s', w') \<and> sending content s' (base + WINDOW_SIZE + 2 - 2) ?N \<and>
           read_sound content s' \<and> ack_fresh w' s' \<and> arrives w' rest \<and> quiet ?w2 w'"
    using s1(2) prompt_same_answers [OF w sa(1)] arrives_same [OF rx sa]
    by (intro ack_loop_acks [where src = src and base = base]) (simp_all add: round_replies_def)
  then obtain s2 w3 where a: "ack_loop ?fs target ?w2 s1 = Some (Return s2, w3)" "sending content s2 ?N ?N"
    "read_sound content s2" "ack_fresh w3 s2" "arrives w3 rest" "quiet ?w2 w3" by (auto simp: add.commute)
  have "data_loop mal ?fs target w s = data_loop mal ?fs target w3 s2"
    using less s1(1) send now a(1) by (subst data_loop.simps) (simp add: time_now_def w1_def)
  moreover have "same_answers w w3" "sent w3 = sent w @ map (Pair target) ?ds" "files w3 = files w"
    using a(6) sa(1) by (auto simp: quiet_def same_answers_def w1_def)
  ultimately show thesis using a by (intro that [of w3 s2]) simp_all
qed

text \<open>How many windows a file of \<open>n\<close> bytes takes.\<close>

definition windows :: "nat \<Rightarrow> nat" where
  "windows n = (n + (PAYLOAD_SIZE * WINDOW_SIZE - 1)) div (PAYLOAD_SIZE * WINDOW_SIZE)"

lemma windows_less: "k < windows n \<longleftrightarrow> PAYLOAD_SIZE * (WINDOW_SIZE * k) < n"
proof -
  have "Suc k \<le> (n + 102149) div 102150 \<longleftrightarrow> Suc k * 102150 \<le> n + 102149"
    by (rule less_eq_div_iff_mult_less_eq) simp
  then show ?thesis by (simp add: windows_def Suc_le_eq) linarith
qed

lemma data_loop_run:
  assumes "sending content s (WINDOW_SIZE * k) (WINDOW_SIZE * k)" and "read_sound content s" and "ack_fresh w s" and "prompt w"
    and "malloc_serves WINDOW_SIZE mal" and "k \<le> windows (length content)"
    and "arrives w (concat (map (\<lambda>r. round_replies src (WINDOW_SIZE * r)) [k..<windows (length content)]) @ rest)"
  shows "\<exists>s' w'. data_loop mal (int (length content)) target w s = Some (Return s', w') \<and>
           length (s_buffer s') = PACKET_SIZE \<and> ack_fresh w' s' \<and> same_answers w w' \<and> files w' = files w \<and> arrives w' rest \<and>
           sent w' = sent w @ map (Pair target)
             (packets_between content (WINDOW_SIZE * k) (WINDOW_SIZE * windows (length content)))"
  using assms
proof (induction "windows (length content) - k" arbitrary: s w k)
  case 0
  then have k: "k = windows (length content)" by simp
  then have "length content \<le> PAYLOAD_SIZE * (WINDOW_SIZE * k)" using windows_less [of k "length content"] by simp
  then have "s_written s = int (length content)" using 0(2) by (simp add: sending_def)
  moreover have "arrives w rest" using 0(8) k by simp
  ultimately show ?case using 0(2,4) k
    by (subst data_loop.simps) (simp add: same_answers_def sending_def)
next
  case (Suc d)
  let ?R = "windows (length content)"
  have kR: "k < ?R" using Suc(2) by simp
  then have "s_written s < int (length content)"
    using Suc.prems(1) windows_less [of k "length content"] by (simp add: sending_def)
  moreover have "arrives w (round_replies src (WINDOW_SIZE * k) @
      concat (map (\<lambda>r. round_replies src (WINDOW_SIZE * r)) [Suc k..<?R]) @ rest)"
    using Suc.prems(7) kR by (simp add: upt_conv_Cons)
  ultimately obtain s1 w1 where r: "data_loop mal (int (length content)) target w s = data_loop mal (int (length content)) target w1 s1"
    "sending content s1 (WINDOW_SIZE * k + WINDOW_SIZE) (WINDOW_SIZE * k + WINDOW_SIZE)" "read_sound content s1" "ack_fresh w1 s1"
    "same_answers w w1" "sent w1 = sent w @ map (Pair target) (packets_between content (WINDOW_SIZE * k) (WINDOW_SIZE * k + WINDOW_SIZE))"
    "arrives w1 (concat (map (\<lambda>r. round_replies src (WINDOW_SIZE * r)) [Suc k..<?R]) @ rest)" "files w1 = files w"
    using data_loop_round [OF Suc.prems(1-5)] by metis
  have "\<exists>s' w'. data_loop mal (int (length content)) target w1 s1 = Some (Return s', w') \<and>
           length (s_buffer s') = PACKET_SIZE \<and> ack_fresh w' s' \<and> same_answers w1 w' \<and> files w' = files w1 \<and> arrives w' rest \<and>
           sent w' = sent w1 @ map (Pair target) (packets_between content (WINDOW_SIZE * Suc k) (WINDOW_SIZE * ?R))"
    using Suc(2) r(2-7) prompt_same_answers [OF Suc.prems(4) r(5)] Suc.prems(5) kR
    by (intro Suc(1)) (simp_all add: add.commute)
  moreover have "packets_between content (WINDOW_SIZE * k) (WINDOW_SIZE * k + WINDOW_SIZE) @
      packets_between content (WINDOW_SIZE * Suc k) (WINDOW_SIZE * ?R) =
      packets_between content (WINDOW_SIZE * k) (WINDOW_SIZE * ?R)"
    using kR packets_between_append [of "WINDOW_SIZE * k" "WINDOW_SIZE * Suc k" "WINDOW_SIZE * ?R" content]
    by (simp add: add.commute)
  ultimately show ?case using r(1,5,6,8) by (auto simp: same_answers_trans simp flip: map_append)
qed

text \<open>The closing handshake: the FIN goes out once and the FINACK ends the loop.\<close>

lemma finack_round:
  assumes "prompt w" and "arrives w (Rx_dgram src (control CMD_FINACK 0) # rest)" and "length buffer = PACKET_SIZE"
    and "n_time w = Suc k" and "t = w_time w k"
  obtains w2 n b w3 where "w_time w (n_time w) - t < ACK_TIMEOUT"
    and "send_packet (w\<lparr>n_time := Suc (n_time w)\<rparr>) target (control CMD_FIN 0) = (0, w2)"
    and "newly_sent (w\<lparr>n_time := Suc (n_time w)\<rparr>) w2 = [control CMD_FIN 0]"
    and "read_only_from w2 buffer PACKET_SIZE target = (n, b, w3)" and "skip_acks target w3 n b = Some (b, w3)"
    and "b ! 0 = CMD_FINACK" and "sent w3 = sent w @ [(target, control CMD_FIN 0)]"
proof -
  let ?w1 = "w\<lparr>n_time := Suc (n_time w)\<rparr>"
  let ?w2 = "?w1\<lparr>n_send := Suc (n_send w), sent := sent w @ [(target, control CMD_FIN 0)]\<rparr>"
  let ?p = "control CMD_FINACK 0"
  have now: "w_time w (n_time w) - t < ACK_TIMEOUT"
    using assms(1,4,5) by (auto simp: prompt_def dest!: spec [of _ k])
  have send: "send_packet ?w1 target (control CMD_FIN 0) = (0, ?w2)"
    using assms(1) by (simp add: world_simps prompt_def works_def)
  have sa: "same_answers w ?w2" "n_recv ?w2 = n_recv w" by (simp_all add: same_answers_def)
  have rx: "w_recv ?w2 (n_recv ?w2) = Rx_dgram src ?p" using arrives_Cons(1) [OF assms(2)] by simp
  have small: "length ?p \<le> PACKET_SIZE" by simp
  obtain junk where r: "length junk = PACKET_SIZE"
    "read_only_from ?w2 buffer PACKET_SIZE target =
       (int (length ?p), put_at junk 0 ?p, ?w2\<lparr>n_temp := Suc (n_temp ?w2), n_recv := Suc (n_recv ?w2)\<rparr>)"
    using prompt_same_answers [OF assms(1) sa(1)] rx assms(3) small by (rule read_datagram)
  have b: "put_at junk 0 ?p ! 0 = CMD_FINACK"
    using received_packet(1) [OF control_fields(4), of CMD_FINACK 0 junk] r(1)
    unfolding pkt_cmd_def [symmetric] by simp
  have "skip_acks target v n (put_at junk 0 ?p) = Some (put_at junk 0 ?p, v)" for v n
    using b by (subst skip_acks.simps) simp
  from that [OF now send _ r(2) this b] show thesis by (simp add: newly_sent_def)
qed

lemma close_loop_finack:
  assumes "prompt w" and "arrives w (Rx_dgram src (control CMD_FINACK 0) # rest)" and "length buffer = PACKET_SIZE"
    and "n_time w = Suc k" and "t = w_time w k"
  obtains b w' where "close_loop t target w buffer = Some (b, w')"
    and "sent w' = sent w @ [(target, control CMD_FIN 0)]"
proof -
  obtain w2 n b w3 where r: "w_time w (n_time w) - t < ACK_TIMEOUT"
    "send_packet (w\<lparr>n_time := Suc (n_time w)\<rparr>) target (control CMD_FIN 0) = (0, w2)"
    "read_only_from w2 buffer PACKET_SIZE target = (n, b, w3)" "skip_acks target w3 n b = Some (b, w3)"
    "b ! 0 = CMD_FINACK" "sent w3 = sent w @ [(target, control CMD_FIN 0)]"
    using finack_round [OF assms] by metis
  then have "close_loop t target w buffer = Some (b, w3)" by (subst close_loop.simps) (simp add: time_now_def)
  then show thesis using r(6) by (rule that)
qed

text \<open>What the client hears from a server that receives everything.\<close>

definition server_replies :: "sockaddr_in \<Rightarrow> nat \<Rightarrow> recv_result list" where
  "server_replies src n =
     ack_from src 1 # concat (map (\<lambda>r. round_replies src (WINDOW_SIZE * r)) [0..<windows n]) @
     [Rx_dgram src (control CMD_FINACK 0)]"

text \<open>What the client sends to it.\<close>

definition client_sends :: "sockaddr_in \<Rightarrow> sockaddr_in \<Rightarrow> byte list \<Rightarrow> buffer \<Rightarrow> (sockaddr_in \<times> buffer) list" where
  "client_sends target src filename content =
     (target, request_packet (request_buffer (replicate PACKET_SIZE 0) filename (int (length content)))) #
     map (Pair src) (packets_between content 0 (WINDOW_SIZE * windows (length content)) @ [control CMD_FIN 0])"

lemma client_run:
  assumes w: "prompt w" and f: "files w filename = Some content" and mal: "malloc_serves WINDOW_SIZE mal"
    and fits: "length (request_text filename (int (length content))) < PAYLOAD_SIZE"
    and rx: "arrives w (server_replies src (length content))"
  shows "\<exists>w'. copy_file_client mal garbage w content filename target = Some (Return 0, w') \<and>
           sent w' = sent w @ client_sends target src filename content"
proof -
  let ?fs = "int (length content)" and ?zeros = "replicate PACKET_SIZE (0 :: byte)"
  let ?b = "request_buffer ?zeros filename ?fs" and ?p = "control CMD_ACK 1"
  let ?rest = "concat (map (\<lambda>r. round_replies src (WINDOW_SIZE * r)) [0..<windows (length content)]) @
     [Rx_dgram src (control CMD_FINACK 0)]"
  let ?w1 = "w\<lparr>n_time := Suc (n_time w), n_send := Suc (n_send w), n_recv := Suc (n_recv w),
      sent := sent w @ [(target, request_packet ?b)]\<rparr>"
  let ?w2 = "?w1\<lparr>n_time := Suc (Suc (n_time w))\<rparr>"
  have fs: "get_file_size w garbage filename = ?fs" using f by (simp add: get_file_size_def)
  have "arrives w (Rx_dgram src ?p # ?rest)" using rx by (simp add: server_replies_def ack_from_def seq16_def)
  note rx1 = arrives_Cons [OF this]
  have len: "length ?b = PACKET_SIZE" using fits by (simp add: request_buffer_def)
  have lenb: "length ?zeros = PACKET_SIZE" and ok: "w_send w (n_send w) = Tx_ok"
    using w by (simp_all add: prompt_def works_def)
  have "?p ! 0 = CMD_ACK" "length ?p = 5" using control_fields(1,5) [of CMD_ACK 1] unfolding pkt_cmd_def .
  then have bs: "?p = CMD_ACK # tl ?p" "length (CMD_ACK # tl ?p) \<le> PACKET_SIZE"
    by (metis hd_Cons_tl hd_conv_nth length_0_conv zero_neq_numeral) simp
  have req: "complete_request w ?zeros ?fs filename target = Some (Return (put_at ?b 0 ?p, src), ?w1)"
    using complete_request_reply [OF fits lenb ok trans [OF rx1(1) arg_cong [OF bs(1), of "Rx_dgram src"]] bs(2)]
    unfolding bs(1) [symmetric] by simp
  let ?s = "start_sender content (put_at ?b 0 ?p) (w_time w (Suc (n_time w)))"
  have sa: "same_answers w ?w2" by (simp add: same_answers_def)
  have lenp: "length (put_at ?b 0 ?p) = PACKET_SIZE" using len by simp
  have "sending content ?s (WINDOW_SIZE * 0) (WINDOW_SIZE * 0)" "read_sound content ?s"
    using start_sender_sending(1) [OF lenp] start_sender_sending(2) by simp_all
  moreover have "ack_fresh ?w2 ?s" by (simp add: ack_fresh_def start_sender_def)
  moreover have "arrives ?w2 ?rest" using rx1(2) [OF sa] by simp
  ultimately obtain s3 w3 where d: "data_loop mal ?fs src ?w2 ?s = Some (Return s3, w3)"
    "length (s_buffer s3) = PACKET_SIZE" "same_answers ?w2 w3" "arrives w3 [Rx_dgram src (control CMD_FINACK 0)]"
    "sent w3 = sent ?w2 @ map (Pair src) (packets_between content (WINDOW_SIZE * 0) (WINDOW_SIZE * windows (length content)))"
    using data_loop_run [OF _ _ _ prompt_same_answers [OF w sa] mal, of content ?s 0 src] by blast
  let ?w4 = "w3\<lparr>n_time := Suc (n_time w3)\<rparr>"
  have sa4: "same_answers w3 ?w4" "n_recv ?w4 = n_recv w3" by (simp_all add: same_answers_def)
  have p4: "prompt ?w4" using w sa d(3) sa4(1) by (blast intro: prompt_same_answers)
  obtain b' w' where c: "close_loop (w_time w3 (n_time w3)) src ?w4 (s_buffer s3) = Some (b', w')"
    "sent w' = sent ?w4 @ [(src, control CMD_FIN 0)]"
    using p4 arrives_same [OF d(4) sa4] d(2)
    by (rule close_loop_finack [where k = "n_time w3" and t = "w_time w3 (n_time w3)" and target = src]) simp_all
  have "copy_file_client mal garbage w content filename target = Some (Return 0, w')"
    using req d(1) c(1) by (simp add: copy_file_client_def fs time_now_def Let_def)
  with c(2) d(5) show ?thesis by (simp add: client_sends_def)
qed

text \<open>A machine for examples that hears a given list of answers.\<close>

definition hearing :: "recv_result list \<Rightarrow> world" where
  "hearing rs = calm_world (\<lambda>k. if k < length rs then rs ! k else Rx_error EAGAIN)"

lemma hearing_facts:
  "prompt (hearing rs)" "works (hearing rs)" "arrives (hearing rs) rs" "prompt ((hearing rs)\<lparr>files := fs\<rparr>)"
  "arrives ((hearing rs)\<lparr>files := fs\<rparr>) rs" "incoming (hearing (map (Rx_dgram src) ps)) ps"
proof -
  show *: "works (hearing rs)" unfolding hearing_def by (rule works_calm_world)
  then show "prompt (hearing rs)" by (simp add: prompt_def) (simp add: hearing_def)
  then show "prompt ((hearing rs)\<lparr>files := fs\<rparr>)" by (rule prompt_same_answers) (simp add: same_answers_def)
  show "arrives (hearing rs) rs" "arrives ((hearing rs)\<lparr>files := fs\<rparr>) rs" by (simp_all add: arrives_def hearing_def)
  show "incoming (hearing (map (Rx_dgram src) ps)) ps" by (auto simp: incoming_def hearing_def)
qed

text \<open>
  A client that hears the acceptance of its request and, in every round, the acknowledgements of
  all the packets it sent, sends the request once, every packet of the file once and in order, and
  the FIN once, and ends with status 0, whatever the length of the file.
\<close>

theorem client_sends_file:
  assumes "prompt w" and "files w filename = Some content" and "malloc_serves WINDOW_SIZE mal"
    and "length (request_text filename (int (length content))) < PAYLOAD_SIZE"
    and "arrives w (server_replies src (length content))"
  shows "\<exists>w'. copy_file_client mal garbage w content filename target = Some (Return 0, w') \<and>
           sent w' = sent w @ client_sends target src filename content"
  using assms by (rule client_run)

theorem client_sends_file_witness:
  "\<exists>w'. copy_file_client example_malloc_50 0
       ((hearing (server_replies \<lparr>sin_addr = 1, sin_port = 9\<rparr> (length big_file)))\<lparr>files := [[97] \<mapsto> big_file]\<rparr>)
       big_file [97] \<lparr>sin_addr = 1, sin_port = 2\<rparr> = Some (Return 0, w') \<and>
     sent w' = client_sends \<lparr>sin_addr = 1, sin_port = 2\<rparr> \<lparr>sin_addr = 1, sin_port = 9\<rparr> [97] big_file"
proof -
  have "length (request_text [97] (int (length big_file))) < PAYLOAD_SIZE"
    by (simp add: request_text_def cstr_def print_ld_def digits.simps big_file_def)
  from client_sends_file [OF hearing_facts(4) _ malloc_serves_first_free this hearing_facts(5)]
  show ?thesis by (simp add: hearing_def)
qed

end
