(* ===== verification/Ft_Trace.thy ===== *)
theory Ft_Trace
  imports Ft_Transfer Ft_Client_Run
begin

text \<open>
  Runs of the two programs and their traces. A run of the server's \<open>receive_loop\<close>, and a run of the client
  after its request (\<open>send_file\<close>), is taken apart into the datagrams it sends and takes, in their order.
  A function returns exactly what one of its traces leads to.
\<close>

section \<open>Traces\<close>

datatype event =
    Sends "buffer list"   \<comment> \<open>what one call of \<open>send_packet\<close> or \<open>send_all\<close> hands to the network\<close>
  | Takes buffer          \<comment> \<open>a datagram the process receives and looks at\<close>

text \<open>The server's receive loop: its trace, how it leaves the loop, its buffer and its world there.\<close>

inductive server_trace ::
  "transfer \<Rightarrow> world \<Rightarrow> buffer \<Rightarrow> int \<Rightarrow> u16 \<Rightarrow> event list \<Rightarrow> next_action \<Rightarrow> buffer \<Rightarrow> world \<Rightarrow> bool"
for t where
  silence:
    "read_until_timeout w b (t_origin t) = Some (-1, b', w1) \<Longrightarrow>
     server_trace t w b r e [] (Stop (Exit TIMEOUT)) b' (unlink_file w1 (t_name t))"
| packet:
    "read_until_timeout w b (t_origin t) = Some (int (length p), put_at junk 0 p, w1) \<Longrightarrow> length junk = PACKET_SIZE \<Longrightarrow>
     length p \<le> PACKET_SIZE \<Longrightarrow>
     handle_packet w1 (t_origin t) (t_name t) (t_size t) r e (put_at junk 0 p) = (Again r' e', w2) \<Longrightarrow>
     server_trace t w2 (put_at junk 0 p) r' e' F act b' w' \<Longrightarrow>
     server_trace t w b r e (Takes p # Sends (newly_sent w1 w2) # F) act b' w'"
| last_packet:
    "read_until_timeout w b (t_origin t) = Some (int (length p), put_at junk 0 p, w1) \<Longrightarrow> length junk = PACKET_SIZE \<Longrightarrow>
     length p \<le> PACKET_SIZE \<Longrightarrow>
     handle_packet w1 (t_origin t) (t_name t) (t_size t) r e (put_at junk 0 p) = (act, w2) \<Longrightarrow>
     (\<And>r' e'. act \<noteq> Again r' e') \<Longrightarrow>
     server_trace t w b r e [Takes p, Sends (newly_sent w1 w2)] act (put_at junk 0 p) w2"

text \<open>What the server does after its loop.\<close>

definition after_loop :: "transfer \<Rightarrow> next_action \<Rightarrow> buffer \<Rightarrow> world \<Rightarrow> (int outcome \<times> world) option" where
  "after_loop t act b w =
     (case act of
        Again _ _ \<Rightarrow> None
      | Fin_received \<Rightarrow> finish_transfer w b (t_origin t)
      | Stop oc \<Rightarrow> Some (oc, w))"

text \<open>
  The client after its request. \<open>close_trace\<close> is the closing handshake, whose replies change nothing but
  when it ends; \<open>client_trace\<close> is the transfer and the handshake, at the head of the outer loop (\<open>True\<close>) or
  before a look for replies (\<open>False\<close>).
\<close>

inductive close_trace :: "transfer \<Rightarrow> int \<Rightarrow> world \<Rightarrow> buffer \<Rightarrow> event list \<Rightarrow> world \<Rightarrow> bool" for t lastACK where
  over: "time_now w = (now, w1) \<Longrightarrow> \<not> now - lastACK < ACK_TIMEOUT \<Longrightarrow> close_trace t lastACK w b [] w1"
| finack:
    "time_now w = (now, w1) \<Longrightarrow> now - lastACK < ACK_TIMEOUT \<Longrightarrow>
     send_packet w1 (t_target t) (control CMD_FIN 0) = (r, w2) \<Longrightarrow>
     read_only_from w2 b PACKET_SIZE (t_target t) = (n, b1, w3) \<Longrightarrow>
     skip_acks (t_target t) w3 n b1 = Some (b2, w4) \<Longrightarrow> b2 ! 0 = CMD_FINACK \<Longrightarrow>
     close_trace t lastACK w b [Sends (newly_sent w1 w2)] w4"
| fin_again:
    "time_now w = (now, w1) \<Longrightarrow> now - lastACK < ACK_TIMEOUT \<Longrightarrow>
     send_packet w1 (t_target t) (control CMD_FIN 0) = (r, w2) \<Longrightarrow>
     read_only_from w2 b PACKET_SIZE (t_target t) = (n, b1, w3) \<Longrightarrow>
     skip_acks (t_target t) w3 n b1 = Some (b2, w4) \<Longrightarrow> b2 ! 0 \<noteq> CMD_FINACK \<Longrightarrow>
     close_trace t lastACK w4 b2 E w' \<Longrightarrow>
     close_trace t lastACK w b (Sends (newly_sent w1 w2) # E) w'"

inductive client_trace :: "transfer \<Rightarrow> bool \<Rightarrow> world \<Rightarrow> sender \<Rightarrow> event list \<Rightarrow> int outcome \<Rightarrow> world \<Rightarrow> bool" for t where
  closes:
    "s_written s = t_size t \<Longrightarrow> time_now w = (now, w1) \<Longrightarrow> close_trace t now w1 (s_buffer s) E w' \<Longrightarrow>
     client_trace t True w s E (Return 0) w'"
| send_fails:
    "s_written s \<noteq> t_size t \<Longrightarrow> fill_window (t_malloc t) (t_size t) s = Some (Return s1) \<Longrightarrow>
     send_all w (t_target t) (s_heap s1) (s_packets s1) = Some (Return 1, w1) \<Longrightarrow>
     client_trace t True w s [Sends (newly_sent w w1)] (Exit CLIENT_RUNTIME_ERROR) w1"
| gives_up:
    "s_written s \<noteq> t_size t \<Longrightarrow> fill_window (t_malloc t) (t_size t) s = Some (Return s1) \<Longrightarrow>
     send_all w (t_target t) (s_heap s1) (s_packets s1) = Some (Return 0, w1) \<Longrightarrow>
     time_now w1 = (now, w2) \<Longrightarrow> now - s_lastACK s1 > ACK_TIMEOUT \<Longrightarrow>
     client_trace t True w s [Sends (newly_sent w w1)] (Exit CLIENT_TIMEOUT) w2"
| window:
    "s_written s \<noteq> t_size t \<Longrightarrow> fill_window (t_malloc t) (t_size t) s = Some (Return s1) \<Longrightarrow>
     send_all w (t_target t) (s_heap s1) (s_packets s1) = Some (Return 0, w1) \<Longrightarrow>
     time_now w1 = (now, w2) \<Longrightarrow> \<not> now - s_lastACK s1 > ACK_TIMEOUT \<Longrightarrow>
     client_trace t False w2 s1 E oc w' \<Longrightarrow>
     client_trace t True w s (Sends (newly_sent w w1) # E) oc w'"
| no_reply:
    "read_only_from w (s_buffer s) PACKET_SIZE (t_target t) = (-1, b, w1) \<Longrightarrow> length b = PACKET_SIZE \<Longrightarrow>
     errno w1 = EAGAIN \<Longrightarrow> client_trace t True w1 (s\<lparr>s_read := -1, s_buffer := b\<rparr>) E oc w' \<Longrightarrow>
     client_trace t False w s E oc w'"
| next_reply:
    "read_only_from w (s_buffer s) PACKET_SIZE (t_target t) = (int (length p), put_at junk 0 p, w1) \<Longrightarrow>
     length junk = PACKET_SIZE \<Longrightarrow> length p \<le> PACKET_SIZE \<Longrightarrow>
     handle_reply (t_size t) w1 (s\<lparr>s_read := int (length p), s_buffer := put_at junk 0 p\<rparr>) = Some (Next_reply s2, w2) \<Longrightarrow>
     client_trace t False w2 s2 E oc w' \<Longrightarrow> client_trace t False w s (Takes p # E) oc w'"
| last_reply:
    "read_only_from w (s_buffer s) PACKET_SIZE (t_target t) = (int (length p), put_at junk 0 p, w1) \<Longrightarrow>
     length junk = PACKET_SIZE \<Longrightarrow> length p \<le> PACKET_SIZE \<Longrightarrow>
     handle_reply (t_size t) w1 (s\<lparr>s_read := int (length p), s_buffer := put_at junk 0 p\<rparr>) = Some (Leave_loop s2, w2) \<Longrightarrow>
     client_trace t True w2 s2 E oc w' \<Longrightarrow> client_trace t False w s (Takes p # E) oc w'"
| rejected:
    "read_only_from w (s_buffer s) PACKET_SIZE (t_target t) = (int (length p), put_at junk 0 p, w1) \<Longrightarrow>
     length junk = PACKET_SIZE \<Longrightarrow> length p \<le> PACKET_SIZE \<Longrightarrow>
     handle_reply (t_size t) w1 (s\<lparr>s_read := int (length p), s_buffer := put_at junk 0 p\<rparr>) = Some (Quit (Exit c), w2) \<Longrightarrow>
     client_trace t False w s [Takes p] (Exit c) w2"

text \<open>The function of the client's code after its request: the transfer, and then the closing handshake.\<close>

definition close_file :: "transfer \<Rightarrow> sender outcome \<times> world \<Rightarrow> (int outcome \<times> world) option" where
  "close_file t = (\<lambda>(oc, w).
     (case oc of
        Return s \<Rightarrow>
          (case time_now w of
             (now, w1) \<Rightarrow> map_option (\<lambda>(_, w2). (Return 0, w2)) (close_loop now (t_target t) w1 (s_buffer s)))
      | Exit c \<Rightarrow> Some (Exit c, w)
      | Fault \<Rightarrow> Some (Fault, w)))"

definition send_file :: "transfer \<Rightarrow> world \<Rightarrow> sender \<Rightarrow> (int outcome \<times> world) option" where
  "send_file t w s = Option.bind (data_loop (t_malloc t) (t_size t) (t_target t) w s) (close_file t)"

section \<open>Receiving\<close>

text \<open>A read brings a datagram or nothing; both leave the world as it is but for the counters.\<close>

lemma read_only_from_cases:
  assumes "read_only_from w b PACKET_SIZE a = (n, b', w')" and "length b = PACKET_SIZE" and "n > 0"
  obtains p junk where "n = int (length p)" "b' = put_at junk 0 p" "length junk = PACKET_SIZE" "length p \<le> PACKET_SIZE"
proof -
  obtain fill src bs where "w_temp w (n_temp w) = Some fill" "w_recv w (n_recv w) = Rx_dgram src bs"
    using assms by (auto simp: read_only_from_unfold malloc_temp_def recvfrom_def split: option.splits recv_result.splits)
  from read_only_from_dgram [OF this assms(2), of a] assms(1) show thesis
    by (intro that [of "take PACKET_SIZE bs" "map fill [0..<PACKET_SIZE]"]) auto
qed

lemma read_poll_datagram:
  assumes ret: "read_poll st w b a = Some r" and "length b = PACKET_SIZE"
  shows "fst r > 0 \<longrightarrow> (\<exists>p junk. r = (int (length p), put_at junk 0 p, snd (snd r)) \<and> length junk = PACKET_SIZE \<and> length p \<le> PACKET_SIZE)"
proof -
  let ?Q = "\<lambda>r :: int \<times> buffer \<times> world. fst r > 0 \<longrightarrow>
    (\<exists>p junk. r = (int (length p), put_at junk 0 p, snd (snd r)) \<and> length junk = PACKET_SIZE \<and> length p \<le> PACKET_SIZE)"
  let ?P = "\<lambda>st w b a r. length b = PACKET_SIZE \<longrightarrow> ?Q r"
  have "?P st w b a r"
  proof (rule read_poll.raw_induct [where P = ?P, OF _ ret], intro impI)
    fix f st w b a and r :: "int \<times> buffer \<times> world"
    assume IH: "\<And>st w b a r. f st w b a = Some r \<Longrightarrow> ?P st w b a r"
      and eq: "(case time_now w of (now, w1) \<Rightarrow>
          if now - st < 6 then
            (case read_only_from w1 b PACKET_SIZE a of
               (n, b', w2) \<Rightarrow> if n > 0 then Some (n, b', w2) else f st w2 b' a)
          else Some (-1, b, w1)) = Some r"
      and len: "length b = PACKET_SIZE" and pos: "fst r > 0"
    obtain now w1 where t: "time_now w = (now, w1)" by fastforce
    obtain n b' w2 where rd: "read_only_from w1 b PACKET_SIZE a = (n, b', w2)" by (metis prod_cases3)
    have early: "now - st < 6" using eq t pos by (auto split: if_splits)
    show "\<exists>p junk. r = (int (length p), put_at junk 0 p, snd (snd r)) \<and> length junk = PACKET_SIZE \<and> length p \<le> PACKET_SIZE"
    proof (cases "n > 0")
      case True
      then have "r = (n, b', w2)" using eq t rd early by simp
      with read_only_from_cases [OF rd len True] show ?thesis by (metis snd_conv)
    next
      case False
      then have "f st w2 b' a = Some r" using eq t rd early by simp
      with IH pos read_only_from_frame(3) [OF rd len] show ?thesis by blast
    qed
  qed
  with assms(2) show ?thesis by blast
qed

lemma read_until_timeout_cases:
  assumes rd: "read_until_timeout w b a = Some (n, b', w1)" and "length b = PACKET_SIZE"
  obtains (silence) "n = -1" "quiet w w1" "length b' = PACKET_SIZE"
    | (datagram) p junk where "n = int (length p)" "b' = put_at junk 0 p" "length junk = PACKET_SIZE" "length p \<le> PACKET_SIZE"
      "n \<noteq> -1" "quiet w w1"
proof -
  have post: "poll_post (w_time w (n_time w)) w (n, b', w1)" by (rule read_until_timeout_post [OF assms])
  show thesis
  proof (cases "n > 0")
    case True
    then obtain p junk where "n = int (length p)" "b' = put_at junk 0 p" "length junk = PACKET_SIZE" "length p \<le> PACKET_SIZE"
      using rd read_poll_datagram [OF _ assms(2), of "w_time w (n_time w)" "snd (time_now w)" a "(n, b', w1)"]
      by (auto simp: read_until_timeout_def time_now_def)
    with datagram post True show thesis by (auto simp: poll_post_def)
  qed (use post silence in \<open>auto simp: poll_post_def\<close>)
qed

section \<open>The server's runs and their traces\<close>

lemma server_trace_runs:
  "server_trace t w b r e F act b' w' \<Longrightarrow>
   receive_loop w b (t_origin t) (t_name t) (t_size t) r e = after_loop t act b' w'"
proof (induction rule: server_trace.induct)
  case (last_packet w b p junk w1 r e act w2)
  then show ?case by (subst receive_loop.simps) (cases act; auto simp: after_loop_def)
qed (subst receive_loop.simps, simp add: after_loop_def)+

lemma receive_body_trace:
  assumes body: "Option.bind (read_until_timeout w b (t_origin t)) (\<lambda>(actual, b', w1).
       if actual = -1 then Some (Exit TIMEOUT, unlink_file w1 (t_name t))
       else (case handle_packet w1 (t_origin t) (t_name t) (t_size t) read e b' of
               (act, w2) \<Rightarrow>
                 (case act of
                    Again read' e' \<Rightarrow> f w2 b' read' e'
                  | Fin_received \<Rightarrow> finish_transfer w2 b' (t_origin t)
                  | Stop oc \<Rightarrow> Some (oc, w2)))) = Some res"
    and len: "length b = PACKET_SIZE"
    and IH: "\<And>w b read e. f w b read e = Some res \<Longrightarrow> length b = PACKET_SIZE \<Longrightarrow>
      \<exists>F act b' w'. server_trace t w b read e F act b' w' \<and> after_loop t act b' w' = Some res"
  shows "\<exists>F act b' w'. server_trace t w b read e F act b' w' \<and> after_loop t act b' w' = Some res"
proof -
  obtain n b' w1 where rd: "read_until_timeout w b (t_origin t) = Some (n, b', w1)"
    using body by (cases "read_until_timeout w b (t_origin t)") auto
  from rd len show ?thesis
  proof (cases rule: read_until_timeout_cases)
    case silence
    then have "server_trace t w b read e [] (Stop (Exit TIMEOUT)) b' (unlink_file w1 (t_name t))"
      using rd by (intro server_trace.silence) simp
    with body rd silence show ?thesis by (fastforce simp: after_loop_def)
  next
    case (datagram p junk)
    note rd' = rd [unfolded datagram(1,2)]
    obtain act w2 where h: "handle_packet w1 (t_origin t) (t_name t) (t_size t) read e (put_at junk 0 p) = (act, w2)"
      by fastforce
    show ?thesis
    proof (cases "\<exists>r e. act = Again r e")
      case True
      then obtain r' e' where act: "act = Again r' e'" by blast
      then have "f w2 (put_at junk 0 p) r' e' = Some res" using body rd datagram h by simp
      then obtain F act' b2 w' where "server_trace t w2 (put_at junk 0 p) r' e' F act' b2 w'" "after_loop t act' b2 w' = Some res"
        using IH datagram(3,4) by fastforce
      with server_trace.packet [OF rd' datagram(3,4) h [unfolded act]] show ?thesis by blast
    next
      case False
      then have "after_loop t act (put_at junk 0 p) w2 = Some res"
        using body rd datagram h by (cases act) (auto simp: after_loop_def)
      with server_trace.last_packet [OF rd' datagram(3,4) h] False show ?thesis by blast
    qed
  qed
qed

lemma receive_loop_trace:
  assumes ret: "receive_loop w b (t_origin t) (t_name t) (t_size t) read e = Some res" and "length b = PACKET_SIZE"
  shows "\<exists>F act b' w'. server_trace t w b read e F act b' w' \<and> after_loop t act b' w' = Some res"
proof -
  let ?P = "\<lambda>w b origin name fs read e res. origin = t_origin t \<longrightarrow> name = t_name t \<longrightarrow> fs = t_size t \<longrightarrow>
    length b = PACKET_SIZE \<longrightarrow>
    (\<exists>F act b' w'. server_trace t w b read e F act b' w' \<and> after_loop t act b' w' = Some res)"
  have "?P w b (t_origin t) (t_name t) (t_size t) read e res"
    by (rule receive_loop.raw_induct [where P = ?P, OF _ ret], intro impI, hypsubst, erule receive_body_trace, assumption) blast
  with assms(2) show ?thesis by blast
qed

section \<open>The client's runs and their traces\<close>

text \<open>\<^verbatim>\<open>copy_file\<close> of the client is its request followed by \<open>send_file\<close>.\<close>

lemma copy_file_client_send:
  assumes "files w filename = Some (t_content t)" and "t_malloc t = mal"
  shows "copy_file_client mal garbage w (t_content t) filename target =
    Option.bind (complete_request w (replicate PACKET_SIZE 0) (t_size t) filename target) (\<lambda>(oc, w1).
      (case oc of
         Return (buffer, target') \<Rightarrow>
           (case time_now w1 of
              (now, w2) \<Rightarrow> send_file (t\<lparr>t_target := target'\<rparr>) w2 (start_sender (t_content t) buffer now))
       | Exit c \<Rightarrow> Some (Exit c, w1)
       | Fault \<Rightarrow> Some (Fault, w1)))"
proof -
  have "get_file_size w garbage filename = t_size t" "\<And>a. t_size (t\<lparr>t_target := a\<rparr>) = t_size t"
    using assms(1) by (simp_all add: get_file_size_def t_size_def)
  then show ?thesis
    using assms(2) unfolding copy_file_client_def send_file_def close_file_def Let_def
    by (simp cong: outcome.case_cong prod.case_cong)
qed

lemma close_trace_runs:
  "close_trace t lastACK w b E w' \<Longrightarrow> \<exists>b'. close_loop lastACK (t_target t) w b = Some (b', w')"
proof (induction rule: close_trace.induct)
  case (over w now w1 b)
  then show ?case by (subst close_loop.simps) simp
next
  case finack
  then show ?case by (subst close_loop.simps) simp
next
  case fin_again
  then show ?case by (subst close_loop.simps) simp
qed

text \<open>In the middle of a round: the replies first, then the outer loop again.\<close>

definition from_replies :: "transfer \<Rightarrow> world \<Rightarrow> sender \<Rightarrow> (int outcome \<times> world) option" where
  "from_replies t w s =
     Option.bind (ack_loop (t_size t) (t_target t) w s) (\<lambda>(oc, w').
       (case oc of Return s' \<Rightarrow> send_file t w' s' | Exit c \<Rightarrow> Some (Exit c, w') | Fault \<Rightarrow> Some (Fault, w')))"

lemma send_file_closes:
  "s_written s = t_size t \<Longrightarrow> send_file t w s = close_file t (Return s, w)"
  by (simp add: send_file_def data_loop.simps)

lemma send_file_round:
  assumes "s_written s \<noteq> t_size t" and "fill_window (t_malloc t) (t_size t) s = Some (Return s1)"
    and "send_all w (t_target t) (s_heap s1) (s_packets s1) = Some (Return n, w1)" and "time_now w1 = (now, w2)"
  shows "send_file t w s =
    (if n \<noteq> 0 then Some (Exit CLIENT_RUNTIME_ERROR, w1)
     else if now - s_lastACK s1 > ACK_TIMEOUT then Some (Exit CLIENT_TIMEOUT, w2)
     else from_replies t w2 s1)"
proof -
  have "Option.bind (Option.bind (ack_loop (t_size t) (t_target t) w2 s1) (\<lambda>(oc2, w3).
      (case oc2 of Return s2 \<Rightarrow> data_loop (t_malloc t) (t_size t) (t_target t) w3 s2
        | Exit c \<Rightarrow> Some (Exit c, w3) | Fault \<Rightarrow> Some (Fault, w3)))) (close_file t) = from_replies t w2 s1"
    by (cases "ack_loop (t_size t) (t_target t) w2 s1")
      (auto simp: from_replies_def send_file_def close_file_def split: outcome.splits)
  with assms show ?thesis
    unfolding send_file_def by (subst data_loop.simps) (simp add: close_file_def)
qed

lemma from_replies_read:
  "read_only_from w (s_buffer s) PACKET_SIZE (t_target t) = (-1, b, w1) \<Longrightarrow> errno w1 = EAGAIN \<Longrightarrow>
   from_replies t w s = send_file t w1 (s\<lparr>s_read := -1, s_buffer := b\<rparr>)"
  "read_only_from w (s_buffer s) PACKET_SIZE (t_target t) = (int n, b, w1) \<Longrightarrow>
   handle_reply (t_size t) w1 (s\<lparr>s_read := int n, s_buffer := b\<rparr>) = Some (act, w2) \<Longrightarrow>
   from_replies t w s =
     (case act of Next_reply s2 \<Rightarrow> from_replies t w2 s2 | Leave_loop s2 \<Rightarrow> send_file t w2 s2
        | Quit oc \<Rightarrow> (case oc of Return s2 \<Rightarrow> send_file t w2 s2 | Exit c \<Rightarrow> Some (Exit c, w2) | Fault \<Rightarrow> Some (Fault, w2)))"
  unfolding from_replies_def by (subst ack_loop.simps, simp split: reply_action.splits)+

lemma client_trace_runs:
  "client_trace t filling w s E oc w' \<Longrightarrow> (if filling then send_file t w s else from_replies t w s) = Some (oc, w')"
proof (induction rule: client_trace.induct)
  case (closes s w now w1 E w')
  then show ?case using close_trace_runs by (fastforce simp: send_file_closes close_file_def)
next
  case (send_fails s s1 w w1)
  then show ?case using send_file_round [of s t s1 w 1 w1] by (simp add: time_now_def)
next
  case gives_up
  then show ?case using send_file_round by simp
next
  case window
  then show ?case using send_file_round by simp
qed (simp_all add: from_replies_read)

text \<open>Sending and looking at replies do not change how the world answers.\<close>

lemma same_answers_refl [simp]: "same_answers w w"
  by (simp add: same_answers_def)

lemma send_from_answers:
  assumes "send_from w target h p = Some r"
  shows "same_answers w (snd r)"
proof (rule send_from.raw_induct [where P = "\<lambda>w target h p r. same_answers w (snd r)", OF _ assms])
  fix f w target h p and r :: "int outcome \<times> world"
  assume IH: "\<And>w target h p r. f w target h p = Some r \<Longrightarrow> same_answers w (snd r)"
    and eq: "(case p of
        None \<Rightarrow> Some (Return 0, w)
      | Some n \<Rightarrow>
          (case h n of
             None \<Rightarrow> Some (Fault, w)
           | Some node \<Rightarrow>
               (case send_packet w target (node_data node) of
                  (r, w') \<Rightarrow> if r \<noteq> 0 then Some (Return 1, w') else f w' target h (node_next node)))) = Some r"
  show "same_answers w (snd r)"
  proof (cases "r \<in> {(Return 0, w), (Fault, w)}")
    case True
    then show ?thesis by (auto simp: same_answers_def)
  next
    case False
    with eq obtain m node where pn: "p = Some m" "h m = Some node" by (cases p; cases "h (the p)") auto
    obtain n w' where sp: "send_packet w target (node_data node) = (n, w')" by fastforce
    have r: "r = (Return 1, w') \<or> f w' target h (node_next node) = Some r"
      using eq pn sp by (simp split: if_splits)
    have "same_answers w' (snd r)" using r IH [of w' target h "node_next node" r] by auto
    with send_packet_frame(1) [OF sp] show ?thesis by (rule same_answers_trans)
  qed
qed

lemma send_all_answers: "send_all w target h l = Some (oc, w') \<Longrightarrow> same_answers w w'"
  using send_from_answers [of w target h "ll_head l"]
  by (fastforce simp: send_all_def same_answers_def split: if_splits)

lemma ack_window_answers:
  assumes "ack_window acked w s = Some r"
  shows "same_answers w (snd r)"
proof (rule ack_window.raw_induct [where P = "\<lambda>acked w s r. same_answers w (snd r)", OF _ assms])
  fix f acked w s and r :: "sender outcome \<times> world"
  assume IH: "\<And>acked w s r. f acked w s = Some r \<Longrightarrow> same_answers w (snd r)"
    and eq: "(if ll_head (s_packets s) = None then Some (Return s, w)
      else
        (case head_data (s_heap s) (s_packets s) of
           None \<Rightarrow> Some (Fault, w)
         | Some first \<Rightarrow>
             (case tail_data (s_heap s) (s_packets s) of
                None \<Rightarrow> Some (Fault, w)
              | Some lst \<Rightarrow>
                  if acked = get_seq_num first then Some (Return s, w)
                  else if ack_outside (get_seq_num first) (get_seq_num lst) acked
                  then Some (Return s, w)
                  else
                    (case time_now w of
                       (now, w1) \<Rightarrow>
                         (case list_pop (s_heap s, s_packets s) of
                            None \<Rightarrow> Some (Fault, w1)
                          | Some q \<Rightarrow>
                              f acked w1
                                (s\<lparr>s_lastACK := now,
                                   s_written := s_written s + int (unat (GETLEN first)),
                                   s_heap := fst q, s_packets := snd q\<rparr>)))))) = Some r"
  have refl: "same_answers w w" "same_answers w (snd (time_now w))" by (simp_all add: same_answers_def time_now_def)
  show "same_answers w (snd r)"
  proof (cases "r \<in> {(Return s, w), (Fault, w), (Fault, snd (time_now w))}")
    case True
    with refl show ?thesis by auto
  next
    case False
    with eq obtain s' where "f acked (snd (time_now w)) s' = Some r"
      by (auto split: if_splits option.splits prod.splits)
    from same_answers_trans [OF refl(2) IH [OF this]] show ?thesis .
  qed
qed

lemma handle_reply_answers: "handle_reply fs w s = Some (act, w') \<Longrightarrow> same_answers w w'"
  by (auto simp: handle_reply_def same_answers_def dest!: ack_window_answers split: if_splits)

text \<open>A network that answers every receive with a datagram or with \<^verbatim>\<open>EAGAIN\<close>, on a machine with memory.\<close>

definition orderly :: "world \<Rightarrow> bool" where
  "orderly w \<longleftrightarrow> (\<forall>k. w_temp w k \<noteq> None \<and>
     (case w_recv w k of Rx_dgram _ bs \<Rightarrow> bs \<noteq> [] | Rx_error e \<Rightarrow> e = EAGAIN))"

lemma orderly_answers: "orderly w \<Longrightarrow> same_answers w w' \<Longrightarrow> orderly w'"
  by (simp add: orderly_def same_answers_def)

lemma orderly_read:
  assumes "orderly w" and "length b = PACKET_SIZE" and rd: "read_only_from w b PACKET_SIZE a = (n, b', w1)"
  obtains (idle) "n = -1" "errno w1 = EAGAIN" "length b' = PACKET_SIZE" "same_answers w w1"
    | (datagram) p junk where "n = int (length p)" "b' = put_at junk 0 p" "length junk = PACKET_SIZE" "length p \<le> PACKET_SIZE"
      "n > 0" "same_answers w w1"
proof -
  have q: "same_answers w w1" "length b' = PACKET_SIZE" using read_only_from_frame [OF rd] assms(2) by (auto simp: quiet_def)
  obtain fill where "w_temp w (n_temp w) = Some fill" using assms(1) by (auto simp: orderly_def)
  then have "n > 0 \<or> n = -1 \<and> errno w1 = EAGAIN"
    using rd assms(1) [unfolded orderly_def, THEN spec [of _ "n_recv w"]]
    by (auto simp: read_only_from_unfold malloc_temp_def recvfrom_def split: recv_result.splits)
  then show thesis
  proof
    assume "n > 0"
    with read_only_from_cases [OF rd assms(2)] q(1) datagram show thesis by metis
  next
    assume "n = -1 \<and> errno w1 = EAGAIN"
    then show thesis using q by (intro idle) simp_all
  qed
qed

text \<open>The replies of a round, and whatever trace the client has afterwards.\<close>

definition leads_to :: "transfer \<Rightarrow> bool \<Rightarrow> world \<Rightarrow> sender \<Rightarrow> sender outcome \<times> world \<Rightarrow> bool" where
  "leads_to t filling w s r \<longleftrightarrow> orderly (snd r) \<and>
     (case fst r of
        Return s' \<Rightarrow> \<forall>E oc w'. client_trace t True (snd r) s' E oc w' \<longrightarrow> (\<exists>E'. client_trace t filling w s E' oc w')
      | Exit c \<Rightarrow> \<exists>E. client_trace t filling w s E (Exit c) (snd r)
      | Fault \<Rightarrow> False)"

lemma ack_body_trace:
  assumes body: "(case read_only_from w (s_buffer s) PACKET_SIZE (t_target t) of
        (n, buffer, w1) \<Rightarrow>
          let s1 = s\<lparr>s_read := n, s_buffer := buffer\<rparr> in
          if n < 0 \<and> (errno w1 = EWOULDBLOCK \<or> errno w1 = EAGAIN) then Some (Return s1, w1)
          else Option.bind (handle_reply (t_size t) w1 s1) (\<lambda>(act, w2).
                 (case act of
                    Next_reply s2 \<Rightarrow> f w2 s2
                  | Leave_loop s2 \<Rightarrow> Some (Return s2, w2)
                  | Quit oc \<Rightarrow> Some (oc, w2)))) = Some res"
    and inv: "sending content s base N" and w: "orderly w"
    and IH: "\<And>w s base. f w s = Some res \<Longrightarrow> sending content s base N \<Longrightarrow> orderly w \<Longrightarrow> leads_to t False w s res"
  shows "leads_to t False w s res"
proof -
  obtain n b w1 where rd: "read_only_from w (s_buffer s) PACKET_SIZE (t_target t) = (n, b, w1)" by (metis prod_cases3)
  have len: "length (s_buffer s) = PACKET_SIZE" using inv by (simp add: sending_def)
  from w len rd show ?thesis
  proof (cases rule: orderly_read)
    case idle
    then have "res = (Return (s\<lparr>s_read := -1, s_buffer := b\<rparr>), w1)" using body rd by simp
    with orderly_answers [OF w idle(4)] no_reply [OF rd [unfolded idle(1)] idle(3,2)] show ?thesis
      by (auto simp: leads_to_def)
  next
    case (datagram p junk)
    let ?s1 = "s\<lparr>s_read := int (length p), s_buffer := put_at junk 0 p\<rparr>"
    note rd' = rd [unfolded datagram(1,2)]
    have inv1: "sending content ?s1 base N" using inv datagram(3,4) by (simp add: sending_def)
    obtain act w2 where h: "handle_reply (t_size t) w1 ?s1 = Some (act, w2)"
      "case act of Next_reply s' \<Rightarrow> \<exists>base'. sending content s' base' N
         | Leave_loop s' \<Rightarrow> s' = ?s1 \<and> t_size t \<le> s_written ?s1 | Quit oc \<Rightarrow> oc = Exit CLIENT_BAD_REQUEST"
      using handle_reply_safe [OF inv1] by blast
    have w2: "orderly w2"
      using orderly_answers [OF orderly_answers [OF w datagram(6)] handle_reply_answers [OF h(1)]] .
    have rest: "(case act of Next_reply s2 \<Rightarrow> f w2 s2 | Leave_loop s2 \<Rightarrow> Some (Return s2, w2) | Quit oc \<Rightarrow> Some (oc, w2)) = Some res"
      using body rd datagram(1,2) h(1) by simp
    show ?thesis
    proof (cases act)
      case (Next_reply s2)
      then have "leads_to t False w2 s2 res" using rest h(2) IH w2 by auto
      with next_reply [OF rd' datagram(3,4) h(1) [unfolded Next_reply]] show ?thesis
        by (auto simp: leads_to_def split: outcome.splits) blast+
    next
      case (Leave_loop s2)
      with rest w2 last_reply [OF rd' datagram(3,4) h(1) [unfolded Leave_loop]] show ?thesis
        by (auto simp: leads_to_def) blast
    next
      case (Quit oc)
      with h have q: "handle_reply (t_size t) w1 ?s1 = Some (Quit (Exit CLIENT_BAD_REQUEST), w2)" by simp
      have "res = (Exit CLIENT_BAD_REQUEST, w2)" using rest Quit h(2) by simp
      with w2 rejected [OF rd' datagram(3,4) q] show ?thesis by (auto simp: leads_to_def)
    qed
  qed
qed

lemma ack_loop_trace:
  assumes ret: "ack_loop (t_size t) (t_target t) w s = Some r" and "sending content s base N" and "orderly w"
  shows "leads_to t False w s r"
proof -
  let ?P = "\<lambda>fs target w s r. fs = t_size t \<longrightarrow> target = t_target t \<longrightarrow>
    (\<forall>base. sending content s base N \<longrightarrow> orderly w \<longrightarrow> leads_to t False w s r)"
  have "?P (t_size t) (t_target t) w s r"
    by (rule ack_loop.raw_induct [where P = ?P, OF _ ret], intro impI allI, hypsubst, erule ack_body_trace, assumption, assumption) blast
  with assms(2,3) show ?thesis by blast
qed

lemma data_body_trace:
  assumes body: "Option.bind (fill_window (t_malloc t) (t_size t) s) (\<lambda>oc.
        (case oc of
           Return s1 \<Rightarrow>
             Option.bind (send_all w (t_target t) (s_heap s1) (s_packets s1)) (\<lambda>(r, w1).
               if r \<noteq> Return 0 then Some (if r = Fault then Fault else Exit CLIENT_RUNTIME_ERROR, w1)
               else
                 (case time_now w1 of
                    (now, w2) \<Rightarrow>
                      if now - s_lastACK s1 > ACK_TIMEOUT then Some (Exit CLIENT_TIMEOUT, w2)
                      else Option.bind (ack_loop (t_size t) (t_target t) w2 s1) (\<lambda>(oc2, w3).
                             (case oc2 of
                                Return s2 \<Rightarrow> f w3 s2
                              | Exit c \<Rightarrow> Some (Exit c, w3)
                              | Fault \<Rightarrow> Some (Fault, w3)))))
         | Exit c \<Rightarrow> Some (Exit c, w)
         | Fault \<Rightarrow> Some (Fault, w))) = Some res"
    and inv: "sending (t_content t) s base N" "read_sound (t_content t) s" "malloc_serves WINDOW_SIZE (t_malloc t)"
    and less: "s_written s \<noteq> t_size t" and w: "orderly w"
    and IH: "\<And>w s. f w s = Some res \<Longrightarrow> loop_end (t_content t) (Return s) \<Longrightarrow> orderly w \<Longrightarrow> leads_to t True w s res"
  shows "leads_to t True w s res"
proof -
  have fs: "t_size t = int (length (t_content t))" by (simp add: t_size_def)
  have "s_written s < int (length (t_content t))" using less sending_written_le [OF inv(1)] fs by simp
  from data_round_sends [OF inv this, of w "t_target t"] obtain s1 n w1 where
    s1: "fill_window (t_malloc t) (t_size t) s = Some (Return s1)" "sending (t_content t) s1 base (base + WINDOW_SIZE)"
    "send_all w (t_target t) (s_heap s1) (s_packets s1) = Some (Return n, w1)" unfolding fs by blast
  have n: "n = 0 \<or> n = 1"
    using send_all_rep_prefix [OF sending_window [OF s1(2)], of w "t_target t"] s1(3) by (auto split: if_splits)
  obtain now w2 where t: "time_now w1 = (now, w2)" by fastforce
  have w2: "orderly w1" "orderly w2"
    using orderly_answers [OF w send_all_answers [OF s1(3)]] orderly_answers quiet_time [OF t] by (auto simp: quiet_def)
  show ?thesis
  proof (cases "n = 0 \<and> \<not> now - s_lastACK s1 > ACK_TIMEOUT")
    case False
    then consider "n = 1" "res = (Exit CLIENT_RUNTIME_ERROR, w1)" | "n = 0" "now - s_lastACK s1 > ACK_TIMEOUT" "res = (Exit CLIENT_TIMEOUT, w2)"
      using body s1(1,3) t n by fastforce
    then show ?thesis
    proof cases
      case 1
      with w2 send_fails [OF less s1(1)] s1(3) show ?thesis by (auto simp: leads_to_def)
    next
      case 2
      with w2 gives_up [OF less s1(1) _ t] s1(3) show ?thesis by (auto simp: leads_to_def)
    qed
  next
    case True
    then obtain oc2 w3 where a: "ack_loop (t_size t) (t_target t) w2 s1 = Some (oc2, w3)"
      "(case oc2 of Return s2 \<Rightarrow> f w3 s2 | Exit c \<Rightarrow> Some (Exit c, w3) | Fault \<Rightarrow> Some (Fault, w3)) = Some res"
      using body s1(1,3) t by (auto simp: bind_eq_Some_conv)
    have win: "client_trace t False w2 s1 E oc w' \<Longrightarrow> \<exists>E'. client_trace t True w s E' oc w'" for E oc w'
      using window [OF less s1(1) _ t] s1(3) True by blast
    have l: "leads_to t False w2 s1 (oc2, w3)" by (rule ack_loop_trace [OF a(1) s1(2) w2(2)])
    show ?thesis
    proof (cases oc2)
      case (Return s2)
      have "loop_end (t_content t) oc2" using ack_loop_safe [OF a(1) s1(2) fs] by simp
      with Return a(2) l IH have "leads_to t True w3 s2 res" by (simp add: leads_to_def)
      with l Return win show ?thesis by (auto simp: leads_to_def split: outcome.splits) (metis)+
    next
      case (Exit c)
      with l a(2) win show ?thesis by (auto simp: leads_to_def)
    qed (use l in \<open>simp add: leads_to_def\<close>)
  qed
qed

lemma data_loop_trace:
  assumes ret: "data_loop (t_malloc t) (t_size t) (t_target t) w s = Some r" and "loop_end (t_content t) (Return s)"
    and mal: "malloc_serves WINDOW_SIZE (t_malloc t)" and "orderly w"
  shows "leads_to t True w s r"
proof -
  let ?P = "\<lambda>mal fs target w s r. mal = t_malloc t \<longrightarrow> fs = t_size t \<longrightarrow> target = t_target t \<longrightarrow>
    loop_end (t_content t) (Return s) \<longrightarrow> orderly w \<longrightarrow> leads_to t True w s r"
  have "?P (t_malloc t) (t_size t) (t_target t) w s r"
  proof (rule data_loop.raw_induct [where P = ?P, OF _ ret], intro impI, hypsubst)
    fix f w s and r :: "sender outcome \<times> world"
    assume IH: "\<And>mal fs target w s r. f mal fs target w s = Some r \<Longrightarrow> ?P mal fs target w s r"
      and eq: "(if s_written s = t_size t then Some (Return s, w)
      else Option.bind (fill_window (t_malloc t) (t_size t) s) (\<lambda>oc.
        (case oc of
           Return s1 \<Rightarrow>
             Option.bind (send_all w (t_target t) (s_heap s1) (s_packets s1)) (\<lambda>(r, w1).
               if r \<noteq> Return 0 then Some (if r = Fault then Fault else Exit CLIENT_RUNTIME_ERROR, w1)
               else
                 (case time_now w1 of
                    (now, w2) \<Rightarrow>
                      if now - s_lastACK s1 > ACK_TIMEOUT then Some (Exit CLIENT_TIMEOUT, w2)
                      else Option.bind (ack_loop (t_size t) (t_target t) w2 s1) (\<lambda>(oc2, w3).
                             (case oc2 of
                                Return s2 \<Rightarrow> f (t_malloc t) (t_size t) (t_target t) w3 s2
                              | Exit c \<Rightarrow> Some (Exit c, w3)
                              | Fault \<Rightarrow> Some (Fault, w3)))))
         | Exit c \<Rightarrow> Some (Exit c, w)
         | Fault \<Rightarrow> Some (Fault, w)))) = Some r"
      and inv: "loop_end (t_content t) (Return s)" and w: "orderly w"
    show "leads_to t True w s r"
    proof (cases "s_written s = t_size t")
      case True
      then have "r = (Return s, w)" using eq by simp
      with w show ?thesis by (auto simp: leads_to_def)
    next
      case False
      obtain base N where "sending (t_content t) s base N" "read_sound (t_content t) s"
        using inv False by (auto simp: loop_end_def t_size_def)
      from data_body_trace [OF eq [unfolded if_not_P [OF False]] this mal False w] IH show ?thesis by blast
    qed
  qed
  with assms(2,4) show ?thesis by blast
qed

lemma close_body_trace:
  assumes body: "(case time_now w of
        (now, w1) \<Rightarrow>
          if now - lastACK < ACK_TIMEOUT then
            (case send_packet w1 (t_target t) (control CMD_FIN 0) of
               (_, w2) \<Rightarrow>
                 (case read_only_from w2 b PACKET_SIZE (t_target t) of
                    (r, b1, w3) \<Rightarrow>
                      Option.bind (skip_acks (t_target t) w3 r b1) (\<lambda>(b2, w4).
                        if b2 ! 0 = CMD_FINACK then Some (b2, w4) else f w4 b2)))
          else Some (b, w1)) = Some res"
    and IH: "\<And>w b. f w b = Some res \<Longrightarrow> \<exists>E. close_trace t lastACK w b E (snd res)"
  shows "\<exists>E. close_trace t lastACK w b E (snd res)"
proof -
  obtain now w1 where t: "time_now w = (now, w1)" by fastforce
  obtain q w2 where sp: "send_packet w1 (t_target t) (control CMD_FIN 0) = (q, w2)" by fastforce
  obtain n b1 w3 where rd: "read_only_from w2 b PACKET_SIZE (t_target t) = (n, b1, w3)" by (metis prod_cases3)
  show ?thesis
  proof (cases "now - lastACK < ACK_TIMEOUT")
    case True
    then obtain b2 w4 where sk: "skip_acks (t_target t) w3 n b1 = Some (b2, w4)"
      and rest: "(if b2 ! 0 = CMD_FINACK then Some (b2, w4) else f w4 b2) = Some res"
      using body t sp rd by (auto simp: bind_eq_Some_conv)
    show ?thesis
    proof (cases "b2 ! 0 = CMD_FINACK")
      case fa: True
      with rest have "res = (b2, w4)" by simp
      with finack [OF t True sp rd sk fa] show ?thesis by auto
    next
      case fa: False
      with rest have "f w4 b2 = Some res" by simp
      with IH fin_again [OF t True sp rd sk fa] show ?thesis by blast
    qed
  next
    case False
    with body t have "res = (b, w1)" by simp
    with over [OF t False] show ?thesis by auto
  qed
qed

lemma close_loop_trace:
  assumes ret: "close_loop lastACK (t_target t) w b = Some res"
  shows "\<exists>E. close_trace t lastACK w b E (snd res)"
proof -
  let ?P = "\<lambda>lastACK target w b res. target = t_target t \<longrightarrow> (\<exists>E. close_trace t lastACK w b E (snd res))"
  have "?P lastACK (t_target t) w b res"
    by (rule close_loop.raw_induct [where P = ?P, OF _ ret], intro impI, hypsubst, erule close_body_trace) blast
  then show ?thesis by blast
qed

lemma send_file_trace:
  assumes run: "send_file t w s = Some (oc, w')" and inv: "loop_end (t_content t) (Return s)"
    and mal: "malloc_serves WINDOW_SIZE (t_malloc t)" and w: "orderly w"
  shows "\<exists>E. client_trace t True w s E oc w'"
proof -
  obtain r where d: "data_loop (t_malloc t) (t_size t) (t_target t) w s = Some r" "close_file t r = Some (oc, w')"
    using run by (auto simp: send_file_def bind_eq_Some_conv)
  have l: "leads_to t True w s r" by (rule data_loop_trace [OF d(1) inv mal w])
  show ?thesis
  proof (cases "fst r")
    case (Return s')
    obtain now w1 where t: "time_now (snd r) = (now, w1)" by fastforce
    then obtain b where c: "close_loop now (t_target t) w1 (s_buffer s') = Some (b, w')" "oc = Return 0"
      using d(2) Return by (cases r) (auto simp: close_file_def)
    have "s_written s' = t_size t"
      using data_loop_safe [OF d(1) inv _ mal] Return by (simp add: t_size_def)
    with close_loop_trace [OF c(1)] t c(2) have "\<exists>E. client_trace t True (snd r) s' E oc w'"
      by (auto intro: closes)
    with l Return show ?thesis by (auto simp: leads_to_def)
  next
    case (Exit c)
    with l d(2) show ?thesis by (cases r) (auto simp: leads_to_def close_file_def)
  next
    case Fault
    with l show ?thesis by (simp add: leads_to_def)
  qed
qed

section \<open>Properties\<close>

lemma start_loop_end:
  "length buffer = PACKET_SIZE \<Longrightarrow> loop_end content (Return (start_sender content buffer now))"
  using start_sender_sending(1) [of buffer content now] start_sender_sending(2) [of content buffer now]
  by (auto simp: loop_end_def)

text \<open>
  The server's receive loop returns exactly when the datagrams it takes and sends form a trace: every
  packet it receives is handled once and in the order of arrival, its answer is sent before the next
  packet is taken, and silence, a last packet and the handshake after a FIN are its only ends.
\<close>

theorem receive_loop_iff_trace:
  assumes "length b = PACKET_SIZE"
  shows "receive_loop w b (t_origin t) (t_name t) (t_size t) read e = Some res \<longleftrightarrow>
         (\<exists>F act b' w'. server_trace t w b read e F act b' w' \<and> after_loop t act b' w' = Some res)"
  using receive_loop_trace [OF _ assms] server_trace_runs by metis

text \<open>
  The client after its request, on a machine with memory and a network that delivers datagrams or
  nothing, ends exactly as one of its traces: it sends its window, takes replies until there is none,
  and starts again, until everything is acknowledged and the FIN is sent, or it gives up. It never
  leaves its memory.
\<close>

theorem send_file_iff_trace:
  assumes "length buffer = PACKET_SIZE" and "malloc_serves WINDOW_SIZE (t_malloc t)" and "orderly w"
  shows "send_file t w (start_sender (t_content t) buffer now) = Some (oc, w') \<longleftrightarrow>
         (\<exists>E. client_trace t True w (start_sender (t_content t) buffer now) E oc w')"
  using send_file_trace [OF _ start_loop_end [OF assms(1)] assms(2,3)] client_trace_runs [of t True] by fastforce

end
