(* ===== verification/Ft_Network.thy ===== *)
theory Ft_Network
  imports Ft_Trace
begin

text \<open>
  The two programs over a network. Two traces that fit over channels which lose and duplicate datagrams
  are a run of the system of \<open>Ft_Transfer\<close>, so that its invariant holds for the functions that model the
  code, and with it what the transfer promises.
\<close>

section \<open>Two traces over a network\<close>

text \<open>
  \<open>woven E F c2s s2c\<close>: the client's trace \<open>E\<close> and the server's trace \<open>F\<close> can be interleaved, starting with the
  datagrams \<open>c2s\<close> and \<open>s2c\<close> on their way: what a process sends is appended to its channel, what it takes is the
  first datagram of the other one, and the channels lose and duplicate datagrams in between.
\<close>

inductive woven :: "event list \<Rightarrow> event list \<Rightarrow> buffer list \<Rightarrow> buffer list \<Rightarrow> bool" where
  both_over: "woven [] [] c2s s2c"
| client_sends: "woven E F (c2s @ ps) s2c \<Longrightarrow> woven (Sends ps # E) F c2s s2c"
| client_takes: "woven E F c2s s2c \<Longrightarrow> woven (Takes p # E) F c2s (p # s2c)"
| server_sends: "woven E F c2s (s2c @ ps) \<Longrightarrow> woven E (Sends ps # F) c2s s2c"
| server_takes: "woven E F c2s s2c \<Longrightarrow> woven E (Takes p # F) (p # c2s) s2c"
| data_lost: "woven E F (xs @ ys) s2c \<Longrightarrow> woven E F (xs @ p # ys) s2c"
| data_doubled: "woven E F (xs @ p # p # ys) s2c \<Longrightarrow> woven E F (xs @ p # ys) s2c"
| reply_lost: "woven E F c2s (xs @ ys) \<Longrightarrow> woven E F c2s (xs @ p # ys)"
| reply_doubled: "woven E F c2s (xs @ p # p # ys) \<Longrightarrow> woven E F c2s (xs @ p # ys)"

text \<open>Where the two processes are in a state of the system, with the events they still have to do.\<close>

definition client_ended :: "system \<Rightarrow> int outcome \<Rightarrow> world \<Rightarrow> bool" where
  "client_ended y oc w' \<longleftrightarrow> y_client y = w' \<and> (case oc of Return _ \<Rightarrow> y_gone y = Some 0 | Exit c \<Rightarrow> y_gone y = Some c | Fault \<Rightarrow> False)"

definition client_at :: "transfer \<Rightarrow> system \<Rightarrow> event list \<Rightarrow> int outcome \<Rightarrow> world \<Rightarrow> bool" where
  "client_at t y E oc w' \<longleftrightarrow>
     y_gone y = None \<and> client_trace t (y_filling y) (y_client y) (y_sender y) E oc w' \<or>
     y_gone y = None \<and> y_filling y \<and> s_written (y_sender y) = t_size t \<and> oc = Return 0 \<and>
       (\<exists>lastACK b. close_trace t lastACK (y_client y) b E w') \<or>
     E = [] \<and> client_ended y oc w'"

definition server_at :: "transfer \<Rightarrow> system \<Rightarrow> event list \<Rightarrow> next_action \<Rightarrow> world \<Rightarrow> bool" where
  "server_at t y F act w' \<longleftrightarrow>
     y_end y = None \<and> (\<exists>b b'. length b = PACKET_SIZE \<and> server_trace t (y_server y) b (y_read y) (y_expected y) F act b' w') \<or>
     F = [] \<and> y_end y = Some act \<and> y_server y = w'"

definition client_kept_all :: "system \<Rightarrow> system \<Rightarrow> bool" where
  "client_kept_all y y' \<longleftrightarrow> y_client y' = y_client y \<and> y_sender y' = y_sender y \<and> y_filling y' = y_filling y \<and> y_gone y' = y_gone y"

definition server_kept_all :: "system \<Rightarrow> system \<Rightarrow> bool" where
  "server_kept_all y y' \<longleftrightarrow> y_server y' = y_server y \<and> y_read y' = y_read y \<and> y_expected y' = y_expected y \<and> y_end y' = y_end y"

lemma client_at_cong: "client_kept_all y y' \<Longrightarrow> client_at t y' E oc w' = client_at t y E oc w'"
  by (cases oc) (simp_all add: client_kept_all_def client_at_def client_ended_def)

lemma server_at_cong: "server_kept_all y y' \<Longrightarrow> server_at t y' F act w' = server_at t y F act w'"
  by (simp add: server_kept_all_def server_at_def)

section \<open>The client's part of the system\<close>

text \<open>A step of the client that leaves the server and the replies alone, and one that takes a reply.\<close>

definition client_moves :: "transfer \<Rightarrow> system \<Rightarrow> buffer list \<Rightarrow> buffer list \<Rightarrow> system \<Rightarrow> bool" where
  "client_moves t y ps ds y' \<longleftrightarrow> steps t y y' \<and> server_kept_all y y' \<and> y_c2s y' = y_c2s y @ ps \<and> y_s2c y = ds @ y_s2c y'"

lemma client_moves_refl [simp]: "client_moves t y [] [] y"
  by (simp add: client_moves_def server_kept_all_def)

lemma client_moves_trans:
  "client_moves t y ps ds y' \<Longrightarrow> client_moves t y' ps' ds' y'' \<Longrightarrow> client_moves t y (ps @ ps') (ds @ ds') y''"
  by (auto simp: client_moves_def server_kept_all_def)

lemma client_moves_step:
  "step t y y' \<Longrightarrow> server_kept_all y y' \<Longrightarrow> y_c2s y' = y_c2s y @ ps \<Longrightarrow> y_s2c y = ds @ y_s2c y' \<Longrightarrow> client_moves t y ps ds y'"
  by (auto simp: client_moves_def)

lemma client_moves_looks: "quiet (y_client y) w \<Longrightarrow> client_moves t y [] [] (y\<lparr>y_client := w\<rparr>)"
  by (rule client_moves_step [OF client_looks]) (simp_all add: server_kept_all_def)

lemma skip_acks_quiet:
  assumes ret: "skip_acks target w r b = Some res"
  shows "quiet w (snd res)"
proof (rule skip_acks.raw_induct [where P = "\<lambda>target w r b res. quiet w (snd res)", OF _ ret])
  fix f target w r b and res :: "buffer \<times> world"
  assume IH: "\<And>target w r b res. f target w r b = Some res \<Longrightarrow> quiet w (snd res)"
    and eq: "(if r > 0 \<and> b ! 0 = CMD_ACK then
        (case read_only_from w b PACKET_SIZE target of (r', b', w') \<Rightarrow> f target w' r' b')
      else Some (b, w)) = Some res"
  obtain r' b' w' where rd: "read_only_from w b PACKET_SIZE target = (r', b', w')" by (metis prod_cases3)
  show "quiet w (snd res)"
  proof (cases "r > 0 \<and> b ! 0 = CMD_ACK")
    case True
    then have "f target w' r' b' = Some res" using eq rd by simp
    with IH read_only_from_frame(1) [OF rd] quiet_trans show ?thesis by blast
  qed (use eq in auto)
qed

text \<open>What a client with the events \<open>E\<close> left can do in the system: end, or its next event.\<close>

definition client_can :: "transfer \<Rightarrow> system \<Rightarrow> event list \<Rightarrow> int outcome \<Rightarrow> world \<Rightarrow> bool" where
  "client_can t y E oc w' \<longleftrightarrow>
     (case E of
        [] \<Rightarrow> \<exists>y'. client_moves t y [] [] y' \<and> client_ended y' oc w'
      | ev # E' \<Rightarrow>
          (case ev of
             Sends ps \<Rightarrow> \<exists>y'. client_moves t y ps [] y' \<and> client_at t y' E' oc w'
           | Takes p \<Rightarrow> (\<forall>rest. y_s2c y = p # rest \<longrightarrow> (\<exists>y'. client_moves t y [] [p] y' \<and> client_at t y' E' oc w'))))"

lemma client_can_after:
  assumes "client_moves t y [] [] y1" and "client_can t y1 E oc w'"
  shows "client_can t y E oc w'"
proof -
  have m: "client_moves t y ps ds y'" if "client_moves t y1 ps ds y'" for ps ds y'
    using client_moves_trans [OF assms(1) that] by simp
  have "y_s2c y1 = y_s2c y" using assms(1) by (simp add: client_moves_def)
  with assms(2) m show ?thesis by (fastforce simp: client_can_def split: list.splits event.splits)
qed

lemma client_moves_ends:
  assumes "y_gone y = None" and "y_filling y" and "s_written (y_sender y) = t_size t"
  shows "client_moves t y [] [] (y\<lparr>y_gone := Some 0\<rparr>)"
  by (rule client_moves_step [OF client_ends [OF assms]]) (simp_all add: server_kept_all_def)

text \<open>The closing handshake: every FIN is a step, the looks at clock and socket are steps, and then the client ends.\<close>

lemma fin_moves:
  assumes run: "y_gone y = None" "y_filling y" "s_written (y_sender y) = t_size t"
    and t: "time_now (y_client y) = (now, w1)" and sp: "send_packet w1 (t_target t) (control CMD_FIN 0) = (r, w2)"
    and rd: "read_only_from w2 b PACKET_SIZE (t_target t) = (n, b1, w3)"
    and sk: "skip_acks (t_target t) w3 n b1 = Some (b2, w4)"
  obtains y' where "client_moves t y (newly_sent w1 w2) [] y'" "y_client y' = w4" "y_gone y' = None" "y_filling y'"
    "y_sender y' = y_sender y"
proof -
  let ?y1 = "y\<lparr>y_client := w1\<rparr>" and ?y2 = "y\<lparr>y_client := w2, y_c2s := y_c2s y @ newly_sent w1 w2\<rparr>"
  let ?y3 = "?y2\<lparr>y_client := w4\<rparr>"
  have m1: "client_moves t y [] [] ?y1" by (rule client_moves_looks [OF quiet_time [OF t]])
  have "step t ?y1 (?y1\<lparr>y_client := w2, y_c2s := y_c2s ?y1 @ newly_sent (y_client ?y1) w2\<rparr>)"
    by (rule client_fin [where r = r]) (use run sp in simp_all)
  then have m2: "client_moves t ?y1 (newly_sent w1 w2) [] ?y2"
    by (intro client_moves_step) (simp_all add: server_kept_all_def)
  have "quiet w2 w4" using read_only_from_frame(1) [OF rd] skip_acks_quiet [OF sk] quiet_trans by fastforce
  then have m3: "client_moves t ?y2 [] [] ?y3" by (intro client_moves_looks) simp
  from client_moves_trans [OF client_moves_trans [OF m1 m2] m3] run show thesis by (intro that [of ?y3]) simp_all
qed

lemma close_trace_can:
  assumes "close_trace t lastACK (y_client y) b E w'" and run: "y_gone y = None" "y_filling y" "s_written (y_sender y) = t_size t"
  shows "client_can t y E (Return 0) w'"
  using assms(1)
proof cases
  case (over now)
  let ?y1 = "y\<lparr>y_client := w'\<rparr>"
  have "client_moves t y [] [] ?y1" by (rule client_moves_looks [OF quiet_time [OF over(2)]])
  moreover have "client_moves t ?y1 [] [] (?y1\<lparr>y_gone := Some 0\<rparr>)" using run by (intro client_moves_ends) simp_all
  ultimately have "client_moves t y [] [] (?y1\<lparr>y_gone := Some 0\<rparr>)" using client_moves_trans by fastforce
  with over(1) show ?thesis by (auto simp: client_can_def client_ended_def)
next
  case (finack now w1 r w2 n b1 w3 b2)
  obtain y' where y': "client_moves t y (newly_sent w1 w2) [] y'" "y_client y' = w'" "y_gone y' = None" "y_filling y'"
    "y_sender y' = y_sender y" using fin_moves [OF run finack(2,4,5,6)] by blast
  have "client_moves t y' [] [] (y'\<lparr>y_gone := Some 0\<rparr>)" using y' run(3) by (intro client_moves_ends) simp_all
  with y'(1) have "client_moves t y (newly_sent w1 w2) [] (y'\<lparr>y_gone := Some 0\<rparr>)" using client_moves_trans by fastforce
  with finack(1) y'(2) show ?thesis by (auto simp: client_can_def client_at_def client_ended_def)
next
  case (fin_again now w1 r w2 n b1 w3 b2 w4 E2)
  obtain y' where y': "client_moves t y (newly_sent w1 w2) [] y'" "y_client y' = w4" "y_gone y' = None" "y_filling y'"
    "y_sender y' = y_sender y" using fin_moves [OF run fin_again(2,4,5,6)] by blast
  with run(3) fin_again(8) have "client_at t y' E2 (Return 0) w'" by (auto simp: client_at_def)
  with y'(1) fin_again(1) show ?thesis by (auto simp: client_can_def)
qed

lemma client_can_send: "client_moves t y ps [] y' \<Longrightarrow> client_at t y' E oc w' \<Longrightarrow> client_can t y (Sends ps # E) oc w'"
  by (auto simp: client_can_def)

lemma client_at_gone: "y_client y = w' \<Longrightarrow> y_gone y = Some c \<Longrightarrow> client_at t y [] (Exit c) w'"
  by (simp add: client_at_def client_ended_def)

lemma window_moves:
  assumes "y_gone y = None" and "y_filling y" and "s_written (y_sender y) \<noteq> t_size t"
    and "fill_window (t_malloc t) (t_size t) (y_sender y) = Some (Return s1)"
    and "send_all (y_client y) (t_target t) (s_heap s1) (s_packets s1) = Some (Return 0, w1)" and "quiet w1 w2"
  obtains y' where "client_moves t y (newly_sent (y_client y) w1) [] y'" "y_client y' = w2" "y_gone y' = None"
    "\<not> y_filling y'" "y_sender y' = s1"
proof -
  note s = client_round [OF assms(1-5)]
  let ?y1 = "y\<lparr>y_client := w1, y_sender := s1, y_filling := False, y_c2s := y_c2s y @ newly_sent (y_client y) w1\<rparr>"
  have "client_moves t y (newly_sent (y_client y) w1) [] ?y1" by (rule client_moves_step [OF s]) (simp_all add: server_kept_all_def)
  moreover have "client_moves t ?y1 [] [] (?y1\<lparr>y_client := w2\<rparr>)" using assms(6) by (intro client_moves_looks) simp
  ultimately have "client_moves t y (newly_sent (y_client y) w1) [] (?y1\<lparr>y_client := w2\<rparr>)" using client_moves_trans by fastforce
  with assms(1) show thesis by (intro that [of "?y1\<lparr>y_client := w2\<rparr>"]) simp_all
qed

lemma client_moves_timeout:
  "y_gone y = None \<Longrightarrow> \<not> y_filling y \<Longrightarrow> client_moves t y [] [] (y\<lparr>y_gone := Some CLIENT_TIMEOUT\<rparr>)"
  by (rule client_moves_step [OF client_timeout]) (simp_all add: server_kept_all_def)

text \<open>A reply is taken after the look at the socket that brought it.\<close>

lemma reply_moves:
  assumes run: "y_gone y = None" "\<not> y_filling y" and rd: "quiet (y_client y) w1" and "y_s2c y = p # rest"
    and junk: "length junk = PACKET_SIZE"
    and h: "handle_reply (t_size t) w1 ((y_sender y)\<lparr>s_read := int (length p), s_buffer := put_at junk 0 p\<rparr>) = Some (act, w2)"
  shows "case act of
      Next_reply s2 \<Rightarrow> \<exists>y'. client_moves t y [] [p] y' \<and> y_client y' = w2 \<and> y_sender y' = s2 \<and> y_gone y' = None \<and> \<not> y_filling y'
    | Leave_loop s2 \<Rightarrow> \<exists>y'. client_moves t y [] [p] y' \<and> y_client y' = w2 \<and> y_sender y' = s2 \<and> y_gone y' = None \<and> y_filling y'
    | Quit oc \<Rightarrow> \<forall>c. oc = Exit c \<longrightarrow> (\<exists>y'. client_moves t y [] [p] y' \<and> y_client y' = w2 \<and> y_gone y' = Some c)"
proof -
  let ?y1 = "y\<lparr>y_client := w1\<rparr>"
  have m: "client_moves t y [] [] ?y1" by (rule client_moves_looks [OF rd])
  have "client_moves t y [] [p] y'" if "step t ?y1 y'" "server_kept_all ?y1 y'" "y_c2s y' = y_c2s y" "y_s2c y' = rest" for y'
    using client_moves_trans [OF m client_moves_step [OF that(1,2), of "[]" "[p]"]] that(3,4) assms(4) by simp
  note mv = this
  have hy: "handle_reply (t_size t) (y_client ?y1) ((y_sender ?y1)\<lparr>s_read := int (length p), s_buffer := put_at junk 0 p\<rparr>) =
      Some (act, w2)" "y_gone ?y1 = None" "\<not> y_filling ?y1" "y_s2c ?y1 = p # rest" using h run assms(4) by simp_all
  show ?thesis
  proof (cases act)
    case (Next_reply s2)
    note st = client_reply [OF hy(2,3,4) junk hy(1) [unfolded Next_reply]]
    from mv [OF st] run Next_reply show ?thesis
      by (auto simp: server_kept_all_def intro!: exI [of _ "?y1\<lparr>y_client := w2, y_sender := s2, y_s2c := rest\<rparr>"])
  next
    case (Leave_loop s2)
    note st = client_leaves_loop [OF hy(2,3,4) junk hy(1) [unfolded Leave_loop]]
    from mv [OF st] run Leave_loop show ?thesis
      by (auto simp: server_kept_all_def intro!: exI [of _ "?y1\<lparr>y_client := w2, y_sender := s2, y_filling := True, y_s2c := rest\<rparr>"])
  next
    case (Quit oc)
    have "\<exists>y'. client_moves t y [] [p] y' \<and> y_client y' = w2 \<and> y_gone y' = Some c" if "oc = Exit c" for c
      using mv [OF client_quits [OF hy(2,3,4) junk hy(1) [unfolded Quit that]]]
      by (auto simp: server_kept_all_def intro!: exI [of _ "?y1\<lparr>y_client := w2, y_gone := Some c, y_s2c := rest\<rparr>"])
    with Quit show ?thesis by simp
  qed
qed

lemma client_at_traced:
  "client_trace t f w s E oc w' \<Longrightarrow> y_filling y = f \<Longrightarrow> y_client y = w \<Longrightarrow> y_sender y = s \<Longrightarrow> y_gone y = None \<Longrightarrow>
   client_at t y E oc w'"
  by (simp add: client_at_def)

lemma client_trace_can:
  "client_trace t f w s E oc w' \<Longrightarrow> y_filling y = f \<Longrightarrow> y_client y = w \<Longrightarrow> y_sender y = s \<Longrightarrow> y_gone y = None \<Longrightarrow>
   client_can t y E oc w'"
proof (induction arbitrary: y rule: client_trace.induct)
  case (closes s w now w1 E w')
  have "client_moves t y [] [] (y\<lparr>y_client := w1\<rparr>)"
    using quiet_time [OF closes(2)] closes.prems by (intro client_moves_looks) simp
  moreover have "client_can t (y\<lparr>y_client := w1\<rparr>) E (Return 0) w'"
    using closes by (intro close_trace_can [of t now _ "s_buffer s"]) simp_all
  ultimately show ?case by (rule client_can_after)
next
  case (send_fails s s1 w w1)
  have "client_moves t y (newly_sent w w1) [] (y\<lparr>y_client := w1, y_sender := s1, y_filling := False,
      y_c2s := y_c2s y @ newly_sent (y_client y) w1, y_gone := Some CLIENT_RUNTIME_ERROR\<rparr>)"
    by (rule client_moves_step [OF client_send_fails]) (use send_fails in \<open>simp_all add: server_kept_all_def\<close>)
  then show ?case by (rule client_can_send) (simp add: client_at_gone)
next
  case (gives_up s s1 w w1 now w2)
  obtain y' where y': "client_moves t y (newly_sent w w1) [] y'" "y_client y' = w2" "y_gone y' = None" "\<not> y_filling y'"
    using window_moves [of y t s1 w1 w2] gives_up quiet_time [OF gives_up(4)] by auto
  have "client_moves t y (newly_sent w w1) [] (y'\<lparr>y_gone := Some CLIENT_TIMEOUT\<rparr>)"
    using client_moves_trans [OF y'(1) client_moves_timeout [OF y'(3,4)]] by simp
  then show ?case by (rule client_can_send) (simp add: client_at_gone y'(2))
next
  case (window s s1 w w1 now w2 E oc w')
  obtain y' where y': "client_moves t y (newly_sent w w1) [] y'" "y_client y' = w2" "y_gone y' = None" "\<not> y_filling y'"
    "y_sender y' = s1" using window_moves [of y t s1 w1 w2] window.hyps window.prems quiet_time [OF window(4)] by auto
  with window.hyps(6) show ?case by (intro client_can_send [OF y'(1)] client_at_traced) simp_all
next
  case (no_reply w s b w1 E oc w')
  let ?y1 = "y\<lparr>y_client := w1\<rparr>"
  let ?y2 = "?y1\<lparr>y_sender := (y_sender ?y1)\<lparr>s_read := -1, s_buffer := b\<rparr>, y_filling := True\<rparr>"
  have "client_moves t y [] [] ?y1" using read_only_from_frame(1) [OF no_reply(1)] no_reply.prems by (intro client_moves_looks) simp
  moreover have "client_moves t ?y1 [] [] ?y2"
    by (rule client_moves_step [OF client_idle [OF _ _ no_reply(2)]]) (use no_reply.prems in \<open>simp_all add: server_kept_all_def\<close>)
  ultimately have "client_moves t y [] [] ?y2" using client_moves_trans by fastforce
  moreover have "client_can t ?y2 E oc w'" using no_reply.prems by (intro no_reply.IH) simp_all
  ultimately show ?case by (rule client_can_after)
next
  case (next_reply w s p junk w1 s2 w2 E oc w')
  have q: "quiet (y_client y) w1" using read_only_from_frame(1) [OF next_reply(1)] next_reply.prems by simp
  show ?case using reply_moves [OF next_reply.prems(4) _ q _ next_reply(2), of p _ t "Next_reply s2" w2] next_reply
    by (fastforce simp: client_can_def intro: client_at_traced)
next
  case (last_reply w s p junk w1 s2 w2 E oc w')
  have q: "quiet (y_client y) w1" using read_only_from_frame(1) [OF last_reply(1)] last_reply.prems by simp
  show ?case using reply_moves [OF last_reply.prems(4) _ q _ last_reply(2), of p _ t "Leave_loop s2" w2] last_reply
    by (fastforce simp: client_can_def intro: client_at_traced)
next
  case (rejected w s p junk w1 c w2)
  have q: "quiet (y_client y) w1" using read_only_from_frame(1) [OF rejected(1)] rejected.prems by simp
  show ?case using reply_moves [OF rejected.prems(4) _ q _ rejected(2), of p _ t "Quit (Exit c)" w2] rejected
    by (fastforce simp: client_can_def intro: client_at_gone)
qed

lemma client_at_can:
  assumes "client_at t y E oc w'"
  shows "client_can t y E oc w'"
  using assms unfolding client_at_def
proof (elim disjE conjE exE)
  assume "E = []" "client_ended y oc w'"
  then show ?thesis by (auto simp: client_can_def intro: exI [of _ y])
next
  show "y_gone y = None \<Longrightarrow> client_trace t (y_filling y) (y_client y) (y_sender y) E oc w' \<Longrightarrow> client_can t y E oc w'"
    by (rule client_trace_can) simp_all
qed (simp add: close_trace_can)

section \<open>The server's part of the system\<close>

definition server_moves :: "transfer \<Rightarrow> system \<Rightarrow> buffer list \<Rightarrow> buffer list \<Rightarrow> system \<Rightarrow> bool" where
  "server_moves t y ps ds y' \<longleftrightarrow> steps t y y' \<and> client_kept_all y y' \<and> y_s2c y' = y_s2c y @ ps \<and> y_c2s y = ds @ y_c2s y'"

lemma server_moves_step:
  assumes "quiet (y_server y) w1" and "step t (y\<lparr>y_server := w1\<rparr>) y'" and "client_kept_all y y'"
    and "y_s2c y' = y_s2c y @ ps" and "y_c2s y = ds @ y_c2s y'"
  shows "server_moves t y ps ds y'"
proof -
  have "steps t y y'" using server_looks [OF assms(1), of t] assms(2) by (meson converse_rtranclp_into_rtranclp r_into_rtranclp)
  with assms(3-5) show ?thesis by (simp add: server_moves_def)
qed

text \<open>A server with the events \<open>F\<close> left: it ends, or takes a packet and has sent its answer.\<close>

lemma server_trace_timeout:
  assumes "server_trace t (y_server y) b (y_read y) (y_expected y) [] act b' w'" and "length b = PACKET_SIZE" and "y_end y = None"
  shows "\<exists>y'. server_moves t y [] [] y' \<and> y_end y' = Some act \<and> y_server y' = w'"
  using assms(1)
proof cases
  case (silence w1)
  have q: "quiet (y_server y) w1" using read_until_timeout_cases [OF silence(3) assms(2)] by auto
  let ?y1 = "y\<lparr>y_server := w1\<rparr>"
  let ?y2 = "?y1\<lparr>y_server := unlink_file (y_server ?y1) (t_name t), y_end := Some (Stop (Exit TIMEOUT))\<rparr>"
  have "step t ?y1 ?y2" using assms(3) by (intro server_timeout) simp
  then have "server_moves t y [] [] ?y2" by (rule server_moves_step [OF q]) (simp_all add: client_kept_all_def)
  with silence show ?thesis by (intro exI [of _ ?y2]) simp
qed

lemma server_trace_takes:
  assumes "server_trace t (y_server y) b (y_read y) (y_expected y) (Takes p # F) act b' w'" and "length b = PACKET_SIZE"
    and run: "y_end y = None" and c2s: "y_c2s y = p # rest"
  shows "\<exists>ps F2 y'. F = Sends ps # F2 \<and> server_moves t y ps [p] y' \<and> server_at t y' F2 act w'"
  using assms(1)
proof cases
  case (packet junk w1 r' e' w2 F2)
  have q: "quiet (y_server y) w1" using read_until_timeout_cases [OF packet(2) assms(2)] by auto
  let ?y1 = "y\<lparr>y_server := w1\<rparr>"
  let ?y2 = "?y1\<lparr>y_server := w2, y_read := r', y_expected := e', y_c2s := rest, y_s2c := y_s2c ?y1 @ newly_sent (y_server ?y1) w2\<rparr>"
  have "step t ?y1 ?y2" using run c2s packet(5) by (intro server_again [OF _ _ packet(3)]) simp_all
  then have "server_moves t y (newly_sent w1 w2) [p] ?y2"
    by (rule server_moves_step [OF q]) (simp_all add: client_kept_all_def c2s)
  moreover have "length (put_at junk 0 p) = PACKET_SIZE" using packet(3,4) by simp
  then have "server_at t ?y2 F2 act w'" unfolding server_at_def using packet(6) run by auto
  ultimately show ?thesis using packet(1) by blast
next
  case (last_packet junk w1)
  have q: "quiet (y_server y) w1" using read_until_timeout_cases [OF last_packet(3) assms(2)] by auto
  let ?y1 = "y\<lparr>y_server := w1\<rparr>"
  let ?y2 = "?y1\<lparr>y_server := w', y_end := Some act, y_c2s := rest, y_s2c := y_s2c ?y1 @ newly_sent (y_server ?y1) w'\<rparr>"
  have "step t ?y1 ?y2" using run c2s last_packet by (intro server_end [OF _ _ last_packet(4)]) simp_all
  then have "server_moves t y (newly_sent w1 w') [p] ?y2"
    by (rule server_moves_step [OF q]) (simp_all add: client_kept_all_def c2s)
  moreover have "server_at t ?y2 [] act w'" by (simp add: server_at_def)
  ultimately show ?thesis using last_packet(1) by blast
qed

lemma server_ends:
  assumes "server_at t y [] act w'"
  shows "\<exists>y'. server_moves t y [] [] y' \<and> y_end y' = Some act \<and> y_server y' = w'"
proof (cases "y_end y = None")
  case True
  with assms server_trace_timeout show ?thesis by (auto simp: server_at_def)
next
  case False
  with assms show ?thesis by (auto simp: server_at_def server_moves_def client_kept_all_def intro!: exI [of _ y])
qed

lemma server_takes_packet:
  "server_at t y (Takes p # F) act w' \<Longrightarrow> y_c2s y = p # rest \<Longrightarrow>
   \<exists>ps F2 y'. F = Sends ps # F2 \<and> server_moves t y ps [p] y' \<and> server_at t y' F2 act w'"
  using server_trace_takes by (fastforce simp: server_at_def)

lemma server_at_first: "\<not> server_at t y (Sends ps # F) act w'"
  by (auto simp: server_at_def elim: server_trace.cases)

section \<open>Woven traces are runs of the system\<close>

text \<open>The server may have taken a packet without having sent its answer yet; the system already has sent it.\<close>

definition server_owes :: "transfer \<Rightarrow> system \<Rightarrow> buffer list \<Rightarrow> event list \<Rightarrow> next_action \<Rightarrow> world \<Rightarrow> bool" where
  "server_owes t y ps F act w' \<longleftrightarrow> ps = [] \<and> server_at t y F act w' \<or> (\<exists>F2. F = Sends ps # F2 \<and> server_at t y F2 act w')"

lemma server_owes_cong: "server_kept_all y y' \<Longrightarrow> server_owes t y' ps F act w' = server_owes t y ps F act w'"
  by (simp add: server_owes_def server_at_cong)

lemmas kept_defs = client_kept_all_def server_kept_all_def

text \<open>A step of the network, seen by neither process.\<close>

lemma network_step:
  assumes "step t y y1" and "client_kept_all y y1 \<and> server_kept_all y y1" and "client_at t y E oc wc" and "server_owes t y ps F act ws"
    and "client_at t y1 E oc wc \<Longrightarrow> server_owes t y1 ps F act ws \<Longrightarrow> y_c2s y1 = c2s \<Longrightarrow> y_s2c y1 = s2c @ ps \<Longrightarrow>
      \<exists>y'. steps t y1 y' \<and> client_ended y' oc wc \<and> y_end y' = Some act \<and> y_server y' = ws"
    and "y_c2s y1 = c2s" and "y_s2c y1 = s2c @ ps"
  shows "\<exists>y'. steps t y y' \<and> client_ended y' oc wc \<and> y_end y' = Some act \<and> y_server y' = ws"
proof -
  have "client_at t y1 E oc wc" "server_owes t y1 ps F act ws" using assms(2-4) client_at_cong server_owes_cong by blast+
  with assms(1,5-7) show ?thesis by (meson converse_rtranclp_into_rtranclp)
qed

lemma woven_steps:
  "woven E F c2s s2c \<Longrightarrow> client_at t y E oc wc \<Longrightarrow> server_owes t y ps F act ws \<Longrightarrow> y_c2s y = c2s \<Longrightarrow> y_s2c y = s2c @ ps \<Longrightarrow>
   \<exists>y'. steps t y y' \<and> client_ended y' oc wc \<and> y_end y' = Some act \<and> y_server y' = ws"
proof (induction arbitrary: y ps rule: woven.induct)
  case (both_over c2s s2c)
  then have "server_at t y [] act ws" by (simp add: server_owes_def)
  then obtain y1 where y1: "steps t y y1" "client_kept_all y y1" "y_end y1 = Some act" "y_server y1 = ws"
    using server_ends by (fastforce simp: server_moves_def)
  have "client_at t y1 [] oc wc" using both_over(1) client_at_cong [OF y1(2)] by blast
  then obtain y2 where "client_moves t y1 [] [] y2" "client_ended y2 oc wc" using client_at_can by (fastforce simp: client_can_def)
  with y1 show ?case by (intro exI [of _ y2]) (auto simp: client_moves_def server_kept_all_def)
next
  case (client_sends E F c2s qs s2c)
  obtain y1 where y1: "client_moves t y qs [] y1" "client_at t y1 E oc wc"
    using client_at_can [OF client_sends.prems(1)] by (auto simp: client_can_def)
  then have "server_owes t y1 ps F act ws" "y_c2s y1 = c2s @ qs" "y_s2c y1 = s2c @ ps"
    using client_sends.prems(2-4) server_owes_cong by (auto simp: client_moves_def)
  with client_sends.IH [OF y1(2)] y1(1) show ?case by (meson client_moves_def rtranclp_trans)
next
  case (client_takes E F c2s s2c p)
  obtain y1 where y1: "client_moves t y [] [p] y1" "client_at t y1 E oc wc"
    using client_at_can [OF client_takes.prems(1)] client_takes.prems(4) by (auto simp: client_can_def)
  then have "server_owes t y1 ps F act ws" "y_c2s y1 = c2s" "y_s2c y1 = s2c @ ps"
    using client_takes.prems(2-4) server_owes_cong by (auto simp: client_moves_def)
  with client_takes.IH [OF y1(2)] y1(1) show ?case by (meson client_moves_def rtranclp_trans)
next
  case (server_sends E F c2s s2c qs)
  then have "ps = qs" "server_owes t y [] F act ws" using server_at_first by (auto simp: server_owes_def)
  with server_sends show ?case by auto
next
  case (server_takes E F c2s s2c p)
  then have "ps = []" "server_at t y (Takes p # F) act ws" by (auto simp: server_owes_def)
  then obtain qs F2 y1 where y1: "F = Sends qs # F2" "server_moves t y qs [p] y1" "server_at t y1 F2 act ws"
    using server_takes_packet server_takes.prems(3) by blast
  then have "client_at t y1 E oc wc" "server_owes t y1 qs F act ws" "y_c2s y1 = c2s" "y_s2c y1 = s2c @ qs"
    using server_takes.prems client_at_cong \<open>ps = []\<close> by (auto simp: server_moves_def server_owes_def)
  with server_takes.IH [of y1 qs] obtain y' where "steps t y1 y'" "client_ended y' oc wc" "y_end y' = Some act" "y_server y' = ws"
    by blast
  moreover have "steps t y y1" using y1(2) by (simp add: server_moves_def)
  ultimately show ?case using rtranclp_trans [of "step t" y y1 y'] by blast
next
  case (data_lost E F xs ys s2c p)
  show ?case by (rule network_step [OF lose_data [OF data_lost.prems(3)] _ data_lost.prems(1,2) data_lost.IH])
      (simp_all add: kept_defs data_lost.prems)
next
  case (data_doubled E F xs p ys s2c)
  show ?case by (rule network_step [OF duplicate_data [OF data_doubled.prems(3)] _ data_doubled.prems(1,2) data_doubled.IH])
      (simp_all add: kept_defs data_doubled.prems)
next
  case (reply_lost E F c2s xs ys p)
  then have "y_s2c y = xs @ p # (ys @ ps)" by simp
  from lose_reply [OF this] show ?case by (rule network_step [OF _ _ reply_lost.prems(1,2) reply_lost.IH])
      (simp_all add: kept_defs reply_lost.prems)
next
  case (reply_doubled E F c2s xs p ys)
  then have "y_s2c y = xs @ p # (ys @ ps)" by simp
  from duplicate_reply [OF this] show ?case by (rule network_step [OF _ _ reply_doubled.prems(1,2) reply_doubled.IH])
      (simp_all add: kept_defs reply_doubled.prems)
qed

section \<open>Properties\<close>

text \<open>
  C1: the two programs over a network that loses and duplicates datagrams, in any interleaving: a client
  that has been accepted and sends its file, and a server that has created it. When both have ended, they
  ended as their code returns, and the server has the client's file and accepted its FIN, or it timed out
  and removed the file; nothing else can happen.
\<close>

theorem programs_over_network:
  assumes "malloc_serves WINDOW_SIZE (t_malloc t)"
    and "length buffer = PACKET_SIZE" and "length b = PACKET_SIZE"
    and "files ws (t_name t) = Some []" and "\<forall>k. PAYLOAD_SIZE \<le> w_fwrite ws k"
    and "client_trace t True wc (start_sender (t_content t) buffer now) E oc wc'"
    and "server_trace t ws b 0 1 F act b' ws'"
    and "woven E F [] (replicate k (control CMD_ACK 1))"
  shows "send_file t wc (start_sender (t_content t) buffer now) = Some (oc, wc') \<and>
         receive_loop ws b (t_origin t) (t_name t) (t_size t) 0 1 = after_loop t act b' ws' \<and>
         (act = Fin_received \<and> files ws' (t_name t) = Some (t_content t) \<or>
          act = Stop (Exit TIMEOUT) \<and> files ws' (t_name t) = None)"
proof -
  define y where "y = \<lparr>y_client = wc, y_sender = start_sender (t_content t) buffer now, y_filling = True, y_gone = None,
    y_server = ws, y_read = 0, y_expected = 1, y_end = None, y_c2s = [], y_s2c = replicate k (control CMD_ACK 1)\<rparr>"
  have "start_system t y" using assms(2,4,5) by (auto simp: start_system_def y_def)
  then have reach: "reachable t y" by (rule reachable.start)
  have "client_at t y E oc wc'" using assms(6) by (simp add: client_at_def y_def)
  moreover have "server_owes t y [] F act ws'" using assms(3,7) by (auto simp: server_owes_def server_at_def y_def)
  ultimately obtain y' where y': "steps t y y'" "y_end y' = Some act" "y_server y' = ws'"
    using woven_steps [OF assms(8)] by (fastforce simp: y_def)
  obtain base E' N ms as where inv: "transfer_inv t y' base E' N ms as"
    using reachable_inv [OF reachable_steps [OF y'(1) reach] assms(1)] by blast
  then consider "act = Fin_received" "s_written (y_sender y') = t_size t"
    | "act = Stop (Exit TIMEOUT)" "files ws' (t_name t) = None"
    using y'(2,3) by (auto simp: transfer_inv_def server_inv_def)
  then have "act = Fin_received \<and> files ws' (t_name t) = Some (t_content t) \<or>
      act = Stop (Exit TIMEOUT) \<and> files ws' (t_name t) = None"
    using transfer_inv_done [OF inv] y'(2,3) by cases auto
  with client_trace_runs [OF assms(6)] server_trace_runs [OF assms(7)] show ?thesis by simp
qed

section \<open>Example\<close>

text \<open>A file of one packet: the client sends a window, of which one packet arrives, is acknowledged, and closes.\<close>

lemma fin_trace:
  assumes "prompt w" and "arrives w (Rx_dgram src (control CMD_FINACK 0) # rest)" and "length (s_buffer s) = PACKET_SIZE"
    and "s_written s = t_size t"
  shows "\<exists>w'. client_trace t True w s [Sends [control CMD_FIN 0]] (Return 0) w'"
proof -
  let ?w = "w\<lparr>n_time := Suc (n_time w)\<rparr>"
  have sa: "same_answers w ?w" by (simp add: same_answers_def)
  have t: "time_now w = (w_time w (n_time w), ?w)" "time_now ?w = (w_time ?w (n_time ?w), ?w\<lparr>n_time := Suc (n_time ?w)\<rparr>)"
    by (simp_all add: time_now_def)
  obtain w2 n b w3 where r: "w_time ?w (n_time ?w) - w_time w (n_time w) < ACK_TIMEOUT"
    "send_packet (?w\<lparr>n_time := Suc (n_time ?w)\<rparr>) (t_target t) (control CMD_FIN 0) = (0, w2)"
    and new: "newly_sent (?w\<lparr>n_time := Suc (n_time ?w)\<rparr>) w2 = [control CMD_FIN 0]"
    and rd: "read_only_from w2 (s_buffer s) PACKET_SIZE (t_target t) = (n, b, w3)" "skip_acks (t_target t) w3 n b = Some (b, w3)"
      "b ! 0 = CMD_FINACK"
  proof (rule finack_round [OF prompt_same_answers [OF assms(1) sa] arrives_same [OF assms(2) sa] assms(3)])
    show "n_time ?w = Suc (n_time w)" "w_time w (n_time w) = w_time ?w (n_time w)" by simp_all
  qed simp_all
  from closes [OF assms(4) t(1) finack [OF t(2) r rd]] new show ?thesis by auto
qed

lemma one_packet_client:
  assumes w: "prompt w" and rx: "arrives w [Rx_dgram src (control CMD_ACK (seq16 2)), Rx_error EAGAIN, Rx_dgram src (control CMD_FINACK 0)]"
    and fresh: "n_time w = Suc k" "now = w_time w k" and mal: "malloc_serves WINDOW_SIZE (t_malloc t)"
    and c: "t_content t \<noteq> []" "length (t_content t) \<le> PAYLOAD_SIZE" and buf: "length buffer = PACKET_SIZE"
  shows "\<exists>w'. client_trace t True w (start_sender (t_content t) buffer now)
    [Sends (packets_between (t_content t) 0 WINDOW_SIZE), Takes (control CMD_ACK (seq16 2)), Sends [control CMD_FIN 0]] (Return 0) w'"
proof -
  let ?s = "start_sender (t_content t) buffer now" and ?ds = "packets_between (t_content t) 0 WINDOW_SIZE"
  let ?p = "control CMD_ACK (seq16 2)"
  have fs: "t_size t = int (length (t_content t))" by (simp add: t_size_def)
  have less: "s_written ?s < int (length (t_content t))" "s_written ?s \<noteq> t_size t" using c(1) fs by (simp_all add: start_sender_def)
  obtain s1 where s1: "fill_window (t_malloc t) (t_size t) ?s = Some (Return s1)" "sending (t_content t) s1 0 WINDOW_SIZE"
    "s_lastACK s1 = now"
    using fill_window_sending [OF start_sender_sending(1) [OF buf] start_sender_sending(2) mal less(1)] unfolding fs
    by (auto simp: start_sender_def)
  have ok: "\<forall>k. w_send w k = Tx_ok" using w by (simp add: prompt_def works_def)
  define w1 where "w1 = w\<lparr>n_send := n_send w + length ?ds, sent := sent w @ map (Pair (t_target t)) ?ds\<rparr>"
  let ?w2 = "w1\<lparr>n_time := Suc (n_time w)\<rparr>"
  have send: "send_all w (t_target t) (s_heap s1) (s_packets s1) = Some (Return 0, w1)"
    using sending_send_all [OF s1(2) ok] by (simp add: w1_def)
  have new: "newly_sent w w1 = ?ds" by (simp add: newly_sent_def w1_def comp_def)
  have time: "time_now w1 = (w_time w (n_time w), ?w2)" by (simp add: time_now_def w1_def)
  have "w_time w (n_time w) - now \<le> 1" using w fresh by (simp add: prompt_def)
  then have early: "\<not> w_time w (n_time w) - s_lastACK s1 > ACK_TIMEOUT" using s1(3) by simp
  have sa: "same_answers w ?w2" "n_recv ?w2 = n_recv w" by (simp_all add: same_answers_def w1_def)
  have rx2: "arrives ?w2 [Rx_dgram src ?p, Rx_error EAGAIN, Rx_dgram src (control CMD_FINACK 0)]" by (rule arrives_same [OF rx sa])
  have len: "length (s_buffer s1) = PACKET_SIZE" using s1(2) by (simp add: sending_def)
  have small: "length ?p \<le> PACKET_SIZE" by simp
  obtain junk where rd: "length junk = PACKET_SIZE" "read_only_from ?w2 (s_buffer s1) PACKET_SIZE (t_target t) =
      (int (length ?p), put_at junk 0 ?p, ?w2\<lparr>n_temp := Suc (n_temp ?w2), n_recv := Suc (n_recv ?w2)\<rparr>)" (is "_ = (_, _, ?w3)")
    using prompt_same_answers [OF w sa(1)] arrives_Cons(1) [OF rx2] len small by (rule read_datagram)
  obtain s2 w4 where h: "handle_reply (t_size t) ?w3 (s1\<lparr>s_read := int (length ?p), s_buffer := put_at junk 0 ?p\<rparr>) =
      Some (Next_reply s2, w4)" "sending (t_content t) s2 (2 - 1) WINDOW_SIZE" "quiet ?w3 w4" "n_recv w4 = n_recv ?w3"
  proof (rule handle_ack [OF s1(2) _ _ rd(1)])
    show "0 < (2 :: nat)" "2 \<le> Suc WINDOW_SIZE" by simp_all
  qed blast
  have sa4: "same_answers ?w2 w4" "n_recv w4 = Suc (n_recv ?w2)" using h(3,4) by (simp_all add: quiet_def same_answers_def)
  have w4: "prompt w4" by (rule prompt_same_answers [OF prompt_same_answers [OF w sa(1)] sa4(1)])
  have rx4: "arrives w4 [Rx_error EAGAIN, Rx_dgram src (control CMD_FINACK 0)]" by (rule arrives_Cons(2) [OF rx2 sa4])
  have len4: "length (s_buffer s2) = PACKET_SIZE" using h(2) by (simp add: sending_def)
  obtain b w5 where n: "read_only_from w4 (s_buffer s2) PACKET_SIZE (t_target t) = (-1, b, w5)" "errno w5 = EAGAIN"
    "length b = PACKET_SIZE" "quiet w4 w5" "n_recv w5 = Suc (n_recv w4)"
    using read_nothing [OF w4 arrives_Cons(1) [OF rx4] len4] by metis
  have sa5: "same_answers w4 w5" using n(4) by (simp add: quiet_def)
  have "s_written s2 = t_size t" using h(2) c(2) fs by (simp add: sending_def)
  then obtain w' where "client_trace t True w5 (s2\<lparr>s_read := -1, s_buffer := b\<rparr>) [Sends [control CMD_FIN 0]] (Return 0) w'"
    using fin_trace [OF prompt_same_answers [OF w4 sa5] arrives_Cons(2) [OF rx4 sa5 n(5)], of "s2\<lparr>s_read := -1, s_buffer := b\<rparr>" t] n(3)
    by auto
  from window [OF less(2) s1(1) send time early next_reply [OF rd(2,1) small h(1) no_reply [OF n(1,3,2) this]]] new
  show ?thesis by auto
qed

lemma one_packet_server:
  assumes w: "works w" and rx: "incoming w [file_packet (t_content t) 1, control CMD_FIN 0]" and "files w (t_name t) = Some []"
    and c: "length (t_content t) \<le> PAYLOAD_SIZE" and b: "length b = PACKET_SIZE"
  shows "\<exists>b' w'. server_trace t w b 0 1
    [Takes (file_packet (t_content t) 1), Sends [control CMD_ACK (seq16 2)], Takes (control CMD_FIN 0), Sends []] Fin_received b' w'"
proof -
  let ?c = "t_content t"
  let ?p = "file_packet ?c (Suc 0)" and ?fin = "control CMD_FIN 0"
  have fs: "t_size t = int (length ?c)" by (simp add: t_size_def)
  have p: "?p \<noteq> []" "length ?p \<le> PACKET_SIZE" using wf_packet_length [OF file_packet_fields(5), of ?c "Suc 0"] file_packet_fields(6) by auto
  have fin: "?fin \<noteq> []" "length ?fin \<le> PACKET_SIZE" by (simp_all add: control_def create_packet_control)
  obtain junk w1 where r: "read_until_timeout w b (t_origin t) = Some (int (length ?p), put_at junk 0 ?p, w1)"
    "length junk = PACKET_SIZE" "quiet w w1" "n_recv w1 = Suc (n_recv w)"
    using next_datagram [OF w _ p b, of "[?fin]" "t_origin t"] rx by auto
  have f1: "files w1 (t_name t) = Some (take (PAYLOAD_SIZE * 0) ?c)" using r(3) assms(3) by (simp add: quiet_def)
  have w1: "works w1" using works_same_answers [OF w] r(3) by (simp add: quiet_def)
  then have disk: "\<forall>k. PAYLOAD_SIZE \<le> w_fwrite w1 k" by (simp add: works_def)
  obtain w2 where h: "handle_packet w1 (t_origin t) (t_name t) (t_size t) 0 1 (put_at junk 0 ?p) = (Again (t_size t) (seq16 2), w2)"
    "same_answers w1 w2" "newly_sent w1 w2 = if_sent w1 (control CMD_ACK (seq16 2))"
    using handle_next_chunk [OF f1 disk r(2), where origin = "t_origin t"] c fs by (auto simp: seq16_def numeral_2_eq_2 min_def)
  have n: "newly_sent w1 w2 = [control CMD_ACK (seq16 2)]" using h(3) w1 by (simp add: if_sent_def works_def)
  have sa: "same_answers w w2" using r(3) h(2) by (auto simp: quiet_def same_answers_def)
  have rx2: "incoming w2 [?fin]"
    using incoming_Cons(2) [OF rx sa] handle_packet_frame(3) [OF h(1)] r(4) by simp
  have b2: "length (put_at junk 0 ?p) = PACKET_SIZE" using r(2) p(2) by simp
  obtain junk2 w3 where r2: "read_until_timeout w2 (put_at junk 0 ?p) (t_origin t) = Some (int (length ?fin), put_at junk2 0 ?fin, w3)"
    "length junk2 = PACKET_SIZE" using next_datagram [OF works_same_answers [OF w sa] rx2 fin b2] by metis
  note last = last_packet [OF r2 fin(2) handle_fin [OF r2(2) refl]]
  from packet [OF r(1,2) p(2) h(1) last] n show ?thesis by (auto simp: newly_sent_def)
qed

text \<open>The channel may lose whatever is in front.\<close>

lemma woven_lose_front: "woven E F c2s s2c \<Longrightarrow> woven E F (xs @ c2s) s2c"
  by (induction xs) (use data_lost [of E F "[]"] in auto)

lemma one_packet_woven:
  "woven [Sends (p # ps), Takes a, Sends [f]] [Takes p, Sends [a], Takes f, Sends []] [] []"
proof -
  have "woven [] [Sends []] [] []" by (rule server_sends) (simp add: both_over)
  then have "woven [] [Takes f, Sends []] (ps @ [f]) []" by (intro woven_lose_front server_takes)
  then have "woven [Takes a, Sends [f]] [Takes f, Sends []] ps ([] @ [a])" by (simp add: client_takes client_sends)
  then have "woven [Takes a, Sends [f]] [Takes p, Sends [a], Takes f, Sends []] ([] @ p # ps) []"
    by (simp add: server_takes server_sends)
  then show ?thesis by (rule client_sends)
qed

definition example_sender_world :: world where
  "example_sender_world =
     (hearing [Rx_dgram \<lparr>sin_addr = 1, sin_port = 9\<rparr> (control CMD_ACK (seq16 2)), Rx_error EAGAIN,
        Rx_dgram \<lparr>sin_addr = 1, sin_port = 9\<rparr> (control CMD_FINACK 0)])\<lparr>n_time := 1\<rparr>"

definition example_receiver_world :: world where
  "example_receiver_world =
     (hearing (map (Rx_dgram \<lparr>sin_addr = 3, sin_port = 4\<rparr>)
        [file_packet (t_content example_transfer) 1, control CMD_FIN 0]))\<lparr>files := [[97] \<mapsto> []]\<rparr>"

lemma example_traces:
  "\<exists>wc'. client_trace example_transfer True example_sender_world (start_sender [1, 2, 3] (replicate PACKET_SIZE 0) 0)
     [Sends (packets_between [1, 2, 3] 0 WINDOW_SIZE), Takes (control CMD_ACK (seq16 2)), Sends [control CMD_FIN 0]] (Return 0) wc'"
  "\<exists>b' ws'. server_trace example_transfer example_receiver_world (replicate PACKET_SIZE 0) 0 1
     [Takes (file_packet [1, 2, 3] 1), Sends [control CMD_ACK (seq16 2)], Takes (control CMD_FIN 0), Sends []] Fin_received b' ws'"
proof -
  have c: "t_content example_transfer = [1, 2, 3]" by (simp add: example_transfer_def)
  let ?rs = "[Rx_dgram \<lparr>sin_addr = 1, sin_port = 9\<rparr> (control CMD_ACK (seq16 2)), Rx_error EAGAIN,
        Rx_dgram \<lparr>sin_addr = 1, sin_port = 9\<rparr> (control CMD_FINACK 0)]"
  have sa: "same_answers (hearing ?rs) example_sender_world" "n_recv example_sender_world = n_recv (hearing ?rs)"
    by (simp_all add: same_answers_def example_sender_world_def)
  have "w_time example_sender_world 0 = 0" "n_time example_sender_world = Suc 0"
    by (simp_all add: example_sender_world_def hearing_def)
  then show "\<exists>wc'. client_trace example_transfer True example_sender_world (start_sender [1, 2, 3] (replicate PACKET_SIZE 0) 0)
     [Sends (packets_between [1, 2, 3] 0 WINDOW_SIZE), Takes (control CMD_ACK (seq16 2)), Sends [control CMD_FIN 0]] (Return 0) wc'"
    using one_packet_client [OF prompt_same_answers [OF hearing_facts(1) sa(1)] arrives_same [OF hearing_facts(3) sa],
        of 0 0 example_transfer "replicate PACKET_SIZE 0"] example_malloc c by simp
  let ?ds = "[file_packet (t_content example_transfer) 1, control CMD_FIN 0]"
  let ?h = "hearing (map (Rx_dgram \<lparr>sin_addr = 3, sin_port = 4\<rparr>) ?ds)"
  have "same_answers ?h example_receiver_world" by (simp add: same_answers_def example_receiver_world_def)
  then have "works example_receiver_world" by (rule works_same_answers [OF hearing_facts(2)])
  moreover have "incoming example_receiver_world ?ds"
    using hearing_facts(6) [of "\<lparr>sin_addr = 3, sin_port = 4\<rparr>" ?ds] by (simp add: incoming_def example_receiver_world_def)
  ultimately show "\<exists>b' ws'. server_trace example_transfer example_receiver_world (replicate PACKET_SIZE 0) 0 1
     [Takes (file_packet [1, 2, 3] 1), Sends [control CMD_ACK (seq16 2)], Takes (control CMD_FIN 0), Sends []] Fin_received b' ws'"
    using one_packet_server [of example_receiver_world example_transfer "replicate PACKET_SIZE 0"] c
    by (simp add: example_receiver_world_def example_transfer_def)
qed

theorem programs_over_network_witness:
  "\<exists>wc' b' ws'.
     send_file example_transfer example_sender_world (start_sender [1, 2, 3] (replicate PACKET_SIZE 0) 0) = Some (Return 0, wc') \<and>
     receive_loop example_receiver_world (replicate PACKET_SIZE 0) (t_origin example_transfer) [97] 3 0 1 =
       after_loop example_transfer Fin_received b' ws' \<and>
     files ws' [97] = Some [1, 2, 3]"
proof -
  obtain wc' where c: "client_trace example_transfer True example_sender_world (start_sender [1, 2, 3] (replicate PACKET_SIZE 0) 0)
     [Sends (packets_between [1, 2, 3] 0 WINDOW_SIZE), Takes (control CMD_ACK (seq16 2)), Sends [control CMD_FIN 0]] (Return 0) wc'"
    using example_traces(1) by blast
  obtain b' ws' where sv: "server_trace example_transfer example_receiver_world (replicate PACKET_SIZE 0) 0 1
     [Takes (file_packet [1, 2, 3] 1), Sends [control CMD_ACK (seq16 2)], Takes (control CMD_FIN 0), Sends []] Fin_received b' ws'"
    using example_traces(2) by blast
  have e: "t_content example_transfer = [1, 2, 3]" "t_name example_transfer = [97]" "t_size example_transfer = 3"
    by (simp_all add: example_transfer_def t_size_def)
  have f: "files example_receiver_world (t_name example_transfer) = Some []" "\<forall>k. PAYLOAD_SIZE \<le> w_fwrite example_receiver_world k"
    by (simp_all add: e example_receiver_world_def hearing_def)
  have "packets_between [1, 2, 3] 0 WINDOW_SIZE = file_packet [1, 2, 3] 1 # packets_between [1, 2, 3] (Suc 0) WINDOW_SIZE"
    by (simp add: packets_between_Cons)
  then have "woven [Sends (packets_between [1, 2, 3] 0 WINDOW_SIZE), Takes (control CMD_ACK (seq16 2)), Sends [control CMD_FIN 0]]
     [Takes (file_packet [1, 2, 3] 1), Sends [control CMD_ACK (seq16 2)], Takes (control CMD_FIN 0), Sends []] []
     (replicate 0 (control CMD_ACK 1))" by (simp only: one_packet_woven replicate_0)
  from programs_over_network [OF example_malloc length_replicate length_replicate f c [folded e(1)] sv [folded e(1)] this [folded e(1)]]
  show ?thesis by (auto simp: e)
qed

lemma example_orderly: "orderly example_sender_world"
proof -
  have "control CMD_ACK (seq16 2) \<noteq> []" "control CMD_FINACK 0 \<noteq> []" by (simp_all add: control_def create_packet_control)
  then show ?thesis
    by (auto simp: orderly_def example_sender_world_def hearing_def nth_Cons split: nat.splits recv_result.splits)
qed

theorem send_file_iff_trace_witness:
  "\<exists>wc'. send_file example_transfer example_sender_world (start_sender [1, 2, 3] (replicate PACKET_SIZE 0) 0) = Some (Return 0, wc')"
proof -
  have e: "t_content example_transfer = [1, 2, 3]" by (simp add: example_transfer_def)
  obtain wc' E where "client_trace example_transfer True example_sender_world (start_sender [1, 2, 3] (replicate PACKET_SIZE 0) 0) E
      (Return 0) wc'" using example_traces(1) by blast
  then show ?thesis
    using send_file_iff_trace [OF length_replicate example_malloc example_orderly, of 0 0 "Return 0" wc', unfolded e] by blast
qed

theorem receive_loop_iff_trace_witness:
  "\<exists>res F act b' w'. receive_loop silent_world (replicate PACKET_SIZE 0) (t_origin example_transfer) (t_name example_transfer)
       (t_size example_transfer) 0 1 = Some res \<and>
     server_trace example_transfer silent_world (replicate PACKET_SIZE 0) 0 1 F act b' w' \<and> after_loop example_transfer act b' w' = Some res"
proof -
  have "silent silent_world" by (simp add: silent_def silent_world_def)
  then obtain res where r: "receive_loop silent_world (replicate PACKET_SIZE 0) (t_origin example_transfer) (t_name example_transfer)
       (t_size example_transfer) 0 1 = Some res"
    using receive_loop_silent [of silent_world "replicate PACKET_SIZE 0" 6] by (fastforce simp: silent_world_def)
  then show ?thesis using receive_loop_iff_trace [OF length_replicate, of silent_world 0 example_transfer 0 1 res] by blast
qed

end
