(* ===== verification/Ft_Main.thy ===== *)
theory Ft_Main
  imports Ft_Exchange
begin

text \<open>
  The two \<^verbatim>\<open>main\<close> functions with their argument and port checks, and the listening part of
  \<^verbatim>\<open>ftpserver.c\<close>: the loop that forks one child per datagram, the list of children it keeps, and
  the signal handlers. \<^verbatim>\<open>fork\<close>, \<^verbatim>\<open>waitpid\<close> and \<^verbatim>\<open>getaddrinfo\<close> answer through parameters.
\<close>

section \<open>Arguments\<close>

text \<open>\<^verbatim>\<open>strncmp("-d", s, 2) == 0\<close>\<close>

definition is_debug_flag :: "byte list \<Rightarrow> bool" where
  "is_debug_flag s \<longleftrightarrow> take 2 (cstr s) = [45, 100]"

text \<open>The check of the argument count and of \<^verbatim>\<open>-d\<close>: the returned code and the variable \<^verbatim>\<open>debug\<close>.\<close>

definition check_flag :: "nat \<Rightarrow> int \<Rightarrow> byte list list \<Rightarrow> int \<times> nat" where
  "check_flag full bad_args argv =
     (if length argv = full then
        (if \<not> is_debug_flag (argv ! 1) then (bad_args, 0) else (0, 1))
      else if length argv = full - 1 then
        (if is_debug_flag (argv ! 1) then (bad_args, 0) else (0, 0))
      else (bad_args, 0))"

definition arg_check :: "byte list list \<Rightarrow> int \<times> nat" where
  "arg_check argv = check_flag 5 CLIENT_BAD_ARGS argv"

definition server_args :: "byte list list \<Rightarrow> int \<times> nat" where
  "server_args argv = check_flag 3 BAD_ARGS argv"

text \<open>The port number of an argument, if it passes the check.\<close>

definition check_port :: "byte list \<Rightarrow> u32 option" where
  "check_port s =
     (case sscanf_u_c (cstr s) 0 of
        (conversions, port) \<Rightarrow>
          if conversions \<noteq> 1 \<or> port < 1 \<or> port > 65535 then None else Some port)"

section \<open>The client\<close>

definition client_signal_handler :: "int \<Rightarrow> unit outcome" where
  "client_signal_handler sig = Exit CLIENT_RUNTIME_ERROR"

text \<open>\<open>resolve\<close> is \<^verbatim>\<open>getaddrinfo\<close>: the address of a host and port, or \<open>None\<close> when it fails.\<close>

definition process_address ::
  "(byte list \<Rightarrow> byte list \<Rightarrow> sockaddr_in option) \<Rightarrow> byte list \<Rightarrow> byte list \<Rightarrow> sockaddr_in outcome"
where
  "process_address resolve hostname port =
     (case resolve hostname port of None \<Rightarrow> Exit CLIENT_BAD_PORT | Some a \<Rightarrow> Return a)"

definition client_main ::
  "(buffer heap \<Rightarrow> nat option) \<Rightarrow> int \<Rightarrow> (byte list \<Rightarrow> byte list \<Rightarrow> sockaddr_in option) \<Rightarrow>
   world \<Rightarrow> byte list list \<Rightarrow> (int outcome \<times> world) option"
where
  "client_main mal garbage resolve w argv =
     (case arg_check argv of
        (args, debug) \<Rightarrow>
          if args \<noteq> 0 then Some (Return CLIENT_BAD_ARGS, w)
          else if check_port (argv ! (2 + debug)) = None then Some (Return CLIENT_BAD_PORT, w)
          else
            (case files w (cstr (argv ! (3 + debug))) of
               None \<Rightarrow> Some (Return CLIENT_BAD_FILE, w)
             | Some content \<Rightarrow>
                 (case process_address resolve (cstr (argv ! (1 + debug))) (cstr (argv ! (2 + debug))) of
                    Return target \<Rightarrow>
                      if fst (setup_socket w 0) \<noteq> 0 then Some (Return CLIENT_RUNTIME_ERROR, w)
                      else map_option (\<lambda>(oc, w'). (case oc of Return _ \<Rightarrow> Return 0 | _ \<Rightarrow> oc, w'))
                             (copy_file_client mal garbage w content (cstr (argv ! (3 + debug))) target)
                  | Exit c \<Rightarrow> Some (Exit c, w)
                  | Fault \<Rightarrow> Some (Fault, w))))"

section \<open>The listening server\<close>

definition SIGINT :: int where "SIGINT = 2"
definition SIGCHLD :: int where "SIGCHLD = 17"

text \<open>
  The global \<^verbatim>\<open>children\<close> (\<open>None\<close> before it is allocated) with its heap of process numbers, the
  address of the last sender, and the signals sent so far.
\<close>

record listener =
  l_heap :: "int heap"
  l_children :: "List option"
  l_from :: sockaddr_in
  l_killed :: "int list"

text \<open>The loop of \<^verbatim>\<open>kill_children\<close>: it follows the list and signals every process number.\<close>

partial_function (option) kill_from :: "int heap \<Rightarrow> nat option \<Rightarrow> int list \<Rightarrow> int list outcome option" where
  "kill_from h n killed =
     (case n of
        None \<Rightarrow> Some (Return killed)
      | Some a \<Rightarrow>
          (case h a of
             None \<Rightarrow> Some Fault
           | Some node \<Rightarrow> kill_from h (node_next node) (killed @ [node_data node])))"

definition kill_children :: "listener \<Rightarrow> listener outcome option" where
  "kill_children l =
     (case l_children l of
        None \<Rightarrow> Some Fault
      | Some c \<Rightarrow>
          map_option (\<lambda>oc. (case oc of Return ks \<Rightarrow> Return (l\<lparr>l_killed := ks\<rparr>) | Exit e \<Rightarrow> Exit e | Fault \<Rightarrow> Fault))
            (kill_from (l_heap l) (ll_head c) (l_killed l)))"

text \<open>
  One round of the loop of \<^verbatim>\<open>process_connections\<close>. The answer of the blocking \<^verbatim>\<open>recvfrom\<close> and of
  \<^verbatim>\<open>fork\<close> are given; the buffer is cleared before each receive. A failed receive (-1) is not
  told apart from a datagram.
\<close>

datatype round_result =
    Listening listener                    \<comment> \<open>the parent goes on\<close>
  | Responder buffer sockaddr_in          \<comment> \<open>the child: it serves this buffer for this address\<close>
  | Listener_exit "listener outcome"      \<comment> \<open>the parent ends\<close>

text \<open>The state when the list of children has been allocated and initialised.\<close>

definition start_listener :: "sockaddr_in \<Rightarrow> listener" where
  "start_listener from =
     \<lparr>l_heap = Map.empty, l_children = init_list (Some \<lparr>ll_head = None, ll_tail = None, ll_size = 0\<rparr>),
      l_from = from, l_killed = []\<rparr>"

definition accept_round ::
  "(int heap \<Rightarrow> nat option) \<Rightarrow> listener \<Rightarrow> recv_result \<Rightarrow> int \<Rightarrow> round_result option"
where
  "accept_round mal l rx pid =
     (let (n, bs, from) = (case rx of
                             Rx_error _ \<Rightarrow> (-1, [], l_from l)
                           | Rx_dgram src d \<Rightarrow> (int (length (take PACKET_SIZE d)), take PACKET_SIZE d, src));
          buffer = put_at (replicate PACKET_SIZE 0) 0 bs;
          l1 = l\<lparr>l_from := from\<rparr>
      in if n = 0 then Some (Listening l1)
         else if pid = -1 then Some (Listening l1)
         else if pid = 0 then Some (Responder buffer from)
         else (case add_to_list mal (l_heap l1) (l_children l1) pid of
                 None \<Rightarrow> Some (Listener_exit Fault)
               | Some (r, h, c) \<Rightarrow>
                   let l2 = l1\<lparr>l_heap := h, l_children := c\<rparr> in
                   if r \<noteq> 0 then
                     map_option (\<lambda>oc. Listener_exit (case oc of Return _ \<Rightarrow> Exit RUNTIME_ERROR | _ \<Rightarrow> oc))
                       (kill_children l2)
                   else Some (Listening l2)))"

text \<open>The parent through a sequence of rounds, and the children it starts (\<open>fork\<close> returns in both).\<close>

primrec listen_run ::
  "(int heap \<Rightarrow> nat option) \<Rightarrow> (recv_result \<times> int) list \<Rightarrow> listener \<Rightarrow> round_result option"
where
  "listen_run mal [] l = Some (Listening l)"
| "listen_run mal (e # es) l =
     Option.bind (accept_round mal l (fst e) (snd e)) (\<lambda>r.
       (case r of Listening l' \<Rightarrow> listen_run mal es l' | _ \<Rightarrow> Some r))"

text \<open>
  \<^verbatim>\<open>process_connections\<close> through as many rounds: \<open>allocated\<close> tells whether \<^verbatim>\<open>malloc\<close> gives the memory for
  the list of children, without which the process ends.
\<close>

definition process_connections ::
  "bool \<Rightarrow> (int heap \<Rightarrow> nat option) \<Rightarrow> (recv_result \<times> int) list \<Rightarrow> sockaddr_in \<Rightarrow> round_result option"
where
  "process_connections allocated mal es from =
     (if \<not> allocated then Some (Listener_exit (Exit RUNTIME_ERROR)) else listen_run mal es (start_listener from))"

text \<open>
  The signal handlers. \<open>waits k\<close> is what the \<open>k\<close>-th \<^verbatim>\<open>waitpid\<close> returns; the reaping loop goes on
  while it is positive. Reaped children stay in the list.
\<close>

partial_function (option) reap :: "(nat \<Rightarrow> int) \<Rightarrow> nat \<Rightarrow> int list \<Rightarrow> (int list \<times> int) option" where
  "reap waits k reaped =
     (if waits k > 0 then reap waits (Suc k) (reaped @ [waits k]) else Some (reaped, waits k))"

definition server_signal_handler ::
  "int \<Rightarrow> (nat \<Rightarrow> int) \<Rightarrow> listener \<Rightarrow> (listener outcome \<times> int list) option"
where
  "server_signal_handler sig waits l =
     (if sig = SIGINT then
        map_option (\<lambda>oc. (case oc of Return _ \<Rightarrow> Exit 0 | _ \<Rightarrow> oc,
                          case oc of Return l' \<Rightarrow> l_killed l' | _ \<Rightarrow> l_killed l)) (kill_children l)
      else if sig = SIGCHLD then
        map_option (\<lambda>_. (Return l, l_killed l)) (reap waits 0 [])
      else Some (Return l, l_killed l))"

text \<open>\<^verbatim>\<open>main\<close> up to the endless loop: an exit code, or the port it listens on.\<close>

definition server_main :: "world \<Rightarrow> byte list list \<Rightarrow> int + u32" where
  "server_main w argv =
     (case server_args argv of
        (args, debug) \<Rightarrow>
          if args \<noteq> 0 then Inl BAD_ARGS
          else (case check_port (argv ! (1 + debug)) of
                  None \<Rightarrow> Inl BAD_PORT
                | Some port \<Rightarrow>
                    if fst (setup_socket w (ucast port)) \<noteq> 0 then Inl RUNTIME_ERROR else Inr port))"

section \<open>The list of children\<close>

text \<open>The process numbers \<^verbatim>\<open>fork\<close> returned to the parent for datagrams that were not empty.\<close>

definition forked :: "(recv_result \<times> int) list \<Rightarrow> int list" where
  "forked es = map snd (filter (\<lambda>e. snd e \<noteq> -1 \<and> (\<forall>src. fst e \<noteq> Rx_dgram src [])) es)"

lemma accept_round_parent:
  assumes "l_children l = Some c" and "ll_own (l_heap l) c ps" and "malloc_serves k mal" and "length ps < k"
    and "pid \<noteq> 0"
  shows "\<exists>l' c'. accept_round mal l rx pid = Some (Listening l') \<and> l_children l' = Some c' \<and>
           ll_own (l_heap l') c' (ps @ forked [(rx, pid)]) \<and> l_killed l' = l_killed l"
proof (cases "pid \<noteq> -1 \<and> (\<forall>src. rx \<noteq> Rx_dgram src [])")
  case True
  obtain h c' where a: "add_to_list mal (l_heap l) (Some c) pid = Some (0, h, Some c')" "ll_own h c' (ps @ [pid])"
    using ll_own_add_to_list [OF assms(2,3,4)] by blast
  have "forked [(rx, pid)] = [pid]" using True by (simp add: forked_def)
  then show ?thesis
    using True a assms(1,5) by (cases rx) (auto simp: accept_round_def Let_def min_def split: if_splits)
next
  case False
  then have "forked [(rx, pid)] = []" by (auto simp: forked_def)
  with False assms(1,2) show ?thesis by (cases rx) (auto simp: accept_round_def Let_def)
qed

lemma listen_run_children:
  assumes "l_children l = Some c" and "ll_own (l_heap l) c ps" and "malloc_serves k mal"
    and "length ps + length es \<le> k" and "\<forall>e\<in>set es. snd e \<noteq> 0"
  shows "\<exists>l' c'. listen_run mal es l = Some (Listening l') \<and> l_children l' = Some c' \<and>
           ll_own (l_heap l') c' (ps @ forked es) \<and> l_killed l' = l_killed l"
  using assms
proof (induction es arbitrary: l c ps)
  case Nil
  then show ?case by (auto simp: forked_def)
next
  case (Cons e es)
  have split: "forked (e # es) = forked [e] @ forked es" by (simp add: forked_def)
  obtain l1 c1 where l1: "accept_round mal l (fst e) (snd e) = Some (Listening l1)" "l_children l1 = Some c1"
    "ll_own (l_heap l1) c1 (ps @ forked [e])" "l_killed l1 = l_killed l"
    using accept_round_parent [OF Cons.prems(1,2,3), of "snd e" "fst e"] Cons.prems(4,5) by auto
  have "length (forked [e]) \<le> 1" by (simp add: forked_def)
  then have "length (ps @ forked [e]) + length es \<le> k" using Cons.prems(4) by simp
  then show ?case using Cons.IH [OF l1(2,3) Cons.prems(3)] Cons.prems(5) l1 split by auto
qed

lemma start_listener_children:
  "\<exists>c. l_children (start_listener a) = Some c \<and> ll_own (l_heap (start_listener a)) c []"
  "l_killed (start_listener a) = []"
  by (auto simp: start_listener_def init_list_def ll_own_def ll_rep_def ll_nodes_def)

lemma kill_from_path: "ll_path h p xs \<Longrightarrow> kill_from h p killed = Some (Return (killed @ map snd xs))"
  by (induction xs arbitrary: p killed) (auto simp: kill_from.simps)

lemma kill_children_rep:
  assumes "l_children l = Some c" and "ll_own (l_heap l) c ps"
  shows "kill_children l = Some (Return (l\<lparr>l_killed := l_killed l @ ps\<rparr>))"
proof -
  obtain xs where "ll_path (l_heap l) (ll_head c) xs" "map snd xs = ps"
    using assms(2) by (auto simp: ll_own_def ll_rep_def ll_nodes_def)
  then show ?thesis using kill_from_path [of "l_heap l"] assms(1) by (simp add: kill_children_def)
qed

lemma reap_returns:
  assumes "waits k \<le> 0" and "\<forall>i<k. waits i > 0" and "j \<le> k"
  shows "reap waits j reaped = Some (reaped @ map waits [j..<k], waits k)"
  using assms(3)
proof (induction "k - j" arbitrary: j reaped)
  case 0
  with assms(1) show ?case by (subst reap.simps) auto
next
  case (Suc d)
  then have "j < k" by simp
  with Suc assms(2) show ?case by (subst reap.simps) (simp add: upt_conv_Cons)
qed

lemma scan_port: "1 \<le> n \<Longrightarrow> n \<le> 65535 \<Longrightarrow> sscanf_u_c (print_ld n) v = (1, word_of_int n)"
  by (auto simp: sscanf_u_c_def print_ld_def scan_int_digits nat_le_iff)

lemma one_le_port: "p \<noteq> 0 \<Longrightarrow> 1 \<le> (p :: u32)"
  by (simp add: word_le_nat_alt Suc_le_eq unat_gt_0)

section \<open>Properties\<close>

text \<open>
  C32: through any sequence of datagrams and forks the parent goes on listening, and its list of
  children holds exactly the process numbers of the children it forked, in order; empty datagrams
  and failed forks add nothing.
\<close>

theorem listener_keeps_children:
  assumes "malloc_serves (length es) mal" and "\<forall>e\<in>set es. snd e \<noteq> 0"
  shows "\<exists>l c. listen_run mal es (start_listener a) = Some (Listening l) \<and> l_children l = Some c \<and>
           ll_own (l_heap l) c (forked es) \<and> l_killed l = []"
proof -
  obtain c where c: "l_children (start_listener a) = Some c" "ll_own (l_heap (start_listener a)) c []"
    using start_listener_children by blast
  show ?thesis
    using listen_run_children [OF c assms(1) _ assms(2)] start_listener_children(2) by simp
qed

theorem listener_keeps_children_witness:
  "\<exists>l c. listen_run (first_free 3) [(Rx_dgram \<lparr>sin_addr = 1, sin_port = 2\<rparr> [5], 700), (Rx_error 4, -1),
       (Rx_dgram \<lparr>sin_addr = 1, sin_port = 2\<rparr> [], 701)] (start_listener \<lparr>sin_addr = 0, sin_port = 0\<rparr>) =
     Some (Listening l) \<and> l_children l = Some c \<and> ll_own (l_heap l) c [700] \<and> l_killed l = []"
proof -
  let ?es = "[(Rx_dgram \<lparr>sin_addr = 1, sin_port = 2\<rparr> [5], 700), (Rx_error 4, -1),
       (Rx_dgram \<lparr>sin_addr = 1, sin_port = 2\<rparr> [], 701)]"
  have "forked ?es = [700]" by (simp add: forked_def)
  moreover have "malloc_serves (length ?es) (first_free 3 :: int heap \<Rightarrow> nat option)"
    using malloc_serves_first_free [of 3] by (simp add: eval_nat_numeral)
  ultimately show ?thesis
    using listener_keeps_children [of ?es "first_free 3" "\<lparr>sin_addr = 0, sin_port = 0\<rparr>"] by simp
qed

text \<open>
  C33: on SIGINT the server signals every child it ever forked, in the order of forking, and exits with
  0. Reaping a child on SIGCHLD does not take it off the list, so that the numbers of children that
  ended long ago are signalled too.
\<close>

theorem sigint_signals_every_child:
  assumes "malloc_serves (length es) mal" and "\<forall>e\<in>set es. snd e \<noteq> 0"
    and "listen_run mal es (start_listener a) = Some (Listening l)"
    and "server_signal_handler SIGCHLD waits l = Some (Return l', killed)"
  shows "server_signal_handler SIGINT waits' l' = Some (Exit 0, forked es)"
proof -
  obtain c where c: "l_children (start_listener a) = Some c" "ll_own (l_heap (start_listener a)) c []"
    using start_listener_children by blast
  have "\<exists>l1 c1. listen_run mal es (start_listener a) = Some (Listening l1) \<and> l_children l1 = Some c1 \<and>
      ll_own (l_heap l1) c1 ([] @ forked es) \<and> l_killed l1 = l_killed (start_listener a)"
    using listen_run_children [OF c assms(1) _ assms(2)] by simp
  then obtain c1 where "l_children l = Some c1" "ll_own (l_heap l) c1 (forked es)" "l_killed l = []"
    using assms(3) start_listener_children(2) by auto
  moreover have "l' = l"
    using assms(4) by (auto simp: server_signal_handler_def SIGINT_def SIGCHLD_def)
  ultimately show ?thesis
    by (simp add: server_signal_handler_def kill_children_rep)
qed

theorem sigint_signals_every_child_witness:
  "\<exists>l l' killed. listen_run (first_free 1) [(Rx_error 4, 700)] (start_listener \<lparr>sin_addr = 0, sin_port = 0\<rparr>) =
       Some (Listening l) \<and>
     server_signal_handler SIGCHLD (\<lambda>k. if k = 0 then 700 else 0) l = Some (Return l', killed) \<and>
     server_signal_handler SIGINT (\<lambda>_. 0) l' = Some (Exit 0, forked [(Rx_error 4, 700)])"
proof -
  have mal: "malloc_serves (length [(Rx_error 4, 700 :: int)]) (first_free 1 :: int heap \<Rightarrow> nat option)"
    using malloc_serves_first_free [of 1] by simp
  have pids: "\<forall>e\<in>set [(Rx_error 4, 700 :: int)]. snd e \<noteq> 0" by simp
  obtain c where c: "l_children (start_listener \<lparr>sin_addr = 0, sin_port = 0\<rparr>) = Some c"
    "ll_own (l_heap (start_listener \<lparr>sin_addr = 0, sin_port = 0\<rparr>)) c []"
    using start_listener_children by blast
  obtain l where l: "listen_run (first_free 1) [(Rx_error 4, 700)] (start_listener \<lparr>sin_addr = 0, sin_port = 0\<rparr>) =
      Some (Listening l)"
    using listen_run_children [OF c mal _ pids] by auto
  have "reap (\<lambda>k. if k = 0 then 700 else 0) 0 [] = Some ([] @ map (\<lambda>k. if k = 0 then 700 else 0) [0..<1], 0)"
    using reap_returns [of "\<lambda>k. if k = 0 then 700 else 0" 1 0 "[]"] by simp
  then have chld: "server_signal_handler SIGCHLD (\<lambda>k. if k = 0 then 700 else 0) l = Some (Return l, l_killed l)"
    by (simp add: server_signal_handler_def SIGINT_def SIGCHLD_def)
  show ?thesis
    using l chld sigint_signals_every_child [OF mal pids l chld] by blast
qed

text \<open>
  A receive that failed is served like a request: the child answers the zeroed buffer with a
  refusal sent to whoever sent the previous datagram.
\<close>

theorem failed_receive_is_served:
  assumes "fst (setup_socket w 0) = 0"
  shows "accept_round mal l (Rx_error e) 0 = Some (Responder (replicate PACKET_SIZE 0) (l_from l)) \<and>
         copy_file_server w (replicate PACKET_SIZE 0) (l_from l) = Some (deny w (l_from l) CMD_BADREQ BAD_REQUEST)"
proof -
  have zero: "drop HEADER_SIZE (replicate PACKET_SIZE 0) = replicate 2043 (0 :: byte)" by simp
  have cs: "cstr (replicate 2043 0) = []" by (simp add: cstr_def takeWhile_replicate)
  have "get_seq_num (replicate PACKET_SIZE 0) = 0"
    by (simp add: get_seq_num_def load16_def ntohs_def join16_def hi8_def lo8_def)
  then have "\<not> request_refused (replicate PACKET_SIZE 0)" by (simp add: request_refused_def)
  moreover have "strchr (replicate 2043 0) 124 = None" by (simp add: strchr_None_iff cs)
  moreover have "terminated (replicate 2043 0)" by (simp add: terminated_def)
  ultimately show ?thesis
    using assms unfolding copy_file_server_def Let_def zero by (simp add: accept_round_def put_at_def)
qed

theorem failed_receive_is_served_witness:
  "accept_round (first_free 1) (start_listener \<lparr>sin_addr = 7, sin_port = 8\<rparr>) (Rx_error 4) 0 =
     Some (Responder (replicate PACKET_SIZE 0) (l_from (start_listener \<lparr>sin_addr = 7, sin_port = 8\<rparr>))) \<and>
   copy_file_server silent_world (replicate PACKET_SIZE 0) (l_from (start_listener \<lparr>sin_addr = 7, sin_port = 8\<rparr>)) =
     Some (deny silent_world (l_from (start_listener \<lparr>sin_addr = 7, sin_port = 8\<rparr>)) CMD_BADREQ BAD_REQUEST)"
  by (rule failed_receive_is_served) (simp add: silent_world_def setup_socket_def)

text \<open>
  Every port number from 1 to 65535, written in decimal, passes the check of both programs with
  its value, and no argument passes with a value outside this range.
\<close>

theorem port_check_exact:
  "(\<forall>n. 1 \<le> n \<and> n \<le> 65535 \<longrightarrow> check_port (print_ld n) = Some (word_of_int n)) \<and>
   (\<forall>s p. check_port s = Some p \<longrightarrow> 1 \<le> p \<and> p \<le> 65535)"
proof (intro conjI allI impI)
  fix n :: int
  assume n: "1 \<le> n \<and> n \<le> 65535"
  have "0 \<notin> set (print_ld n)" using print_ld_isdigit [of n] isdigit_not_sign n by force
  then have "cstr (print_ld n) = print_ld n" by (simp add: cstr_def takeWhile_neq_all)
  moreover have u: "uint (word_of_int n :: u32) = n" using n by (simp add: uint_word_of_int)
  have "\<not> (word_of_int n :: u32) < 1" "\<not> (word_of_int n :: u32) > 65535"
    using n by (simp_all add: word_less_def u)
  ultimately show "check_port (print_ld n) = Some (word_of_int n)"
    using scan_port n by (simp add: check_port_def)
qed (auto simp: check_port_def not_less one_le_port split: prod.splits if_splits)

theorem port_check_exact_witness:
  "check_port (print_ld 42) = Some (word_of_int 42)"
  using port_check_exact by simp

text \<open>
  A minus sign does not make a port invalid: the argument \<^verbatim>\<open>-4294967295\<close> is taken as port 1,
  because the conversion of a negative number to 32 bits wraps around.
\<close>

lemma negative_port_accepted:
  "check_port [45, 52, 50, 57, 52, 57, 54, 55, 50, 57, 53] = Some 1"
  by (simp add: check_port_def sscanf_u_c_def scan_int_def cstr_def isspace_c_def isdigit_c_def
      undigits_def byte_digit_def)

text \<open>
  A SIGINT that arrives after the handlers are installed and before the list of children is
  allocated makes the handler follow a null pointer.
\<close>

lemma early_sigint_faults:
  "server_signal_handler SIGINT waits (l\<lparr>l_children := None\<rparr>) = Some (Fault, l_killed l)"
  by (simp add: server_signal_handler_def kill_children_def)

end
