(* ===== verification/Ft_Server_Run.thy ===== *)
theory Ft_Server_Run
  imports Ft_Main
begin

text \<open>
  How the process that serves a request can end: its exit codes, and that a peer which sends
  well-formed packets cannot make it leave its memory, except through the byte \<^verbatim>\<open>strncpy\<close> writes too much.
\<close>

section \<open>Datagrams whose length field fits\<close>




section \<open>The receive loop\<close>





section \<open>The whole request\<close>





text \<open>The bug behind the hypothesis: a data packet in turn whose length field exceeds a payload.\<close>

lemma oversized_data_faults:
  assumes "b ! 0 = CMD_DATA" and "get_seq_num b = e" and "PAYLOAD_SIZE < unat (GETLEN b)"
  shows "fst (handle_packet w origin name filesize read e b) = Stop Fault"
  using assms by (simp add: handle_packet_def Let_def split: prod.splits)




section \<open>Properties\<close>



end
