(* ===== verification/Ft_Child.thy ===== *)
theory Ft_Child
  imports Ft_Exchange
begin

text \<open>
  The child process of the server in the parts that other processes can come between: \<^verbatim>\<open>copy_file\<close> of
  \<^verbatim>\<open>ftpserver.c\<close> up to and including its \<^verbatim>\<open>access\<close> (\<open>check_child\<close>), the opening of the file with the
  acknowledgement (\<open>begin_file\<close>), and the receive loop. The parts are shown to be together the whole
  function, so that a system of several processes can run them as separate steps.
\<close>

section \<open>The first part of a child\<close>

datatype child =
    Ended "int outcome"              \<comment> \<open>the process ends\<close>
  | Serving "byte list" int buffer   \<comment> \<open>it receives a file of this name and size, with this buffer\<close>

definition begin_file ::
  "world \<Rightarrow> buffer \<Rightarrow> sockaddr_in \<Rightarrow> byte list \<Rightarrow> int \<Rightarrow> (child \<times> world) option"
where
  "begin_file w buffer origin filename filesize =
     (case fopen_w w filename of
        (False, w1) \<Rightarrow> Some (map_prod Ended id (deny w1 origin CMD_EXISTS CANNOT_CREATE))
      | (True, w1) \<Rightarrow>
          (case time_now w1 of
             (startTime, w2) \<Rightarrow>
               map_option (\<lambda>(oc, w3).
                   (case oc of Return _ \<Rightarrow> Serving filename filesize buffer | Exit c \<Rightarrow> Ended (Exit c) | Fault \<Rightarrow> Ended Fault, w3))
                 (ack_request startTime w2 origin (control CMD_ACK 1) filename)))"

text \<open>The checks before the file is opened: the child ends, or it knows the name and size of a file it found absent.\<close>

datatype checked =
    Refused child world
  | Absent buffer "byte list" int world

definition check_request :: "world \<Rightarrow> buffer \<Rightarrow> sockaddr_in \<Rightarrow> nat option \<Rightarrow> nat \<Rightarrow> checked" where
  "check_request w buffer origin slash separator =
     (let payload = (drop HEADER_SIZE buffer)[separator := 0];
          filename = request_name payload slash
      in if name_overrun w payload slash then Refused (Ended Fault) w
         else (case access_file w filename of
            (a, w1) \<Rightarrow>
              if a \<noteq> -1 then (case deny w1 origin CMD_EXISTS FILE_EXISTS of (oc, w2) \<Rightarrow> Refused (Ended oc) w2)
              else (case sscanf_ld_c (cstr (drop (Suc separator) payload)) (-1) of
                      (conversions, filesize) \<Rightarrow>
                        if conversions \<noteq> 1 \<or> filesize < 0 then Refused (Ended (Return BAD_REQUEST)) w1
                        else Absent (put_at buffer HEADER_SIZE payload) filename filesize w1)))"

definition check_child :: "world \<Rightarrow> buffer \<Rightarrow> sockaddr_in \<Rightarrow> checked" where
  "check_child w buffer origin =
     (let payload = drop HEADER_SIZE buffer in
      if fst (setup_socket w 0) \<noteq> 0 then Refused (Ended (Return RUNTIME_ERROR)) w
      else if request_refused buffer
      then (case deny w origin CMD_BADREQ BAD_REQUEST of (oc, w1) \<Rightarrow> Refused (Ended oc) w1)
      else if \<not> terminated payload then Refused (Ended Fault) w
      else (case strchr payload 124 of
              None \<Rightarrow> (case deny w origin CMD_BADREQ BAD_REQUEST of (oc, w1) \<Rightarrow> Refused (Ended oc) w1)
            | Some separator \<Rightarrow> check_request w buffer origin (strrchr payload 47) separator))"

text \<open>After the checks: nothing more, or the file.\<close>

definition open_checked :: "sockaddr_in \<Rightarrow> checked \<Rightarrow> (child \<times> world) option" where
  "open_checked origin ch =
     (case ch of
        Refused c w \<Rightarrow> Some (c, w)
      | Absent buffer filename filesize w \<Rightarrow> begin_file w buffer origin filename filesize)"

text \<open>The rest of a child: the receive loop, if it got there.\<close>

definition continue_child :: "sockaddr_in \<Rightarrow> child \<times> world \<Rightarrow> (int outcome \<times> world) option" where
  "continue_child origin = (\<lambda>(c, w).
     (case c of
        Ended oc \<Rightarrow> Some (oc, w)
      | Serving filename filesize buffer \<Rightarrow> receive_loop w buffer origin filename filesize 0 1))"

lemma continue_child_simps [simp]:
  "continue_child origin (Ended oc, w) = Some (oc, w)"
  "continue_child origin (Serving name fs b, w) = receive_loop w b origin name fs 0 1"
  "continue_child origin (map_prod Ended id r) = Some r"
  by (cases r; simp add: continue_child_def)+

lemma serve_file_begin:
  "serve_file w b origin name fs = Option.bind (begin_file w b origin name fs) (continue_child origin)"
proof (cases "fopen_w w name")
  case (Pair opened w1)
  show ?thesis
  proof (cases opened)
    case True
    then show ?thesis
      using Pair by (cases "ack_request (w_time w1 (n_time w1)) (w1\<lparr>n_time := Suc (n_time w1)\<rparr>) origin (control CMD_ACK 1) name")
        (auto simp: serve_file_def begin_file_def time_now_def split: outcome.splits)
  qed (simp add: Pair serve_file_def begin_file_def)
qed

lemma serve_request_begin:
  "serve_request w b origin slash sep =
     Option.bind (open_checked origin (check_request w b origin slash sep)) (continue_child origin)"
  by (simp add: serve_request_def check_request_def open_checked_def serve_file_begin Let_def split: prod.splits)

section \<open>The client's request\<close>

text \<open>A path and a size the client can ask for, and the packet it asks with.\<close>

definition askable :: "byte list \<Rightarrow> int \<Rightarrow> bool" where
  "askable path fs \<longleftrightarrow> 0 \<notin> set path \<and> 124 \<notin> set path \<and> 0 \<le> fs \<and> fs < 2 ^ 63 \<and>
     length (request_text path fs) < PAYLOAD_SIZE"

definition asked :: "byte list \<Rightarrow> int \<Rightarrow> buffer" where
  "asked path fs = request_packet (request_buffer (replicate PACKET_SIZE 0) path fs)"

lemma heard_asked:
  assumes "askable path fs"
  shows "\<not> request_refused (heard (asked path fs))" "terminated (drop HEADER_SIZE (heard (asked path fs)))"
    "\<exists>sep. strchr (drop HEADER_SIZE (heard (asked path fs))) 124 = Some sep"
    "request_target (heard (asked path fs)) = Some (base_name path, fs)"
    "wf_packet (asked path fs)" "length (heard (asked path fs)) = PACKET_SIZE"
    "asked path fs \<noteq> []" "take PACKET_SIZE (asked path fs) = asked path fs"
    "spare_byte w path \<Longrightarrow> \<not> name_overrun w payload (strrchr (drop HEADER_SIZE (heard (asked path fs))) 47)"
proof -
  have a: "0 \<notin> set path" "124 \<notin> set path" "0 \<le> fs" "fs < 2 ^ 63" "length (request_text path fs) < PAYLOAD_SIZE"
    using assms by (simp_all add: askable_def)
  have z: "length (replicate PACKET_SIZE (0 :: byte)) = PACKET_SIZE" by simp
  note hr = heard_request [OF a(1,3,5) z, folded asked_def]
  obtain k where k: "k > 0" "drop HEADER_SIZE (heard (asked path fs)) = request_text path fs @ replicate k 0"
    using hr(5) by blast
  then have pay: "drop HEADER_SIZE (heard (asked path fs)) = path @ 124 # print_ld fs @ replicate k 0"
    by (simp add: request_text_no_nul(1) [OF a(1,3)])
  note rt = request_target_text [OF pay k(1) a(1-4)]
  show "\<not> request_refused (heard (asked path fs))"
    using received_packet(1) [OF hr(1), of "replicate PACKET_SIZE 0"] hr(2,3)
    by (simp add: heard_def request_refused_def pkt_cmd_def)
  show "terminated (drop HEADER_SIZE (heard (asked path fs)))" by (rule rt(3))
  show "\<exists>sep. strchr (drop HEADER_SIZE (heard (asked path fs))) 124 = Some sep" using rt(2) by blast
  show "request_target (heard (asked path fs)) = Some (base_name path, fs)" by (rule rt(1))
  show "wf_packet (asked path fs)" by (rule hr(1))
  show "length (heard (asked path fs)) = PACKET_SIZE" using hr(2) by (simp add: heard_def)
  show "asked path fs \<noteq> []" using wf_packet_length [OF hr(1)] by auto
  show "take PACKET_SIZE (asked path fs) = asked path fs" using hr(2) by simp
  show "spare_byte w path \<Longrightarrow> \<not> name_overrun w payload (strrchr (drop HEADER_SIZE (heard (asked path fs))) 47)"
    by (rule request_fits [OF pay k(1) a(1,3)])
qed

lemma check_child_request:
  assumes "fst (setup_socket w 0) = 0" and "\<not> request_refused b" and "terminated (drop HEADER_SIZE b)"
    and "strchr (drop HEADER_SIZE b) 124 = Some sep" and "request_target b = Some (name, fs)"
    and "\<not> name_overrun w ((drop HEADER_SIZE b)[sep := 0]) (strrchr (drop HEADER_SIZE b) 47)"
  shows "check_child w b origin =
         (if files w name = None
          then Absent (put_at b HEADER_SIZE ((drop HEADER_SIZE b)[sep := 0])) name fs (w\<lparr>errno := ENOENT\<rparr>)
          else (case deny w origin CMD_EXISTS FILE_EXISTS of (oc, w') \<Rightarrow> Refused (Ended oc) w'))"
  using assms
  by (auto simp: check_child_def check_request_def request_target_def access_file_def Let_def
      split: prod.splits if_splits)

lemma deny_newly:
  "newly_sent w (snd (deny w origin cmd code)) = if_sent w (control cmd 0)" "files (snd (deny w origin cmd code)) = files w"
  by (cases "send_packet w origin (control cmd 0)",
      simp_all add: deny_def send_packet_newly send_packet_frame(2))+

text \<open>The acknowledgement of the request is sent once or fails at once.\<close>

lemma ack_request_fresh:
  assumes "errno w = ENOENT"
  shows "ack_request st w origin (control CMD_ACK 1) name =
    Some (case w_send w (n_send w) of
            Tx_ok \<Rightarrow> (Return (), w\<lparr>n_send := Suc (n_send w), sent := sent w @ [(origin, control CMD_ACK 1)]\<rparr>)
          | Tx_error e \<Rightarrow> (Exit RUNTIME_ERROR, unlink_file (w\<lparr>n_send := Suc (n_send w), errno := e\<rparr>) name))"
proof (cases "w_send w (n_send w)")
  case Tx_ok
  then show ?thesis using ack_request_once [OF assms Tx_ok, of "control CMD_ACK 1"] by simp
next
  case (Tx_error e)
  then show ?thesis by (subst ack_request.simps) (simp add: send_packet_def sendto_def Let_def)
qed

text \<open>Opening the file fails, and the client is told that it exists; or it works and the request is acknowledged.\<close>

lemma begin_file_denied:
  assumes "begin_file w b origin name fs = Some (c, w')" and "w_fopen w name \<noteq> None"
  obtains oc where "c = Ended oc" "files w' = files w" "set (newly_sent w w') \<subseteq> {control CMD_EXISTS 0}"
proof -
  obtain e where e: "w_fopen w name = Some e" using assms(2) by blast
  let ?r = "deny (w\<lparr>errno := e\<rparr>) origin CMD_EXISTS CANNOT_CREATE"
  have r: "c = Ended (fst ?r)" "w' = snd ?r"
    using assms(1) e by (auto simp: begin_file_def fopen_w_def map_prod_def split: prod.splits)
  have "newly_sent w w' = newly_sent (w\<lparr>errno := e\<rparr>) (snd ?r)" by (simp add: r newly_sent_def)
  then have "set (newly_sent w w') \<subseteq> {control CMD_EXISTS 0}" by (auto simp: deny_newly if_sent_def split: if_splits)
  with r deny_newly(2) show thesis using that by auto
qed

lemma begin_file_cases:
  assumes "begin_file w b origin name fs = Some (c, w')" and "errno w = ENOENT" and "files w name = None"
  obtains (ended) oc where "c = Ended oc" "files w' = files w" "set (newly_sent w w') \<subseteq> {control CMD_EXISTS 0}"
    | (serving) "c = Serving name fs b" "files w' = (files w)(name \<mapsto> [])" "newly_sent w w' = [control CMD_ACK 1]"
      "same_answers w w'" "w_fopen w name = None"
proof (cases "w_fopen w name")
  case (Some e)
  then show ?thesis using begin_file_denied [OF assms(1)] ended by blast
next
  case None
  let ?w1 = "w\<lparr>files := (files w)(name \<mapsto> []), n_time := Suc (n_time w)\<rparr>"
  have eq: "Some (c, w') = map_option (\<lambda>(oc, w3).
      (case oc of Return _ \<Rightarrow> Serving name fs b | Exit c \<Rightarrow> Ended (Exit c) | Fault \<Rightarrow> Ended Fault, w3))
      (ack_request (w_time w (n_time w)) ?w1 origin (control CMD_ACK 1) name)"
    using assms(1) None by (auto simp: begin_file_def fopen_w_def time_now_def)
  show ?thesis
  proof (cases "w_send w (n_send w)")
    case Tx_ok
    with eq ack_request_fresh [of ?w1] assms(2) None show ?thesis
      by (intro serving) (simp_all add: newly_sent_def same_answers_def)
  next
    case (Tx_error e)
    with eq ack_request_fresh [of ?w1] assms(2,3) show ?thesis
      by (intro ended [of "Exit RUNTIME_ERROR"]) (simp_all add: newly_sent_def unlink_file_def fun_upd_idem)
  qed
qed

text \<open>
  Everything the checks of a child can do with the client's request: end, with no trace in the
  directory and at most a refusal sent, or find the file absent.
\<close>

lemma check_child_asked:
  assumes ask: "askable path fs"
  obtains (refused) oc w' where "check_child w (heard (asked path fs)) origin = Refused (Ended oc) w'" "files w' = files w"
      "set (newly_sent w w') \<subseteq> {control CMD_EXISTS 0}"
    | (absent) b where "check_child w (heard (asked path fs)) origin = Absent b (base_name path) fs (w\<lparr>errno := ENOENT\<rparr>)"
      "files w (base_name path) = None" "length b = PACKET_SIZE"
proof -
  let ?b = "heard (asked path fs)"
  note ha = heard_asked [OF ask]
  obtain sep where sep: "strchr (drop HEADER_SIZE ?b) 124 = Some sep" using ha(3) by blast
  let ?over = "name_overrun w ((drop HEADER_SIZE ?b)[sep := 0]) (strrchr (drop HEADER_SIZE ?b) 47)"
  have quiet_end: thesis if "check_child w ?b origin = Refused (Ended oc) w" for oc
    using refused [OF that] by (simp add: newly_sent_def)
  consider (socket) "fst (setup_socket w 0) \<noteq> 0" | (over) "fst (setup_socket w 0) = 0" ?over
    | (looks) "fst (setup_socket w 0) = 0" "\<not> ?over" by blast
  then show thesis
  proof cases
    case socket
    then show thesis using quiet_end by (simp add: check_child_def)
  next
    case over
    then show thesis using quiet_end ha(1,2) sep by (simp add: check_child_def check_request_def Let_def)
  next
    case looks
    note eq = check_child_request [OF looks(1) ha(1,2) sep ha(4) looks(2), of origin]
    show thesis
    proof (cases "files w (base_name path)")
      case None
      with eq ha(6) show thesis by (intro absent [of "put_at ?b HEADER_SIZE ((drop HEADER_SIZE ?b)[sep := 0])"]) simp_all
    next
      case (Some x)
      let ?r = "deny w origin CMD_EXISTS FILE_EXISTS"
      have "check_child w ?b origin = Refused (Ended (fst ?r)) (snd ?r)" using eq Some by (simp add: case_prod_beta)
      then show thesis using refused deny_newly [of w origin CMD_EXISTS FILE_EXISTS] by (auto simp: if_sent_def)
    qed
  qed
qed

section \<open>The parts together\<close>

text \<open>
  \<^verbatim>\<open>copy_file\<close> of the server is the checks, the opening of the file with the acknowledgement, and
  the receive loop, one after the other: the functions that a system of several processes runs as
  separate steps are together the whole function, with the same outcome, the same datagrams and the
  same files.
\<close>

lemma copy_file_server_begin:
  "copy_file_server w b origin = Option.bind (open_checked origin (check_child w b origin)) (continue_child origin)"
  by (simp add: copy_file_server_def check_child_def open_checked_def serve_request_begin Let_def
      split: option.splits prod.splits)

end
