(* ===== verification/Ft_Session.thy ===== *)
theory Ft_Session
  imports Ft_Transfer Ft_Child Ft_Main
begin

text \<open>
  A whole session: the client from its first request on, the listening process, and the children it
  forks for every request that arrives, in one directory. The client repeats its request until it is
  answered, so that several children may look at the same request; the network loses and duplicates
  datagrams. After the client has been accepted, it and the child that created the file go on as in
  \<open>Ft_Transfer\<close>, while the replies of other children still reach the client.
\<close>

section \<open>The system\<close>

text \<open>
  \<open>z_asking\<close>: the client is in \<open>complete_request\<close>. \<open>z_requests\<close>: requests on their way to the listening
  socket. \<open>z_looked\<close>: children that have looked for the file, found it absent, and have not opened it
  yet. \<open>z_served\<close>: a child has opened the file; its world and its place in the receive loop are the
  server's side of \<open>z_sys\<close>, and its datagrams \<open>y_s2c\<close>. \<open>z_notes\<close>: datagrams of other children, which arrive in any order.
  \<open>z_again\<close>: a second child has opened the file, truncating it if it is still there; the system describes
  a session up to this point. The directory is that of the server in \<open>z_sys\<close>.
\<close>

record session =
  z_sys :: system
  z_asking :: bool
  z_requests :: "buffer list"
  z_looked :: "(sockaddr_in \<times> checked) list"
  z_served :: bool
  z_again :: bool
  z_notes :: "buffer list"

text \<open>The next datagram the client takes: from the child that serves it, or from another one.\<close>

definition takes :: "session \<Rightarrow> buffer \<Rightarrow> session \<Rightarrow> bool" where
  "takes z p z' \<longleftrightarrow>
     (\<exists>rest. y_s2c (z_sys z) = p # rest \<and> z' = z\<lparr>z_sys := (z_sys z)\<lparr>y_s2c := rest\<rparr>\<rparr>) \<or>
     (\<exists>xs ys. z_notes z = xs @ p # ys \<and> z' = z\<lparr>z_notes := xs @ ys\<rparr>)"

text \<open>The buffer of the client after a datagram has answered its request.\<close>

definition answered :: "transfer \<Rightarrow> byte list \<Rightarrow> buffer \<Rightarrow> buffer" where
  "answered t path p = put_at (request_buffer (replicate PACKET_SIZE 0) path (t_size t)) 0 p"

text \<open>The client after it has looked at a datagram in its data phase.\<close>

definition after_reply :: "system \<Rightarrow> reply_action \<Rightarrow> world \<Rightarrow> system" where
  "after_reply y act w =
     (case act of
        Next_reply s \<Rightarrow> y\<lparr>y_client := w, y_sender := s\<rparr>
      | Leave_loop s \<Rightarrow> y\<lparr>y_client := w, y_sender := s, y_filling := True\<rparr>
      | Quit oc \<Rightarrow> y\<lparr>y_client := w, y_gone := (case oc of Exit c \<Rightarrow> Some c | _ \<Rightarrow> y_gone y)\<rparr>)"

definition client_untouched :: "system \<Rightarrow> system \<Rightarrow> bool" where
  "client_untouched y y' \<longleftrightarrow> y_client y' = y_client y \<and> y_sender y' = y_sender y \<and>
     y_filling y' = y_filling y \<and> y_gone y' = y_gone y \<and> (y_c2s y = [] \<longrightarrow> y_c2s y' = [])"

text \<open>
  A child for a request: the listening process forks it, and it runs up to and including its look at
  the directory; later, with the directory as it is then, it opens the file and acknowledges the request.
\<close>

definition child_looks :: "transfer \<Rightarrow> session \<Rightarrow> buffer \<Rightarrow> world \<Rightarrow> sockaddr_in \<Rightarrow> checked \<Rightarrow> bool" where
  "child_looks t z p w origin ch \<longleftrightarrow> files w = files (y_server (z_sys z)) \<and>
     (\<exists>mal l b. accept_round mal l (Rx_dgram (t_origin t) p) 0 = Some (Responder b origin) \<and>
        check_child w b origin = ch)"

definition child_opens ::
  "session \<Rightarrow> sockaddr_in \<Rightarrow> buffer \<Rightarrow> byte list \<Rightarrow> int \<Rightarrow> world \<Rightarrow> child \<Rightarrow> world \<Rightarrow> bool"
where
  "child_opens z origin b name fs w c w' \<longleftrightarrow>
     open_checked origin (Absent b name fs (w\<lparr>files := files (y_server (z_sys z))\<rparr>)) = Some (c, w')"

inductive session_step :: "transfer \<Rightarrow> byte list \<Rightarrow> session \<Rightarrow> session \<Rightarrow> bool" for t path where
  request:
    "\<not> z_again z \<Longrightarrow> z_asking z \<Longrightarrow> y_gone (z_sys z) = None \<Longrightarrow>
     send_packet (y_client (z_sys z)) listen_at (asked path (t_size t)) = (r, w') \<Longrightarrow>
     session_step t path z
       (z\<lparr>z_sys := (z_sys z)\<lparr>y_client := w', y_gone := (if r = 0 then None else Some CLIENT_RUNTIME_ERROR)\<rparr>,
          z_requests := z_requests z @ newly_sent (y_client (z_sys z)) w'\<rparr>)"
| request_timeout:
    "\<not> z_again z \<Longrightarrow> z_asking z \<Longrightarrow> y_gone (z_sys z) = None \<Longrightarrow>
     session_step t path z (z\<lparr>z_sys := (z_sys z)\<lparr>y_gone := Some CLIENT_TIMEOUT\<rparr>\<rparr>)"
| refused:
    "\<not> z_again z \<Longrightarrow> z_asking z \<Longrightarrow> y_gone (z_sys z) = None \<Longrightarrow> takes z p z1 \<Longrightarrow>
     request_answer (answered t path p) = Some c \<Longrightarrow>
     session_step t path z (z1\<lparr>z_sys := (z_sys z1)\<lparr>y_gone := Some c\<rparr>\<rparr>)"
| accepted:
    "\<not> z_again z \<Longrightarrow> z_asking z \<Longrightarrow> y_gone (z_sys z) = None \<Longrightarrow> takes z p z1 \<Longrightarrow>
     request_answer (answered t path p) = None \<Longrightarrow>
     session_step t path z
       (z1\<lparr>z_asking := False,
           z_sys := (z_sys z1)\<lparr>y_sender := start_sender (t_content t) (answered t path p) now, y_filling := True\<rparr>\<rparr>)"
| child_refuses:
    "\<not> z_again z \<Longrightarrow> z_requests z = p # rest \<Longrightarrow> child_looks t z p w origin (Refused (Ended oc) w') \<Longrightarrow>
     session_step t path z
       (z\<lparr>z_requests := rest, z_notes := z_notes z @ newly_sent w w',
          z_sys := (z_sys z)\<lparr>y_server := (y_server (z_sys z))\<lparr>files := files w'\<rparr>\<rparr>\<rparr>)"
| child_finds_nothing:
    "\<not> z_again z \<Longrightarrow> z_requests z = p # rest \<Longrightarrow> child_looks t z p w origin (Absent b name fs w') \<Longrightarrow>
     session_step t path z (z\<lparr>z_requests := rest, z_looked := z_looked z @ [(origin, Absent b name fs w')]\<rparr>)"
| child_fails:
    "\<not> z_again z \<Longrightarrow> z_looked z = xs @ (origin, Absent b name fs w) # ys \<Longrightarrow>
     child_opens z origin b name fs w (Ended oc) w' \<Longrightarrow> \<not> z_served z \<or> w_fopen w name \<noteq> None \<Longrightarrow>
     session_step t path z
       (z\<lparr>z_looked := xs @ ys, z_notes := z_notes z @ newly_sent w w',
          z_sys := (z_sys z)\<lparr>y_server := (y_server (z_sys z))\<lparr>files := files w'\<rparr>\<rparr>\<rparr>)"
| child_serves:
    "\<not> z_again z \<Longrightarrow> z_looked z = xs @ (origin, Absent b name fs w) # ys \<Longrightarrow>
     child_opens z origin b name fs w (Serving name' fs' b') w' \<Longrightarrow>
     \<not> z_served z \<Longrightarrow> (\<And>k. PAYLOAD_SIZE \<le> w_fwrite w k) \<Longrightarrow>
     session_step t path z
       (z\<lparr>z_looked := xs @ ys, z_served := True,
          z_sys := (z_sys z)\<lparr>y_server := w', y_read := 0, y_expected := 1, y_end := None,
                             y_s2c := y_s2c (z_sys z) @ newly_sent w w'\<rparr>\<rparr>)"
| child_opens_again:
    "\<not> z_again z \<Longrightarrow> z_looked z = xs @ (origin, Absent b name fs w) # ys \<Longrightarrow> z_served z \<Longrightarrow>
     w_fopen w name = None \<Longrightarrow> session_step t path z (z\<lparr>z_again := True\<rparr>)"
| note_taken:
    "\<not> z_again z \<Longrightarrow> \<not> z_asking z \<Longrightarrow> y_gone (z_sys z) = None \<Longrightarrow> \<not> y_filling (z_sys z) \<Longrightarrow>
     z_notes z = xs @ p # ys \<Longrightarrow> length junk = PACKET_SIZE \<Longrightarrow>
     handle_reply (t_size t) (y_client (z_sys z))
       ((y_sender (z_sys z))\<lparr>s_read := int (length p), s_buffer := put_at junk 0 p\<rparr>) = Some (act, w') \<Longrightarrow>
     session_step t path z (z\<lparr>z_notes := xs @ ys, z_sys := after_reply (z_sys z) act w'\<rparr>)"
| transfers:
    "\<not> z_again z \<Longrightarrow> \<not> z_asking z \<Longrightarrow> step t (z_sys z) y' \<Longrightarrow> session_step t path z (z\<lparr>z_sys := y'\<rparr>)"
| meanwhile:
    "\<not> z_again z \<Longrightarrow> z_asking z \<Longrightarrow> z_served z \<Longrightarrow> step t (z_sys z) y' \<Longrightarrow> client_untouched (z_sys z) y' \<Longrightarrow>
     session_step t path z (z\<lparr>z_sys := y'\<rparr>)"
| other_files:
    "\<not> z_again z \<Longrightarrow> F (t_name t) = files (y_server (z_sys z)) (t_name t) \<Longrightarrow>
     session_step t path z (z\<lparr>z_sys := (z_sys z)\<lparr>y_server := (y_server (z_sys z))\<lparr>files := F\<rparr>\<rparr>\<rparr>)"
| lose_request: "\<not> z_again z \<Longrightarrow> z_requests z = xs @ p # ys \<Longrightarrow> session_step t path z (z\<lparr>z_requests := xs @ ys\<rparr>)"
| duplicate_request:
    "\<not> z_again z \<Longrightarrow> z_requests z = xs @ p # ys \<Longrightarrow> session_step t path z (z\<lparr>z_requests := xs @ p # p # ys\<rparr>)"
| lose_note: "\<not> z_again z \<Longrightarrow> z_notes z = xs @ p # ys \<Longrightarrow> session_step t path z (z\<lparr>z_notes := xs @ ys\<rparr>)"
| duplicate_note:
    "\<not> z_again z \<Longrightarrow> z_notes z = xs @ p # ys \<Longrightarrow> session_step t path z (z\<lparr>z_notes := xs @ p # p # ys\<rparr>)"

abbreviation session_steps :: "transfer \<Rightarrow> byte list \<Rightarrow> session \<Rightarrow> session \<Rightarrow> bool" where
  "session_steps t path \<equiv> (session_step t path)\<^sup>*\<^sup>*"

text \<open>The start: a running client that has sent nothing yet, and no file of the name on the server.\<close>

definition start_session :: "transfer \<Rightarrow> session \<Rightarrow> bool" where
  "start_session t z \<longleftrightarrow> z_asking z \<and> \<not> z_served z \<and> \<not> z_again z \<and> z_requests z = [] \<and> z_looked z = [] \<and> z_notes z = [] \<and>
     y_gone (z_sys z) = None \<and> y_c2s (z_sys z) = [] \<and> y_s2c (z_sys z) = [] \<and>
     files (y_server (z_sys z)) (t_name t) = None"

text \<open>What is asked for: a request that fits, for the file of the transfer under its base name.\<close>

definition session_ok :: "transfer \<Rightarrow> byte list \<Rightarrow> bool" where
  "session_ok t path \<longleftrightarrow> askable path (t_size t) \<and> t_name t = base_name path \<and> malloc_serves WINDOW_SIZE (t_malloc t)"

section \<open>The invariant\<close>

text \<open>Only these datagrams ever travel outside the transfer itself, and children have looked for this file only.\<close>

definition regular :: "transfer \<Rightarrow> byte list \<Rightarrow> session \<Rightarrow> bool" where
  "regular t path z \<longleftrightarrow> set (z_requests z) \<subseteq> {asked path (t_size t)} \<and> set (z_notes z) \<subseteq> {control CMD_EXISTS 0} \<and>
     (\<forall>x\<in>set (z_looked z). \<exists>origin b w. x = (origin, Absent b (t_name t) (t_size t) w) \<and> errno w = ENOENT)"

text \<open>The client asks and nobody serves it; it asks and a child has offered to serve it; it transfers its file.\<close>

definition unserved :: "transfer \<Rightarrow> session \<Rightarrow> bool" where
  "unserved t z \<longleftrightarrow> z_asking z \<and> \<not> z_served z \<and> y_gone (z_sys z) \<noteq> Some 0 \<and>
     y_s2c (z_sys z) = [] \<and> y_c2s (z_sys z) = [] \<and> files (y_server (z_sys z)) (t_name t) = None"

definition offered :: "transfer \<Rightarrow> session \<Rightarrow> nat \<Rightarrow> bool" where
  "offered t z k \<longleftrightarrow> z_asking z \<and> z_served z \<and> y_gone (z_sys z) \<noteq> Some 0 \<and>
     y_s2c (z_sys z) = replicate k (control CMD_ACK 1) \<and> y_c2s (z_sys z) = [] \<and>
     server_inv t (z_sys z) 0 \<and> y_end (z_sys z) \<noteq> Some Fin_received"

definition connected :: "transfer \<Rightarrow> session \<Rightarrow> bool" where
  "connected t z \<longleftrightarrow> \<not> z_asking z \<and> z_served z \<and> (\<exists>base E N ms as. transfer_inv t (z_sys z) base E N ms as)"

definition session_inv :: "transfer \<Rightarrow> byte list \<Rightarrow> session \<Rightarrow> bool" where
  "session_inv t path z \<longleftrightarrow> z_again z \<or> regular t path z \<and> (unserved t z \<or> (\<exists>k. offered t z k) \<or> connected t z)"

lemmas phase_defs = unserved_def offered_def connected_def

lemma start_session_inv: "start_session t z \<Longrightarrow> session_inv t path z"
  by (simp add: start_session_def session_inv_def regular_def unserved_def)

lemma answers:
  "request_answer (answered t path (control CMD_EXISTS 0)) = Some CLIENT_FILE_EXISTS"
  "request_answer (answered t path (control CMD_ACK 1)) = None"
  by (simp_all add: answered_def control_def create_packet_control request_answer_heard)

text \<open>Changes that the phases do not see.\<close>

lemma server_inv_cong:
  assumes "server_inv t y E" and "files (y_server y') (t_name t) = files (y_server y) (t_name t)"
    and "w_fwrite (y_server y') = w_fwrite (y_server y)" and "y_read y' = y_read y" and "y_expected y' = y_expected y"
    and "y_end y' = y_end y" and "s_written (y_sender y') = s_written (y_sender y)"
  shows "server_inv t y' E"
  using assms by (simp add: server_inv_def server_has_def)

lemma transfer_inv_files:
  assumes "transfer_inv t y base E N ms as" and "F (t_name t) = files (y_server y) (t_name t)"
  shows "transfer_inv t (y\<lparr>y_server := (y_server y)\<lparr>files := F\<rparr>\<rparr>) base E N ms as"
  using assms by (auto simp: transfer_inv_def intro: server_inv_cong)

lemma phase_files:
  assumes "unserved t z \<or> (\<exists>k. offered t z k) \<or> connected t z" and "F (t_name t) = files (y_server (z_sys z)) (t_name t)"
    and "z_sys z' = (z_sys z)\<lparr>y_server := (y_server (z_sys z))\<lparr>files := F\<rparr>\<rparr>"
    and "z_asking z' = z_asking z" and "z_served z' = z_served z"
  shows "unserved t z' \<or> (\<exists>k. offered t z' k) \<or> connected t z'"
  using assms(1)
proof (elim disjE exE)
  fix k
  assume "offered t z k"
  then have "offered t z' k" using assms(2-5) by (auto simp: offered_def intro: server_inv_cong)
  then show ?thesis by blast
next
  assume "connected t z"
  then show ?thesis using assms(2-5) transfer_inv_files by (fastforce simp: connected_def)
qed (use assms(2-5) in \<open>simp add: unserved_def\<close>)

text \<open>Notes in the data phase change nothing but the client's buffer.\<close>

lemma exists_note:
  assumes "transfer_inv t y base E N ms as" and "\<not> y_filling y" and "length junk = PACKET_SIZE"
    and "handle_reply (t_size t) (y_client y)
      ((y_sender y)\<lparr>s_read := r, s_buffer := put_at junk 0 (control CMD_EXISTS 0)\<rparr>) = Some (act, w')"
  shows "transfer_inv t (after_reply y act w') base E N ms as"
proof -
  let ?s = "(y_sender y)\<lparr>s_read := r, s_buffer := put_at junk 0 (control CMD_EXISTS 0)\<rparr>"
  have "s_buffer ?s ! 0 = CMD_EXISTS" by (simp add: control_def create_packet_control nth_put_at_0)
  then have "act = Next_reply ?s" "w' = y_client y" using assms(4) by (simp_all add: handle_reply_def)
  with assms(1-3) show ?thesis
    by (auto simp: transfer_inv_def sending_def after_reply_def intro: server_inv_cong)
qed

text \<open>What the children do with the client's request.\<close>

lemma child_looks_asked:
  assumes "child_looks t z (asked path (t_size t)) w origin ch" and "session_ok t path"
  obtains (refused) oc w' where "ch = Refused (Ended oc) w'" "files w' = files (y_server (z_sys z))"
      "set (newly_sent w w') \<subseteq> {control CMD_EXISTS 0}"
    | (absent) b where "ch = Absent b (t_name t) (t_size t) (w\<lparr>errno := ENOENT\<rparr>)"
      "files (y_server (z_sys z)) (t_name t) = None"
proof -
  have ask: "askable path (t_size t)" "t_name t = base_name path" using assms(2) by (simp_all add: session_ok_def)
  have fw: "files w = files (y_server (z_sys z))" using assms(1) by (simp add: child_looks_def)
  have c: "check_child w (heard (asked path (t_size t))) origin = ch"
    using assms(1) heard_asked(7,8) [OF ask(1)]
    by (auto simp: child_looks_def accept_round_def heard_def Let_def split: if_splits)
  from ask(1) show thesis
    by (cases rule: check_child_asked [where w = w and origin = origin]) (use c ask(2) fw refused absent in auto)
qed

lemma child_opens_cases:
  assumes "child_opens z origin b name fs w c w'" and "errno w = ENOENT" and "files (y_server (z_sys z)) name = None"
  obtains (ended) oc where "c = Ended oc" "files w' = files (y_server (z_sys z))"
      "set (newly_sent w w') \<subseteq> {control CMD_EXISTS 0}"
    | (serving) "c = Serving name fs b" "files w' = (files (y_server (z_sys z)))(name \<mapsto> [])"
      "newly_sent w w' = [control CMD_ACK 1]" "same_answers w w'"
proof -
  let ?w = "w\<lparr>files := files (y_server (z_sys z))\<rparr>"
  have "begin_file ?w b origin name fs = Some (c, w')" "errno ?w = ENOENT" "files ?w name = None"
    using assms by (simp_all add: child_opens_def open_checked_def)
  then show thesis
  proof (cases rule: begin_file_cases)
    case (ended oc)
    then show thesis using that(1) by (simp add: newly_sent_def)
  next
    case serving
    then show thesis using that(2) by (simp add: newly_sent_def same_answers_def)
  qed
qed

lemma replicate_split:
  assumes "replicate k x = xs @ p # ys"
  shows "xs @ ys = replicate (k - 1) x" "xs @ p # p # ys = replicate (Suc k) x" "p = x"
    "xs = [] \<Longrightarrow> ys = replicate (k - 1) x"
proof -
  have l: "k = Suc (length xs + length ys)" using arg_cong [OF assms, of length] by simp
  have e: "\<forall>u\<in>set (xs @ p # ys). u = x" by (simp add: assms [symmetric])
  show "xs @ ys = replicate (k - 1) x" using l e by (intro replicate_eqI) auto
  then show "xs = [] \<Longrightarrow> ys = replicate (k - 1) x" by simp
  show "xs @ p # p # ys = replicate (Suc k) x" using l e by (intro replicate_eqI) auto
  show "p = x" using e by simp
qed

lemma offered_step:
  assumes off: "offered t z k" and "step t (z_sys z) y'" and "client_untouched (z_sys z) y'"
  shows "\<exists>k'. offered t (z\<lparr>z_sys := y'\<rparr>) k' \<and> (k = 0 \<longrightarrow> k' = 0)"
  using assms(2)
proof cases
  case server_timeout
  then have "offered t (z\<lparr>z_sys := y'\<rparr>) k"
    using off by (simp add: offered_def server_inv_def unlink_file_def)
  then show ?thesis by blast
next
  case (lose_reply xs p ys)
  then have "replicate k (control CMD_ACK 1) = xs @ p # ys" using off by (simp add: offered_def)
  then have "offered t (z\<lparr>z_sys := y'\<rparr>) (k - 1)"
    using replicate_split(1) lose_reply off by (auto simp: offered_def intro: server_inv_cong)
  then show ?thesis by auto
next
  case (client_reply p rest junk s' w')
  then have "y' = (z_sys z)\<lparr>y_s2c := rest\<rparr>" and r: "replicate k (control CMD_ACK 1) = [] @ p # rest"
    using assms(1,3) by (simp_all add: client_untouched_def offered_def)
  then have "offered t (z\<lparr>z_sys := y'\<rparr>) (k - 1)"
    using replicate_split(1) [OF r] off by (auto simp: offered_def intro: server_inv_cong)
  then show ?thesis by auto
next
  case (duplicate_reply xs p ys)
  then have r: "replicate k (control CMD_ACK 1) = xs @ p # ys" using off by (simp add: offered_def)
  then have "offered t (z\<lparr>z_sys := y'\<rparr>) (Suc k)"
    using replicate_split(2) [OF r] duplicate_reply off
    by (auto simp: offered_def intro: server_inv_cong simp del: replicate_Suc)
  with r show ?thesis by (cases k) auto
next
  case (server_looks w')
  then have "offered t (z\<lparr>z_sys := y'\<rparr>) k"
    using off by (auto simp: offered_def server_inv_def server_has_def quiet_def same_answers_def)
  then show ?thesis by auto
next
  case client_fin
  then have "offered t (z\<lparr>z_sys := y'\<rparr>) k"
    using assms(1,3) by (auto simp: offered_def client_untouched_def intro: server_inv_cong)
  then show ?thesis by auto
qed (use assms(1,3) in \<open>simp_all add: offered_def client_untouched_def\<close>)

text \<open>Before the client is accepted, the server has nothing to do with the client's variables.\<close>

lemma offered_server:
  assumes "offered t z k" and "y_server y' = y_server (z_sys z)" and "y_read y' = y_read (z_sys z)"
    and "y_expected y' = y_expected (z_sys z)" and "y_end y' = y_end (z_sys z)"
  shows "server_inv t y' 0"
  using assms by (auto simp: offered_def server_inv_def server_has_def)

lemma offered_accepted:
  assumes "offered t z k" and "y_gone (z_sys z) = None" and "session_ok t path"
  shows "connected t (z\<lparr>z_asking := False,
      z_sys := (z_sys z)\<lparr>y_s2c := replicate n (control CMD_ACK 1),
        y_sender := start_sender (t_content t) (answered t path (control CMD_ACK 1)) now, y_filling := True\<rparr>\<rparr>)"
    (is "connected t (z\<lparr>z_asking := False, z_sys := ?y\<rparr>)")
proof -
  have l: "length (answered t path (control CMD_ACK 1)) = PACKET_SIZE"
    using assms(3) by (simp add: answered_def request_buffer_def session_ok_def askable_def control_def create_packet_control)
  have "server_inv t ?y 0" by (rule offered_server [OF assms(1)]) simp_all
  then have "transfer_inv t ?y 0 0 0 [] (replicate n 1)"
    using assms by (intro fresh_inv [OF _ l]) (simp_all add: offered_def)
  then have "\<exists>base E N ms as. transfer_inv t ?y base E N ms as" by blast
  with assms(1) show ?thesis by (simp add: connected_def offered_def)
qed

text \<open>While the client asks, it takes only acknowledgements of the child that serves it, and refusals.\<close>

lemma asking_takes:
  assumes "takes z p z1" and "regular t path z" and "unserved t z \<or> (\<exists>k. offered t z k)"
  obtains (refusal) xs ys where "p = control CMD_EXISTS 0" "z_notes z = xs @ p # ys" "z1 = z\<lparr>z_notes := xs @ ys\<rparr>"
    | (ack) k where "p = control CMD_ACK 1" "offered t z (Suc k)"
      "z1 = z\<lparr>z_sys := (z_sys z)\<lparr>y_s2c := replicate k (control CMD_ACK 1)\<rparr>\<rparr>"
  using assms(1) unfolding takes_def
proof (elim disjE exE conjE)
  fix rest
  assume r: "y_s2c (z_sys z) = p # rest" "z1 = z\<lparr>z_sys := (z_sys z)\<lparr>y_s2c := rest\<rparr>\<rparr>"
  then obtain k where k: "offered t z k" using assms(3) by (auto simp: unserved_def)
  then have e: "replicate k (control CMD_ACK 1) = [] @ p # rest" using r by (simp add: offered_def)
  then obtain n where "k = Suc n" by (cases k) auto
  with k r(2) replicate_split(3,4) [OF e] show thesis by (intro ack) simp_all
next
  fix xs ys
  assume "z_notes z = xs @ p # ys" "z1 = z\<lparr>z_notes := xs @ ys\<rparr>"
  with assms(2) show thesis by (intro refusal) (auto simp: regular_def)
qed

lemma asking_phase: "z_asking z \<Longrightarrow> unserved t z \<or> (\<exists>k. offered t z k) \<or> connected t z \<Longrightarrow> unserved t z \<or> (\<exists>k. offered t z k)"
  by (auto simp: connected_def)

lemma request_sent:
  assumes "send_packet w a p = (r, w')" and "wf_packet p"
  shows "set (newly_sent w w') \<subseteq> {p}"
  using send_packet_newly [OF assms refl] by (auto simp: if_sent_def)

text \<open>The request phase: the client's part and the network keep the phase.\<close>

lemma asking_cong:
  assumes "unserved t z \<or> (\<exists>k. offered t z k)" and "z_asking z' = z_asking z" and "z_served z' = z_served z"
    and "y_gone (z_sys z') \<noteq> Some 0" and "y_c2s (z_sys z') = y_c2s (z_sys z)" and "y_s2c (z_sys z') = y_s2c (z_sys z)"
    and "y_server (z_sys z') = y_server (z_sys z)" and "y_sender (z_sys z') = y_sender (z_sys z)"
    and "y_read (z_sys z') = y_read (z_sys z)" and "y_expected (z_sys z') = y_expected (z_sys z)"
    and "y_end (z_sys z') = y_end (z_sys z)"
  shows "unserved t z' \<or> (\<exists>k. offered t z' k)"
  using assms by (auto simp: unserved_def offered_def server_inv_def server_has_def)

text \<open>The steps, by who takes them: the client while it asks, the children, the transfer, the network.\<close>

lemma client_asks_inv:
  assumes "session_inv t path z" and "\<not> z_again z" and "z_asking z" and "z_requests z' = z_requests z @ rs"
    and "set rs \<subseteq> {asked path (t_size t)}" and "z_notes z' = z_notes z" and "z_looked z' = z_looked z" and "z_asking z' = z_asking z"
    and "z_served z' = z_served z" and "z_sys z' = (z_sys z)\<lparr>y_client := w, y_gone := g\<rparr>" and "g \<noteq> Some 0"
  shows "session_inv t path z'"
  using assms asking_cong [of t z z'] asking_phase [of z t] by (auto simp: session_inv_def regular_def)

lemma client_hears_inv:
  assumes inv: "session_inv t path z" "\<not> z_again z" "z_asking z" and tk: "takes z p z1" and c: "c \<noteq> 0"
  shows "session_inv t path (z1\<lparr>z_sys := (z_sys z1)\<lparr>y_gone := Some c\<rparr>\<rparr>)" (is "session_inv t path ?z")
proof -
  have reg: "regular t path z" and ph: "unserved t z \<or> (\<exists>k. offered t z k)"
    using inv asking_phase by (auto simp: session_inv_def)
  from tk reg ph show ?thesis
  proof (cases rule: asking_takes)
    case (refusal xs ys)
    then have "regular t path ?z" using reg by (auto simp: regular_def)
    moreover have "unserved t ?z \<or> (\<exists>k. offered t ?z k)" using refusal c by (intro asking_cong [OF ph]) simp_all
    ultimately show ?thesis by (auto simp: session_inv_def)
  next
    case (ack k)
    then have "server_inv t (z_sys ?z) 0" by (intro offered_server [OF ack(2)]) simp_all
    with ack c have "offered t ?z k" by (simp add: offered_def)
    then show ?thesis using ack(3) reg by (auto simp: session_inv_def regular_def)
  qed
qed

lemma client_accepted_inv:
  assumes ok: "session_ok t path" and inv: "session_inv t path z" "\<not> z_again z" "z_asking z"
    and tk: "takes z p z1" and gone: "y_gone (z_sys z) = None" and ans: "request_answer (answered t path p) = None"
  shows "session_inv t path (z1\<lparr>z_asking := False,
      z_sys := (z_sys z1)\<lparr>y_sender := start_sender (t_content t) (answered t path p) now, y_filling := True\<rparr>\<rparr>)"
proof -
  have reg: "regular t path z" and ph: "unserved t z \<or> (\<exists>k. offered t z k)"
    using inv asking_phase by (auto simp: session_inv_def)
  from tk reg ph show ?thesis
  proof (cases rule: asking_takes)
    case refusal
    then show ?thesis using ans answers(1) by simp
  next
    case (ack k)
    then show ?thesis
      using offered_accepted [OF ack(2) gone ok, where n = k] reg ack(1,3)
      by (simp add: session_inv_def regular_def)
  qed
qed

text \<open>A child that is refused, by the checks or by the file system, leaves nothing but a refusal.\<close>

lemma refusing_child:
  assumes "session_ok t path" and "regular t path z" and "z_requests z = p # rest"
    and st: "child_looks t z p w origin (Refused (Ended oc) w')"
  shows "files w' = files (y_server (z_sys z))" "set (newly_sent w w') \<subseteq> {control CMD_EXISTS 0}"
proof -
  have p: "p = asked path (t_size t)" using assms(2,3) by (simp add: regular_def)
  show "files w' = files (y_server (z_sys z))" "set (newly_sent w w') \<subseteq> {control CMD_EXISTS 0}"
    using st [unfolded p] assms(1) by (cases rule: child_looks_asked; simp)+
qed

lemma failing_child:
  assumes "regular t path z" and "z_looked z = xs @ (origin, Absent b name fs w) # ys"
    and op: "child_opens z origin b name fs w (Ended oc) w'"
    and "files (y_server (z_sys z)) (t_name t) = None \<or> w_fopen w name \<noteq> None"
  shows "files w' = files (y_server (z_sys z))" "set (newly_sent w w') \<subseteq> {control CMD_EXISTS 0}"
proof -
  have w: "name = t_name t" "errno w = ENOENT" using assms(1,2) by (auto simp: regular_def)
  have "files w' = files (y_server (z_sys z)) \<and> set (newly_sent w w') \<subseteq> {control CMD_EXISTS 0}"
    using assms(4)
  proof
    assume "files (y_server (z_sys z)) (t_name t) = None"
    then have "files (y_server (z_sys z)) name = None" using w(1) by simp
    with op w(2) show ?thesis by (cases rule: child_opens_cases) simp_all
  next
    assume "w_fopen w name \<noteq> None"
    then show ?thesis
      using op begin_file_denied [of "w\<lparr>files := files (y_server (z_sys z))\<rparr>" b origin name fs "Ended oc" w']
      by (auto simp: child_opens_def open_checked_def newly_sent_def)
  qed
  then show "files w' = files (y_server (z_sys z))" "set (newly_sent w w') \<subseteq> {control CMD_EXISTS 0}" by simp_all
qed

lemma quiet_child_inv:
  assumes inv: "session_inv t path z" "\<not> z_again z" and "F = files (y_server (z_sys z))"
    and "set ns \<subseteq> {control CMD_EXISTS 0}" and "set (z_requests z') \<subseteq> set (z_requests z)" and "set (z_looked z') \<subseteq> set (z_looked z)"
    and "z_notes z' = z_notes z @ ns" and "z_asking z' = z_asking z" and "z_served z' = z_served z"
    and "z_sys z' = (z_sys z)\<lparr>y_server := (y_server (z_sys z))\<lparr>files := F\<rparr>\<rparr>"
  shows "session_inv t path z'"
proof -
  have reg: "regular t path z" and ph: "unserved t z \<or> (\<exists>k. offered t z k) \<or> connected t z"
    using inv by (auto simp: session_inv_def)
  have "unserved t z' \<or> (\<exists>k. offered t z' k) \<or> connected t z'" using assms(3,8-10) by (intro phase_files [OF ph, of F]) simp_all
  moreover have "regular t path z'" using reg assms(4-7) by (auto simp: regular_def)
  ultimately show ?thesis by (simp add: session_inv_def)
qed

text \<open>A child that finds no file; one that opens it.\<close>

lemma absent_child:
  assumes "session_ok t path" and "regular t path z" and "z_requests z = p # rest"
    and st: "child_looks t z p w origin (Absent b name fs w')"
  shows "name = t_name t" "fs = t_size t" "errno w' = ENOENT" "files (y_server (z_sys z)) (t_name t) = None"
proof -
  have p: "p = asked path (t_size t)" using assms(2,3) by (simp add: regular_def)
  show "name = t_name t" "fs = t_size t" "errno w' = ENOENT" "files (y_server (z_sys z)) (t_name t) = None"
    using st [unfolded p] assms(1) by (cases rule: child_looks_asked; simp)+
qed

lemma child_finds_nothing_inv:
  assumes ok: "session_ok t path" and inv: "session_inv t path z" "\<not> z_again z"
    and "z_requests z = p # rest" and st: "child_looks t z p w origin (Absent b name fs w')"
  shows "session_inv t path (z\<lparr>z_requests := rest, z_looked := z_looked z @ [(origin, Absent b name fs w')]\<rparr>)"
    (is "session_inv t path ?z")
proof -
  have reg: "regular t path z" and ph: "unserved t z \<or> (\<exists>k. offered t z k) \<or> connected t z"
    using inv by (auto simp: session_inv_def)
  have "regular t path ?z" using reg assms(4) absent_child(1-3) [OF ok reg assms(4) st] by (auto simp: regular_def)
  moreover have "unserved t ?z \<or> (\<exists>k. offered t ?z k) \<or> connected t ?z" using ph by (simp add: phase_defs)
  ultimately show ?thesis by (simp add: session_inv_def)
qed

lemma serving_child:
  assumes "regular t path z" and "unserved t z" and "z_looked z = xs @ (origin, Absent b name fs w) # ys"
    and op: "child_opens z origin b name fs w (Serving name' fs' b') w'"
  shows "files w' = (files (y_server (z_sys z)))(t_name t \<mapsto> [])" "newly_sent w w' = [control CMD_ACK 1]" "same_answers w w'"
proof -
  have w: "name = t_name t" "errno w = ENOENT" using assms(1,3) by (auto simp: regular_def)
  have none: "files (y_server (z_sys z)) name = None" using assms(2) w(1) by (simp add: unserved_def)
  show "files w' = (files (y_server (z_sys z)))(t_name t \<mapsto> [])" "newly_sent w w' = [control CMD_ACK 1]" "same_answers w w'"
    using op w(2) none by (cases rule: child_opens_cases; simp add: w(1))+
qed

lemma child_serves_inv:
  assumes inv: "session_inv t path z" "\<not> z_again z" and lk: "z_looked z = xs @ (origin, Absent b name fs w) # ys"
    and op: "child_opens z origin b name fs w (Serving name' fs' b') w'" and "\<not> z_served z"
    and fw: "\<And>k. PAYLOAD_SIZE \<le> w_fwrite w k"
  shows "session_inv t path (z\<lparr>z_looked := xs @ ys, z_served := True,
          z_sys := (z_sys z)\<lparr>y_server := w', y_read := 0, y_expected := 1, y_end := None,
                             y_s2c := y_s2c (z_sys z) @ newly_sent w w'\<rparr>\<rparr>)" (is "session_inv t path ?z")
proof -
  have reg: "regular t path z" and ph: "unserved t z"
    using inv assms(5) by (auto simp: session_inv_def phase_defs)
  have "offered t ?z 1"
    using ph fw serving_child [OF reg ph lk op]
    by (simp add: unserved_def offered_def server_inv_def server_has_def seq16_def same_answers_def)
  moreover have "regular t path ?z" using reg lk by (auto simp: regular_def)
  ultimately show ?thesis by (auto simp: session_inv_def)
qed

lemma note_taken_inv:
  assumes inv: "session_inv t path z" "\<not> z_again z" "\<not> z_asking z" and "\<not> y_filling (z_sys z)"
    and n: "z_notes z = xs @ p # ys" and "length junk = PACKET_SIZE"
    and "handle_reply (t_size t) (y_client (z_sys z))
       ((y_sender (z_sys z))\<lparr>s_read := r, s_buffer := put_at junk 0 p\<rparr>) = Some (act, w')"
  shows "session_inv t path (z\<lparr>z_notes := xs @ ys, z_sys := after_reply (z_sys z) act w'\<rparr>)"
proof -
  have reg: "regular t path z" and con: "connected t z" using inv by (auto simp: session_inv_def phase_defs)
  have "p = control CMD_EXISTS 0" using reg n by (simp add: regular_def)
  then have "connected t (z\<lparr>z_notes := xs @ ys, z_sys := after_reply (z_sys z) act w'\<rparr>)"
    using con assms(4,6,7) exists_note by (fastforce simp: connected_def)
  moreover have "regular t path (z\<lparr>z_notes := xs @ ys, z_sys := after_reply (z_sys z) act w'\<rparr>)"
    using reg n by (auto simp: regular_def)
  ultimately show ?thesis by (simp add: session_inv_def)
qed

lemma transfers_inv:
  assumes ok: "session_ok t path" and inv: "session_inv t path z" "\<not> z_again z" and "step t (z_sys z) y'"
    and "z_asking z \<Longrightarrow> z_served z \<and> client_untouched (z_sys z) y'"
  shows "session_inv t path (z\<lparr>z_sys := y'\<rparr>)"
proof -
  have reg: "regular t path (z\<lparr>z_sys := y'\<rparr>)" and ph: "unserved t z \<or> (\<exists>k. offered t z k) \<or> connected t z"
    using inv by (auto simp: session_inv_def regular_def)
  show ?thesis
  proof (cases "z_asking z")
    case True
    then obtain k where "offered t z k" using ph assms(5) by (auto simp: unserved_def connected_def)
    with assms(4,5) True offered_step have "\<exists>k. offered t (z\<lparr>z_sys := y'\<rparr>) k" by blast
    with reg show ?thesis by (simp add: session_inv_def)
  next
    case False
    then obtain base E N ms as where "z_served z" "transfer_inv t (z_sys z) base E N ms as"
      using ph by (auto simp: phase_defs)
    with step_inv assms(4) ok have "connected t (z\<lparr>z_sys := y'\<rparr>)"
      using False by (auto simp: connected_def session_ok_def)
    with reg show ?thesis by (simp add: session_inv_def)
  qed
qed

text \<open>The network loses and duplicates requests and notes; other files of the directory change.\<close>

lemma network_inv:
  assumes "session_inv t path z" and "set (z_requests z') \<subseteq> set (z_requests z)" and "set (z_notes z') \<subseteq> set (z_notes z)"
    and "z_sys z' = z_sys z" and "z_asking z' = z_asking z" and "z_served z' = z_served z" and "z_again z' = z_again z"
    and "z_looked z' = z_looked z"
  shows "session_inv t path z'"
proof -
  have "unserved t z' = unserved t z" "connected t z' = connected t z" "offered t z' = offered t z"
    using assms(4-6) by (simp_all add: unserved_def connected_def offered_def fun_eq_iff)
  with assms show ?thesis by (auto simp: session_inv_def regular_def)
qed

lemma other_files_inv:
  assumes "session_inv t path z" and "F (t_name t) = files (y_server (z_sys z)) (t_name t)" and "\<not> z_again z"
  shows "session_inv t path (z\<lparr>z_sys := (z_sys z)\<lparr>y_server := (y_server (z_sys z))\<lparr>files := F\<rparr>\<rparr>\<rparr>)"
  using assms phase_files [of t z F "z\<lparr>z_sys := (z_sys z)\<lparr>y_server := (y_server (z_sys z))\<lparr>files := F\<rparr>\<rparr>\<rparr>"]
  by (auto simp: session_inv_def regular_def)

lemma session_step_inv:
  assumes step: "session_step t path z z'" and ok: "session_ok t path" and inv: "session_inv t path z"
  shows "session_inv t path z'"
  using step
proof cases
  case (request r w' listen_at)
  have "wf_packet (asked path (t_size t))" using heard_asked(5) ok by (simp add: session_ok_def)
  with request show ?thesis
    using request_sent [OF request(5)] client_asks_inv [OF inv request(2,3), of z']
    by (simp add: CLIENT_RUNTIME_ERROR_def)
next
  case request_timeout
  then show ?thesis
    using client_asks_inv [OF inv request_timeout(2,3), of z' "[]" _ "y_client (z_sys z)"] by (simp add: CLIENT_TIMEOUT_def)
next
  case (refused p z1 c)
  then have "c \<noteq> 0" by (auto simp: request_answer_def CLIENT_FILE_EXISTS_def CLIENT_BAD_REQUEST_def split: if_splits)
  then show ?thesis using client_hears_inv [OF inv refused(2,3,5)] refused(1) by simp
next
  case accepted
  then show ?thesis using client_accepted_inv [OF ok inv] by blast
next
  case (child_refuses p rest w origin oc w')
  then have "regular t path z" using inv by (simp add: session_inv_def)
  note f = refusing_child [OF ok this child_refuses(3,4)]
  show ?thesis by (rule quiet_child_inv [OF inv _ f]) (use child_refuses in auto)
next
  case child_finds_nothing
  then show ?thesis using child_finds_nothing_inv [OF ok inv] by blast
next
  case (child_fails xs origin b name fs w ys oc w')
  then have reg: "regular t path z" using inv by (simp add: session_inv_def)
  have "files (y_server (z_sys z)) (t_name t) = None \<or> w_fopen w name \<noteq> None"
    using child_fails(2,5) inv by (auto simp: session_inv_def phase_defs)
  note f = failing_child [OF reg child_fails(3,4) this]
  show ?thesis by (rule quiet_child_inv [OF inv _ f]) (use child_fails in auto)
next
  case child_serves
  then show ?thesis using child_serves_inv [OF inv] by blast
next
  case child_opens_again
  then show ?thesis by (simp add: session_inv_def)
next
  case note_taken
  then show ?thesis using note_taken_inv [OF inv] by blast
next
  case transfers
  then show ?thesis using transfers_inv [OF ok inv] by blast
next
  case meanwhile
  then show ?thesis using transfers_inv [OF ok inv] by blast
next
  case other_files
  then show ?thesis using other_files_inv [OF inv] by blast
qed (rule network_inv [OF inv]; auto)+

interpretation whole_session: invariant_system "start_session t" "session_step t path"
  "\<lambda>z. session_ok t path \<longrightarrow> session_inv t path z"
  by unfold_locales (auto intro: start_session_inv session_step_inv)

section \<open>Progress\<close>

text \<open>A child on a machine where every call succeeds.\<close>

abbreviation calm_child :: "session \<Rightarrow> world" where
  "calm_child z \<equiv> silent_world\<lparr>files := files (y_server (z_sys z))\<rparr>"

lemma forks_child:
  assumes "session_ok t path"
  shows "accept_round mal l (Rx_dgram (t_origin t) (asked path (t_size t))) 0 =
    Some (Responder (heard (asked path (t_size t))) (t_origin t))"
proof -
  have "askable path (t_size t)" using assms by (simp add: session_ok_def)
  from heard_asked(7,8) [OF this] show ?thesis by (simp add: accept_round_def heard_def Let_def)
qed

lemma calm_child_looks:
  assumes "session_ok t path"
  shows "\<exists>b. child_looks t z (asked path (t_size t)) (calm_child z) (t_origin t)
           (if files (y_server (z_sys z)) (t_name t) = None
            then Absent b (t_name t) (t_size t) ((calm_child z)\<lparr>errno := ENOENT\<rparr>)
            else (case deny (calm_child z) (t_origin t) CMD_EXISTS FILE_EXISTS of (oc, w') \<Rightarrow> Refused (Ended oc) w'))"
proof -
  have ask: "askable path (t_size t)" "t_name t = base_name path" using assms by (simp_all add: session_ok_def)
  note ha = heard_asked [OF ask(1)]
  obtain sep where sep: "strchr (drop HEADER_SIZE (heard (asked path (t_size t)))) 124 = Some sep" using ha(3) by blast
  have "fst (setup_socket (calm_child z) 0) = 0" by (simp add: setup_socket_def silent_world_def)
  moreover have "\<not> name_overrun (calm_child z) ((drop HEADER_SIZE (heard (asked path (t_size t))))[sep := 0])
      (strrchr (drop HEADER_SIZE (heard (asked path (t_size t)))) 47)"
    by (rule no_overrun) (simp add: silent_world_def)
  ultimately have "check_child (calm_child z) (heard (asked path (t_size t))) (t_origin t) =
      (if files (y_server (z_sys z)) (t_name t) = None
       then Absent (put_at (heard (asked path (t_size t))) HEADER_SIZE ((drop HEADER_SIZE (heard (asked path (t_size t))))[sep := 0]))
         (t_name t) (t_size t) ((calm_child z)\<lparr>errno := ENOENT\<rparr>)
       else (case deny (calm_child z) (t_origin t) CMD_EXISTS FILE_EXISTS of (oc, w') \<Rightarrow> Refused (Ended oc) w'))"
    using check_child_request [OF _ ha(1,2) sep ha(4), of "calm_child z" "t_origin t", folded ask(2)] by simp
  with forks_child [OF assms] show ?thesis by (auto simp: child_looks_def)
qed

lemma calm_child_opens:
  assumes "files (y_server (z_sys z')) = files (y_server (z_sys z))"
  shows "\<exists>w'. child_opens z' (t_origin t) b (t_name t) (t_size t) ((calm_child z)\<lparr>errno := ENOENT\<rparr>) (Serving (t_name t) (t_size t) b) w'"
proof -
  let ?w = "(calm_child z)\<lparr>errno := ENOENT, files := (files (y_server (z_sys z)))(t_name t \<mapsto> []), n_time := 1\<rparr>"
  show ?thesis
    using ack_request_fresh [of ?w] assms
    by (simp add: child_opens_def open_checked_def begin_file_def fopen_w_def time_now_def silent_world_def)
qed

lemma calm_child_refuses:
  assumes "session_ok t path" and "files (y_server (z_sys z)) (t_name t) = Some bs"
  shows "\<exists>oc w'. child_looks t z (asked path (t_size t)) (calm_child z) (t_origin t) (Refused (Ended oc) w') \<and>
           newly_sent (calm_child z) w' = [control CMD_EXISTS 0] \<and> files w' = files (y_server (z_sys z))"
proof -
  let ?r = "deny (calm_child z) (t_origin t) CMD_EXISTS FILE_EXISTS"
  have "child_looks t z (asked path (t_size t)) (calm_child z) (t_origin t) (Refused (Ended (fst ?r)) (snd ?r))"
    using calm_child_looks [OF assms(1), of z] assms(2) by (simp add: case_prod_beta)
  moreover have "newly_sent (calm_child z) (snd ?r) = [control CMD_EXISTS 0]" "files (snd ?r) = files (y_server (z_sys z))"
    by (simp_all add: deny_newly if_sent_def silent_world_def)
  ultimately show ?thesis by blast
qed

text \<open>The client still asks, and its machine can send.\<close>

definition asks :: "session \<Rightarrow> bool" where
  "asks z \<longleftrightarrow> \<not> z_again z \<and> z_asking z \<and> y_gone (z_sys z) = None \<and> (\<forall>k. w_send (y_client (z_sys z)) k = Tx_ok)"

lemma asks_again:
  assumes "asks z" and ok: "session_ok t path"
  obtains w where "same_answers (y_client (z_sys z)) w"
    "session_step t path z (z\<lparr>z_sys := (z_sys z)\<lparr>y_client := w, y_gone := None\<rparr>, z_requests := z_requests z @ [asked path (t_size t)]\<rparr>)"
proof -
  let ?w = "y_client (z_sys z)"
  let ?w' = "?w\<lparr>n_send := Suc (n_send ?w), sent := sent ?w @ [(t_target t, asked path (t_size t))]\<rparr>"
  have wf: "wf_packet (asked path (t_size t))" using heard_asked(5) ok by (simp add: session_ok_def)
  have "send_packet ?w (t_target t) (asked path (t_size t)) = (0, ?w')"
    using assms(1) wf by (intro send_packet_ok) (simp_all add: asks_def)
  moreover have "newly_sent ?w ?w' = [asked path (t_size t)]" by (simp add: newly_sent_def)
  ultimately have "session_step t path z
      (z\<lparr>z_sys := (z_sys z)\<lparr>y_client := ?w', y_gone := None\<rparr>, z_requests := z_requests z @ [asked path (t_size t)]\<rparr>)"
    using session_step.request [of z "t_target t" path t 0 ?w'] assms(1) by (simp add: asks_def)
  then show thesis by (rule that [rotated]) (simp add: same_answers_def)
qed

text \<open>A request can be brought to the listening process whenever the client asks.\<close>

lemma request_arrives:
  assumes "asks z" and ok: "session_ok t path" and inv: "session_inv t path z"
  obtains z' rest where "session_step t path z z'" "asks z'" "z_requests z' = asked path (t_size t) # rest"
    "z_served z' = z_served z" "y_server (z_sys z') = y_server (z_sys z)" "y_end (z_sys z') = y_end (z_sys z)"
    "y_s2c (z_sys z') = y_s2c (z_sys z)" "z_looked z' = z_looked z"
proof -
  obtain w where w: "same_answers (y_client (z_sys z)) w" "session_step t path z
      (z\<lparr>z_sys := (z_sys z)\<lparr>y_client := w, y_gone := None\<rparr>, z_requests := z_requests z @ [asked path (t_size t)]\<rparr>)"
    (is "session_step t path z ?z") using asks_again [OF assms(1,2)] by blast
  have "session_inv t path ?z" using session_step_inv [OF w(2) ok inv] .
  then have "set (z_requests ?z) \<subseteq> {asked path (t_size t)}" using assms(1) by (simp add: session_inv_def regular_def asks_def)
  then obtain rest where "z_requests ?z = asked path (t_size t) # rest" by (cases "z_requests ?z") auto
  moreover have "asks ?z" using assms(1) w(1) by (simp add: asks_def same_answers_def)
  ultimately show thesis using w(2) by (intro that [of ?z rest]) simp_all
qed

lemma can_be_offered:
  assumes "asks z" and ok: "session_ok t path" and inv: "session_inv t path z" and "\<not> z_served z"
  obtains z' where "session_steps t path z z'" "asks z'" "session_inv t path z'" "offered t z' 1" "able (z_sys z')"
    "y_end (z_sys z') = None" "z_looked z' = z_looked z"
proof -
  obtain z1 rest where z1: "session_step t path z z1" "asks z1" "z_requests z1 = asked path (t_size t) # rest"
    "\<not> z_served z1" "z_looked z1 = z_looked z" using request_arrives [OF assms(1-3)] assms(4) by metis
  have inv1: "session_inv t path z1" by (rule session_step_inv [OF z1(1) ok inv])
  then have un: "unserved t z1" using z1(2,4) by (auto simp: session_inv_def phase_defs asks_def)
  then have none: "files (y_server (z_sys z1)) (t_name t) = None" by (simp add: unserved_def)
  let ?w = "(calm_child z1)\<lparr>errno := ENOENT\<rparr>"
  obtain b where lk: "child_looks t z1 (asked path (t_size t)) (calm_child z1) (t_origin t) (Absent b (t_name t) (t_size t) ?w)"
    using calm_child_looks [OF ok, of z1] none by auto
  let ?z2 = "z1\<lparr>z_requests := rest, z_looked := z_looked z1 @ [(t_origin t, Absent b (t_name t) (t_size t) ?w)]\<rparr>"
  have s2: "session_step t path z1 ?z2" using z1(2,3) lk by (intro child_finds_nothing) (simp_all add: asks_def)
  have inv2: "session_inv t path ?z2" by (rule session_step_inv [OF s2 ok inv1])
  have un2: "unserved t ?z2" and reg2: "regular t path ?z2" using un inv2 z1(2) by (simp_all add: unserved_def session_inv_def asks_def)
  have l2: "z_looked ?z2 = z_looked z1 @ (t_origin t, Absent b (t_name t) (t_size t) ?w) # []" by simp
  obtain w' where op: "child_opens ?z2 (t_origin t) b (t_name t) (t_size t) ?w (Serving (t_name t) (t_size t) b) w'"
    using calm_child_opens [of ?z2 z1] by auto
  note new = serving_child [OF reg2 un2 l2 op]
  let ?z = "?z2\<lparr>z_looked := z_looked z1 @ [], z_served := True,
          z_sys := (z_sys ?z2)\<lparr>y_server := w', y_read := 0, y_expected := 1, y_end := None,
                             y_s2c := y_s2c (z_sys ?z2) @ newly_sent ?w w'\<rparr>\<rparr>"
  have s3: "session_step t path ?z2 ?z"
    using z1(2,4) op by (intro child_serves [OF _ l2]) (simp_all add: asks_def silent_world_def)
  have inv3: "session_inv t path ?z" by (rule session_step_inv [OF s3 ok inv2])
  have "y_s2c (z_sys ?z) = [control CMD_ACK 1]" using un new(2) by (simp add: unserved_def)
  moreover have "offered t ?z k \<Longrightarrow> length (y_s2c (z_sys ?z)) = k" for k unfolding offered_def by (metis length_replicate)
  moreover obtain k where "offered t ?z k" using inv3 z1(2) by (auto simp: session_inv_def unserved_def connected_def asks_def)
  ultimately have "offered t ?z 1" by fastforce
  moreover have "able (z_sys ?z)" using z1(2) new(3) by (simp add: able_def asks_def same_answers_def silent_world_def)
  moreover have "asks ?z" using z1(2) by (simp add: asks_def)
  moreover have "session_steps t path z ?z" using z1(1) s2 s3 by (meson converse_rtranclp_into_rtranclp r_into_rtranclp)
  ultimately show thesis using inv3 z1(5) by (intro that [of ?z]) simp_all
qed

lemma transfer_runs:
  assumes "steps t y y'" and "z_sys z = y" and "\<not> z_again z" and "\<not> z_asking z"
  shows "session_steps t path z (z\<lparr>z_sys := y'\<rparr>)"
  using assms(1)
proof (induction rule: rtranclp_induct)
  case base
  have "z = z\<lparr>z_sys := y\<rparr>" using assms(2) by (cases z) simp
  then show ?case by simp
next
  case (step y1 y2)
  have "session_step t path (z\<lparr>z_sys := y1\<rparr>) (z\<lparr>z_sys := y1, z_sys := y2\<rparr>)"
    using assms(3,4) step(2) by (intro transfers) simp_all
  with step(3) show ?case by (simp add: rtranclp.rtrancl_into_rtrancl)
qed

lemma offered_can_succeed:
  assumes "offered t z (Suc k)" and "asks z" and ok: "session_ok t path" and "able (z_sys z)" and "y_end (z_sys z) = None"
  obtains y' where "session_steps t path z (z\<lparr>z_asking := False, z_sys := y'\<rparr>)" "y_gone y' = Some 0" "y_end y' = Some Fin_received"
proof -
  let ?p = "control CMD_ACK 1"
  let ?y1 = "(z_sys z)\<lparr>y_s2c := replicate k ?p\<rparr>"
  let ?y = "?y1\<lparr>y_sender := start_sender (t_content t) (answered t path ?p) 0, y_filling := True\<rparr>"
  let ?z = "z\<lparr>z_asking := False, z_sys := ?y\<rparr>"
  have "takes z ?p (z\<lparr>z_sys := ?y1\<rparr>)" using assms(1) by (simp add: takes_def offered_def)
  then have s: "session_step t path z ?z"
    using accepted [of z ?p "z\<lparr>z_sys := ?y1\<rparr>" t path 0] assms(2) answers(2) by (simp add: asks_def)
  have "connected t ?z" using offered_accepted [OF assms(1) _ ok, where n = k and now = 0] assms(2) by (simp add: asks_def)
  then obtain base E N ms as where "transfer_inv t ?y base E N ms as" by (auto simp: connected_def)
  moreover have "able ?y" "y_end ?y = None" using assms(4,5) by (simp_all add: able_def)
  ultimately obtain y1 where y1: "steps t ?y y1" "transfer_inv t y1 base E N [] []" "y_filling y1" "able y1" "y_end y1 = None"
    using calm_down by blast
  moreover have "malloc_serves WINDOW_SIZE (t_malloc t)" using ok by (simp add: session_ok_def)
  ultimately obtain y' where y': "steps t ?y y'" "y_gone y' = Some 0" "y_end y' = Some Fin_received"
    using can_finish by (meson rtranclp_trans)
  have "session_steps t path ?z (?z\<lparr>z_sys := y'\<rparr>)"
    using assms(2) by (intro transfer_runs [OF y'(1)]) (simp_all add: asks_def)
  with s have "session_steps t path z (z\<lparr>z_asking := False, z_sys := y'\<rparr>)"
    by (simp add: converse_rtranclp_into_rtranclp)
  from this y'(2,3) show thesis by (rule that)
qed

lemma can_succeed:
  assumes "asks z" and "session_ok t path" and "session_inv t path z" and "\<not> z_served z"
  obtains z' where "session_steps t path z z'" "\<not> z_again z'" "y_gone (z_sys z') = Some 0" "y_end (z_sys z') = Some Fin_received"
proof -
  obtain z1 where z1: "session_steps t path z z1" "asks z1" "session_inv t path z1" "offered t z1 (Suc 0)" "able (z_sys z1)"
    "y_end (z_sys z1) = None" using can_be_offered [OF assms] by auto
  obtain y' where y': "session_steps t path z1 (z1\<lparr>z_asking := False, z_sys := y'\<rparr>)"
    "y_gone y' = Some 0" "y_end y' = Some Fin_received"
    using offered_can_succeed [OF z1(4,2) assms(2) z1(5,6)] by blast
  moreover have "\<not> z_again (z1\<lparr>z_asking := False, z_sys := y'\<rparr>)" using z1(2) by (simp add: asks_def)
  ultimately show thesis using rtranclp_trans [OF z1(1) y'(1)]
    by (intro that [of "z1\<lparr>z_asking := False, z_sys := y'\<rparr>"]) simp_all
qed

section \<open>A lost acknowledgement of the request\<close>

text \<open>Nobody acknowledges the request any more: only refusals can still reach the client.\<close>

lemma lost_ack_step:
  assumes step: "session_step t path z z'" and ok: "session_ok t path" and reg: "regular t path z"
    and off: "offered t z 0" and "\<not> z_again z'"
  shows "offered t z' 0 \<and> regular t path z'"
proof -
  have inv: "session_inv t path z" using reg off by (auto simp: session_inv_def)
  have "regular t path z'" using session_step_inv [OF step ok inv] assms(5) by (auto simp: session_inv_def)
  moreover have "offered t z' 0"
    using step
  proof cases
    case (accepted p z1 now)
    have "unserved t z \<or> (\<exists>k. offered t z k)" using off by blast
    with accepted(5) reg have False
      by (cases rule: asking_takes) (use accepted(6) answers(1) off in \<open>auto simp: offered_def\<close>)
    then show ?thesis ..
  next
    case (refused p z1 c)
    then have "c \<noteq> 0" by (auto simp: request_answer_def CLIENT_FILE_EXISTS_def CLIENT_BAD_REQUEST_def split: if_splits)
    with refused off show ?thesis
      by (auto simp: offered_def takes_def intro: server_inv_cong)
  next
    case meanwhile
    then show ?thesis using offered_step off by blast
  next
    case (child_refuses p rest w origin oc w')
    with refusing_child(1) [OF ok reg] off show ?thesis by (auto simp: offered_def intro: server_inv_cong)
  next
    case (child_fails xs origin b name fs w ys oc w')
    then have "w_fopen w name \<noteq> None" using off by (auto simp: offered_def)
    with child_fails failing_child(1) [OF reg child_fails(3,4)] off show ?thesis
      by (auto simp: offered_def intro: server_inv_cong)
  next
    case other_files
    then show ?thesis using off by (auto simp: offered_def intro: server_inv_cong)
  qed (use off assms(5) in \<open>auto simp: offered_def CLIENT_RUNTIME_ERROR_def CLIENT_TIMEOUT_def intro: server_inv_cong\<close>)
  ultimately show ?thesis by blast
qed

lemma session_step_before: "session_step t path z z' \<Longrightarrow> \<not> z_again z"
  by (cases rule: session_step.cases) simp_all

lemma lost_ack_run:
  assumes "session_steps t path z z'" and "session_ok t path" and "regular t path z" and "offered t z 0" and "\<not> z_again z'"
  shows "offered t z' 0 \<and> regular t path z'"
  using assms(1,5)
proof (induction rule: rtranclp_induct)
  case base
  then show ?case using assms(3,4) by simp
next
  case (step z1 z2)
  then show ?case using lost_ack_step [OF step(2) assms(2)] session_step_before [OF step(2)] by blast
qed

text \<open>The child waits for data that never comes, and removes the file.\<close>

lemma offered_timeout:
  assumes "offered t z k" and "\<not> z_again z" and "y_end (z_sys z) = None"
  shows "session_step t path z (z\<lparr>z_sys := (z_sys z)\<lparr>y_server := unlink_file (y_server (z_sys z)) (t_name t),
           y_end := Some (Stop (Exit TIMEOUT))\<rparr>\<rparr>)"
  using assms by (intro meanwhile server_timeout) (simp_all add: offered_def client_untouched_def)

lemma offered_lose:
  assumes "offered t z 1" and "\<not> z_again z"
  shows "session_step t path z (z\<lparr>z_sys := (z_sys z)\<lparr>y_s2c := []\<rparr>\<rparr>)"
  using assms lose_reply [of "z_sys z" "[]" "control CMD_ACK 1" "[]" t]
  by (intro meanwhile) (simp_all add: offered_def client_untouched_def)

lemma can_lose_ack:
  assumes "asks z" and "session_ok t path" and "session_inv t path z" and "\<not> z_served z"
  obtains z' where "session_steps t path z z'" "offered t z' 0" "asks z'" "session_inv t path z'" "y_end (z_sys z') = None"
    "z_looked z' = z_looked z"
proof -
  obtain z1 where z1: "session_steps t path z z1" "asks z1" "session_inv t path z1" "offered t z1 1"
    "y_end (z_sys z1) = None" "z_looked z1 = z_looked z" using can_be_offered [OF assms] by auto
  let ?z2 = "z1\<lparr>z_sys := (z_sys z1)\<lparr>y_s2c := []\<rparr>\<rparr>"
  have s2: "session_step t path z1 ?z2" using z1(2) by (intro offered_lose [OF z1(4)]) (simp add: asks_def)
  have inv2: "session_inv t path ?z2" by (rule session_step_inv [OF s2 assms(2) z1(3)])
  have "server_inv t (z_sys ?z2) 0" by (rule offered_server [OF z1(4)]) simp_all
  then have off2: "offered t ?z2 0" using z1(4) by (simp add: offered_def)
  have "asks ?z2" "y_end (z_sys ?z2) = None" using z1(2,5) by (simp_all add: asks_def)
  with inv2 off2 z1(1,6) s2 show thesis by (intro that [of ?z2]) (auto intro: rtranclp.rtrancl_into_rtrancl)
qed

lemma offered_refused:
  assumes off: "offered t z 0" and "asks z" and ok: "session_ok t path" and inv: "session_inv t path z"
    and "y_end (z_sys z) = None"
  obtains z' where "session_steps t path z z'" "\<not> z_again z'" "y_gone (z_sys z') = Some CLIENT_FILE_EXISTS"
    "y_end (z_sys z') = None" "offered t z' 0"
proof -
  let ?p = "control CMD_EXISTS 0"
  obtain z1 rest where z1: "session_step t path z z1" "asks z1" "z_requests z1 = asked path (t_size t) # rest"
    "y_server (z_sys z1) = y_server (z_sys z)" "y_end (z_sys z1) = None"
    using request_arrives [OF assms(2) ok inv] assms(5) by metis
  have "files (y_server (z_sys z1)) (t_name t) = Some []"
    using z1(4) off assms(5) by (simp add: offered_def server_inv_def server_has_def)
  from calm_child_refuses [OF ok this] obtain oc w' where w':
    "child_looks t z1 (asked path (t_size t)) (calm_child z1) (t_origin t) (Refused (Ended oc) w')"
    "newly_sent (calm_child z1) w' = [?p]" by blast
  let ?z2 = "z1\<lparr>z_requests := rest, z_notes := z_notes z1 @ newly_sent (calm_child z1) w',
          z_sys := (z_sys z1)\<lparr>y_server := (y_server (z_sys z1))\<lparr>files := files w'\<rparr>\<rparr>\<rparr>"
  have s2: "session_step t path z1 ?z2" using z1(2,3) w'(1) by (intro child_refuses) (simp_all add: asks_def)
  have "takes ?z2 ?p (?z2\<lparr>z_notes := z_notes z1\<rparr>)" unfolding takes_def
    by (intro disjI2 exI [of _ "z_notes z1"] exI [of _ "[]"]) (simp add: w'(2))
  then have s3: "session_step t path ?z2 (?z2\<lparr>z_notes := z_notes z1, z_sys := (z_sys ?z2)\<lparr>y_gone := Some CLIENT_FILE_EXISTS\<rparr>\<rparr>)"
    (is "session_step t path ?z2 ?z3")
    using refused [of ?z2 ?p "?z2\<lparr>z_notes := z_notes z1\<rparr>" t path CLIENT_FILE_EXISTS] z1(2) answers(1) by (simp add: asks_def)
  have run: "session_steps t path z ?z3" using z1(1) s2 s3 by (meson converse_rtranclp_into_rtranclp r_into_rtranclp)
  have live: "\<not> z_again ?z3" using z1(2) by (simp add: asks_def)
  have reg: "regular t path z" using inv assms(2) by (simp add: session_inv_def asks_def)
  have "offered t ?z3 0" using lost_ack_run [OF run ok reg off live] by blast
  with run live z1(5) show thesis by (intro that [of ?z3]) simp_all
qed

section \<open>Properties\<close>

lemma session_run_inv:
  assumes "start_session t z0" and "session_ok t path" and "session_steps t path z0 z"
  shows "session_inv t path z"
  using whole_session.run_inv [OF assms(1,3)] assms(2) by blast

lemma session_inv_file:
  assumes "session_inv t path z" and "\<not> z_again z"
  shows "files (y_server (z_sys z)) (t_name t) = None \<or> (\<exists>k. files (y_server (z_sys z)) (t_name t) = Some (take k (t_content t)))"
  using assms by (auto simp: session_inv_def phase_defs transfer_inv_def server_inv_def server_has_def)

lemma session_inv_done:
  assumes "session_inv t path z" and "\<not> z_again z" and "y_gone (z_sys z) = Some 0"
  shows "y_end (z_sys z) = Some (Stop (Exit TIMEOUT)) \<and> files (y_server (z_sys z)) (t_name t) = None \<or>
         files (y_server (z_sys z)) (t_name t) = Some (t_content t)"
proof -
  obtain base E N ms as where inv: "transfer_inv t (z_sys z) base E N ms as"
    using assms by (auto simp: session_inv_def phase_defs)
  then have "s_written (y_sender (z_sys z)) = t_size t" using assms(3) by (simp add: transfer_inv_def)
  with inv transfer_inv_done [OF inv] show ?thesis by (auto simp: transfer_inv_def server_inv_def)
qed

text \<open>A second opening of the file: only by a child that has looked while there was no file.\<close>

lemma step_end: "step t y y' \<Longrightarrow> y_end y = Some e \<Longrightarrow> y_end y' = Some e"
  by (induction rule: step.induct) simp_all

definition sole_child :: "session \<Rightarrow> bool" where
  "sole_child z \<longleftrightarrow> z_served z \<and> (y_end (z_sys z) = Some (Stop (Exit TIMEOUT)) \<or> z_looked z = [] \<and> \<not> z_again z)"

lemma sole_child_step:
  assumes step: "session_step t path z z'" and ok: "session_ok t path" and inv: "session_inv t path z" and sole: "sole_child z"
  shows "sole_child z'"
  using step
proof cases
  case (child_finds_nothing p rest w origin b name fs w')
  then have reg: "regular t path z" using inv by (simp add: session_inv_def)
  have "files (y_server (z_sys z)) (t_name t) = None" by (rule absent_child(4) [OF ok reg child_finds_nothing(3,4)])
  then have "y_end (z_sys z) = Some (Stop (Exit TIMEOUT))"
    using inv child_finds_nothing(2) sole
    by (auto simp: session_inv_def phase_defs transfer_inv_def server_inv_def server_has_def sole_child_def)
  then show ?thesis using child_finds_nothing(1) sole by (simp add: sole_child_def)
next
  case (note_taken xs p ys junk act w')
  then show ?thesis using sole by (auto simp: sole_child_def after_reply_def split: reply_action.splits)
next
  case (transfers y')
  then show ?thesis using sole step_end by (auto simp: sole_child_def)
next
  case (meanwhile y')
  then show ?thesis using sole step_end by (auto simp: sole_child_def)
qed (use sole in \<open>auto simp: sole_child_def takes_def\<close>)

lemma sole_child_run:
  assumes "session_steps t path z z'" and "session_ok t path" and "session_inv t path z" and "sole_child z"
  shows "sole_child z' \<and> session_inv t path z'"
  using assms(1)
proof (induction rule: rtranclp_induct)
  case base
  then show ?case using assms(3,4) by simp
next
  case (step z1 z2)
  then show ?case using sole_child_step [OF step(2) assms(2)] session_step_inv [OF step(2) assms(2)] by blast
qed

text \<open>
  C4: a whole session, from the first request on, over a network that loses and duplicates datagrams and
  with a child for every copy of the request that arrives, where a child looks for the file and opens it in separate
  steps, between which other children come, on a disk that takes every write. As long as only one
  child has opened the file, it is absent on the server or a prefix of the client's file; and when
  the client has ended with status 0, the server has the whole file, unless the child that served it
  has timed out and removed it.
\<close>

theorem session_file:
  assumes "start_session t z0" and "session_ok t path" and "session_steps t path z0 z"
  shows "z_again z \<or>
         (files (y_server (z_sys z)) (t_name t) = None \<or>
          (\<exists>k. files (y_server (z_sys z)) (t_name t) = Some (take k (t_content t)))) \<and>
         (y_gone (z_sys z) = Some 0 \<longrightarrow>
            y_end (z_sys z) = Some (Stop (Exit TIMEOUT)) \<and> files (y_server (z_sys z)) (t_name t) = None \<or>
            files (y_server (z_sys z)) (t_name t) = Some (t_content t))"
  using session_run_inv [OF assms] session_inv_file session_inv_done by blast

text \<open>
  C5: a second child opens the file only through a race or after a time-out. When a child has opened the
  file and no other child is between its look at the directory and its opening of the file, no other child opens
  it, whatever requests still arrive, as long as the child that serves has not timed out: they find
  the file and are refused.
\<close>

theorem no_second_opening:
  assumes "start_session t z0" and "session_ok t path" and "session_steps t path z0 z"
    and "z_served z" and "z_looked z = []" and "\<not> z_again z" and "session_steps t path z z'"
  shows "\<not> z_again z' \<or> y_end (z_sys z') = Some (Stop (Exit TIMEOUT))"
proof -
  have "sole_child z" using assms(4-6) by (simp add: sole_child_def)
  then have "sole_child z'" using sole_child_run [OF assms(7,2) session_run_inv [OF assms(1-3)]] by blast
  then show ?thesis by (auto simp: sole_child_def)
qed

text \<open>
  C8: as long as the client asks and no child has accepted its request, whatever has been lost or
  duplicated, the session can still succeed: a child creates the file, the client is accepted, the
  data is transferred, the child accepts the FIN, and the client ends with status 0.
\<close>

theorem session_can_succeed:
  assumes "start_session t z0" and "session_ok t path" and "session_steps t path z0 z" and "asks z" and "\<not> z_served z"
  shows "\<exists>z'. session_steps t path z z' \<and> \<not> z_again z' \<and> y_gone (z_sys z') = Some 0 \<and>
              y_end (z_sys z') = Some Fin_received \<and> files (y_server (z_sys z')) (t_name t) = Some (t_content t)"
proof -
  have inv: "session_inv t path z" by (rule session_run_inv [OF assms(1-3)])
  obtain z' where z': "session_steps t path z z'" "\<not> z_again z'" "y_gone (z_sys z') = Some 0"
    "y_end (z_sys z') = Some Fin_received" using can_succeed [OF assms(4,2) inv assms(5)] by blast
  then have "session_inv t path z'" using session_run_inv assms(1-3) by (meson rtranclp_trans)
  from session_inv_done [OF this z'(2,3)] z' show ?thesis by auto
qed

text \<open>
  C23: a child acknowledges a request once. When a child has opened the file and its acknowledgement is
  lost, then until a second child opens the file as well the client that waits for the acknowledgement is not
  accepted, however often it repeats its request and whatever else happens, and its file is empty
  on the server, or removed.
\<close>

theorem lost_ack_never_accepted:
  assumes "start_session t z0" and "session_ok t path" and "session_steps t path z0 z"
    and "z_asking z" and "z_served z" and "y_s2c (z_sys z) = []" and "session_steps t path z z'"
  shows "z_again z' \<or>
         z_asking z' \<and> y_gone (z_sys z') \<noteq> Some 0 \<and> files (y_server (z_sys z')) (t_name t) \<in> {None, Some []}"
proof (cases "z_again z'")
  case False
  then have "\<not> z_again z" using assms(7) by (metis converse_rtranclpE session_step_before)
  then obtain k where k: "regular t path z" "offered t z k"
    using session_run_inv [OF assms(1-3)] assms(4,5) by (auto simp: session_inv_def unserved_def connected_def)
  then have "k = 0" using assms(6) by (simp add: offered_def)
  then have "offered t z' 0" using lost_ack_run [OF assms(7,2)] k False by blast
  then show ?thesis by (auto simp: offered_def server_inv_def server_has_def)
qed simp

text \<open>
  C24: a client can be refused because of its own request. As long as no child has accepted its
  request, the session can also end like this: a child creates the file, its one acknowledgement is
  lost, the repeated request finds the file and is refused, the client reports that the file already
  exists, and the first child times out and removes the file.
\<close>

theorem refused_by_own_request:
  assumes "start_session t z0" and "session_ok t path" and "session_steps t path z0 z" and "asks z" and "\<not> z_served z"
  shows "\<exists>z'. session_steps t path z z' \<and> \<not> z_again z' \<and> y_gone (z_sys z') = Some CLIENT_FILE_EXISTS \<and>
              y_end (z_sys z') = Some (Stop (Exit TIMEOUT)) \<and> files (y_server (z_sys z')) (t_name t) = None"
proof -
  have inv: "session_inv t path z" by (rule session_run_inv [OF assms(1-3)])
  obtain z2 where z2: "session_steps t path z z2" "offered t z2 0" "asks z2" "session_inv t path z2" "y_end (z_sys z2) = None"
    using can_lose_ack [OF assms(4,2) inv assms(5)] by blast
  obtain z3 where z3: "session_steps t path z2 z3" "\<not> z_again z3" "y_gone (z_sys z3) = Some CLIENT_FILE_EXISTS"
    "y_end (z_sys z3) = None" "offered t z3 0" using offered_refused [OF z2(2,3) assms(2) z2(4,5)] by blast
  note s4 = offered_timeout [OF z3(5,2,4), of path]
  have "session_steps t path z (z3\<lparr>z_sys := (z_sys z3)\<lparr>y_server := unlink_file (y_server (z_sys z3)) (t_name t),
           y_end := Some (Stop (Exit TIMEOUT))\<rparr>\<rparr>)" (is "session_steps t path z ?z4")
    using z2(1) z3(1) s4 by (meson rtranclp.rtrancl_into_rtrancl rtranclp_trans)
  with z3(2,3) show ?thesis by (intro exI [of _ ?z4]) (simp add: unlink_file_def)
qed

section \<open>Examples\<close>

definition example_session :: session where
  "example_session =
     \<lparr>z_sys = example_start\<lparr>y_server := silent_world, y_s2c := []\<rparr>, z_asking = True, z_requests = [], z_looked = [],
      z_served = False, z_again = False, z_notes = []\<rparr>"

lemma example_asks:
  "start_session example_transfer example_session" "session_ok example_transfer [100, 47, 97]"
  "asks example_session" "\<not> z_served example_session" "session_steps example_transfer [100, 47, 97] example_session example_session"
proof -
  have "base_name [100, 47, 97] = [97]" by (simp add: base_name_def)
  moreover have "t_size example_transfer = 3" by (simp add: t_size_def example_transfer_def)
  ultimately show "session_ok example_transfer [100, 47, 97]"
    using example_malloc example_text by (simp add: session_ok_def askable_def example_transfer_def)
qed (simp_all add: start_session_def asks_def example_session_def example_start_def silent_world_def)

lemma example_session_inv: "session_inv example_transfer [100, 47, 97] example_session"
  by (rule start_session_inv [OF example_asks(1)])

theorem session_file_witness:
  "\<exists>z. session_steps example_transfer [100, 47, 97] example_session z \<and> y_gone (z_sys z) = Some 0 \<and>
     y_end (z_sys z) = Some Fin_received \<and>
     files (y_server (z_sys z)) (t_name example_transfer) = Some (t_content example_transfer)"
proof -
  obtain z where z: "session_steps example_transfer [100, 47, 97] example_session z" "\<not> z_again z"
    "y_gone (z_sys z) = Some 0" "y_end (z_sys z) = Some Fin_received"
    using can_succeed [OF example_asks(3,2) example_session_inv example_asks(4)] by blast
  from session_file [OF example_asks(1,2) z(1)] z show ?thesis by auto
qed

theorem no_second_opening_witness:
  "\<exists>z z'. z_served z \<and> z_looked z = [] \<and> session_steps example_transfer [100, 47, 97] z z' \<and>
     y_gone (z_sys z') = Some CLIENT_FILE_EXISTS \<and> \<not> z_again z'"
proof -
  obtain z where z: "session_steps example_transfer [100, 47, 97] example_session z" "offered example_transfer z 0"
    "asks z" "session_inv example_transfer [100, 47, 97] z" "y_end (z_sys z) = None" "z_looked z = []"
    using can_lose_ack [OF example_asks(3,2) example_session_inv example_asks(4)] by (auto simp: example_session_def)
  obtain z' where z': "session_steps example_transfer [100, 47, 97] z z'" "y_end (z_sys z') = None"
    "y_gone (z_sys z') = Some CLIENT_FILE_EXISTS" using offered_refused [OF z(2,3) example_asks(2) z(4,5)] by blast
  have o: "z_served z" "\<not> z_again z" using z(2,3) by (simp_all add: offered_def asks_def)
  have "\<not> z_again z'" using no_second_opening [OF example_asks(1,2) z(1) o(1) z(6) o(2) z'(1)] z'(2) by simp
  with z' z(6) o(1) show ?thesis by blast
qed

theorem session_can_succeed_witness:
  "\<exists>z'. session_steps example_transfer [100, 47, 97] example_session z' \<and> \<not> z_again z' \<and> y_gone (z_sys z') = Some 0 \<and>
     y_end (z_sys z') = Some Fin_received \<and>
     files (y_server (z_sys z')) (t_name example_transfer) = Some (t_content example_transfer)"
  by (rule session_can_succeed [OF example_asks(1,2,5,3,4)])

theorem lost_ack_never_accepted_witness:
  "\<exists>z z'. z_asking z \<and> z_served z \<and> y_s2c (z_sys z) = [] \<and> session_steps example_transfer [100, 47, 97] z z' \<and>
     y_gone (z_sys z') = Some CLIENT_FILE_EXISTS \<and> z_asking z' \<and>
     files (y_server (z_sys z')) (t_name example_transfer) \<in> {None, Some []}"
proof -
  obtain z where z: "session_steps example_transfer [100, 47, 97] example_session z" "offered example_transfer z 0"
    "asks z" "session_inv example_transfer [100, 47, 97] z" "y_end (z_sys z) = None"
    using can_lose_ack [OF example_asks(3,2) example_session_inv example_asks(4)] by blast
  obtain z' where z': "session_steps example_transfer [100, 47, 97] z z'" "\<not> z_again z'"
    "y_gone (z_sys z') = Some CLIENT_FILE_EXISTS" using offered_refused [OF z(2,3) example_asks(2) z(4,5)] by blast
  have o: "z_asking z" "z_served z" "y_s2c (z_sys z) = []" using z(2) by (simp_all add: offered_def)
  from lost_ack_never_accepted [OF example_asks(1,2) z(1) o z'(1)] z' o show ?thesis by blast
qed

theorem refused_by_own_request_witness:
  "\<exists>z'. session_steps example_transfer [100, 47, 97] example_session z' \<and> \<not> z_again z' \<and>
     y_gone (z_sys z') = Some CLIENT_FILE_EXISTS \<and> y_end (z_sys z') = Some (Stop (Exit TIMEOUT)) \<and>
     files (y_server (z_sys z')) (t_name example_transfer) = None"
  by (rule refused_by_own_request [OF example_asks(1,2,5,3,4)])

end
