(* ===== verification/Ft_Race.thy ===== *)
theory Ft_Race
  imports Ft_Session
begin

text \<open>
  Two children of the server race for one name: a child looks whether the file exists
  (\<^verbatim>\<open>access\<close>) and creates it later (\<^verbatim>\<open>fopen\<close>), and a repeated request makes two children do so for one
  client. Each child is run in the parts of \<open>Ft_Child\<close>, with the directory as it is at that moment.
\<close>

section \<open>The parts of the second child\<close>

lemma check_child_absent:
  assumes ask: "askable path fs" and "fst (setup_socket w 0) = 0" and "files w (base_name path) = None" and "spare_byte w path"
  obtains b where "check_child w (heard (asked path fs)) origin = Absent b (base_name path) fs (w\<lparr>errno := ENOENT\<rparr>)"
    "length b = PACKET_SIZE"
proof -
  note ha = heard_asked [OF ask]
  let ?b = "heard (asked path fs)"
  obtain sep where sep: "strchr (drop HEADER_SIZE ?b) 124 = Some sep" using ha(3) by blast
  have "length (put_at ?b HEADER_SIZE ((drop HEADER_SIZE ?b)[sep := 0])) = PACKET_SIZE" using ha(6) by simp
  moreover have "check_child w ?b origin =
      Absent (put_at ?b HEADER_SIZE ((drop HEADER_SIZE ?b)[sep := 0])) (base_name path) fs (w\<lparr>errno := ENOENT\<rparr>)"
    using check_child_request [OF assms(2) ha(1,2) sep ha(4) ha(9) [OF assms(4)], of origin] assms(3) by simp
  ultimately show thesis by (rule that [rotated])
qed

text \<open>Opening the file truncates what another child has created since the check; nothing looks at it again.\<close>

lemma begin_file_truncates:
  assumes "errno w = ENOENT" and "w_fopen w name = None" and "w_send w (n_send w) = Tx_ok"
  obtains w' where "begin_file w b origin name fs = Some (Serving name fs b, w')" "files w' = (files w)(name \<mapsto> [])"
    "w_time w' = w_time w" "w_recv w' = w_recv w" "n_time w' = Suc (n_time w)" "n_recv w' = n_recv w"
proof -
  let ?w = "w\<lparr>files := (files w)(name \<mapsto> []), n_time := Suc (n_time w)\<rparr>"
  show thesis
    using ack_request_fresh [of ?w "w_time w (n_time w)" origin name] assms
    by (intro that [of "?w\<lparr>n_send := Suc (n_send w), sent := sent w @ [(origin, control CMD_ACK 1)]\<rparr>"])
      (simp_all add: begin_file_def fopen_w_def time_now_def)
qed

text \<open>A machine on which a child can work, and to which nobody sends any data.\<close>

definition unheard :: "world \<Rightarrow> byte list \<Rightarrow> bool" where
  "unheard w name \<longleftrightarrow> fst (setup_socket w 0) = 0 \<and> w_fopen w name = None \<and> w_send w (n_send w) = Tx_ok \<and> silent w \<and>
     (\<exists>k > Suc (n_time w). 6 \<le> w_time w k - w_time w (Suc (n_time w)))"

lemma unheard_child:
  assumes "unheard w name" and "length b = PACKET_SIZE" and "F name = Some []"
  obtains w2 where "begin_file (w\<lparr>errno := ENOENT, files := F\<rparr>) b origin name fs = Some (Serving name fs b, w2)" "files w2 = F"
    "\<And>G. \<exists>w3. continue_child origin (Serving name fs b, w2\<lparr>files := G\<rparr>) = Some (Exit TIMEOUT, w3) \<and> files w3 = G(name := None)"
proof -
  obtain w2 where w2: "begin_file (w\<lparr>errno := ENOENT, files := F\<rparr>) b origin name fs = Some (Serving name fs b, w2)"
    "files w2 = F(name \<mapsto> [])" "w_time w2 = w_time w" "w_recv w2 = w_recv w" "n_time w2 = Suc (n_time w)" "n_recv w2 = n_recv w"
    using begin_file_truncates [of "w\<lparr>errno := ENOENT, files := F\<rparr>" name b origin fs] assms(1) by (auto simp: unheard_def)
  obtain k where "Suc (n_time w) < k" "6 \<le> w_time w k - w_time w (Suc (n_time w))" "silent w"
    using assms(1) by (auto simp: unheard_def)
  then have "\<exists>w3. continue_child origin (Serving name fs b, w2\<lparr>files := G\<rparr>) = Some (Exit TIMEOUT, w3) \<and> files w3 = G(name := None)" for G
    using receive_loop_silent [of "w2\<lparr>files := G\<rparr>" b k origin name fs 0 1] assms(2) w2(3-6) by (auto simp: silent_def)
  with w2 assms(3) show thesis by (intro that [of w2]) (simp_all add: fun_upd_idem)
qed

section \<open>Properties\<close>

text \<open>
  C25: the check for an existing file does not protect it. When two children look for the file before
  either has created it, both serve: the first receives the whole file, accepts the FIN, and the
  client ends with status 0; the second, to which nobody sends anything, times out and removes the
  file of the first. Every session in which no child has accepted yet can go on like this.
\<close>

theorem second_child_removes_file:
  assumes "start_session t z0" and "session_ok t path" and "session_steps t path z0 z" and "asks z" and "\<not> z_served z"
    and "unheard w (t_name t)" and "files w = files (y_server (z_sys z))" and "spare_byte w path"
  shows "\<exists>b w1 z1 w2 z2 w3.
     check_child w (heard (asked path (t_size t))) (t_origin t) = Absent b (t_name t) (t_size t) w1 \<and>
     session_steps t path z z1 \<and> z_served z1 \<and>
     open_checked (t_origin t) (Absent b (t_name t) (t_size t) (w1\<lparr>files := files (y_server (z_sys z1))\<rparr>)) =
       Some (Serving (t_name t) (t_size t) b, w2) \<and> files w2 = files (y_server (z_sys z1)) \<and>
     session_steps t path z1 z2 \<and> y_gone (z_sys z2) = Some 0 \<and> y_end (z_sys z2) = Some Fin_received \<and>
     files (y_server (z_sys z2)) (t_name t) = Some (t_content t) \<and>
     continue_child (t_origin t) (Serving (t_name t) (t_size t) b, w2\<lparr>files := files (y_server (z_sys z2))\<rparr>) =
       Some (Exit TIMEOUT, w3) \<and> files w3 (t_name t) = None"
proof -
  have ask: "askable path (t_size t)" "t_name t = base_name path" using assms(2) by (simp_all add: session_ok_def)
  have inv: "session_inv t path z" by (rule session_run_inv [OF assms(1-3)])
  then have "files w (base_name path) = None" using assms(4,5,7) ask(2) by (auto simp: session_inv_def phase_defs asks_def)
  then obtain b where b: "check_child w (heard (asked path (t_size t))) (t_origin t) =
      Absent b (t_name t) (t_size t) (w\<lparr>errno := ENOENT\<rparr>)" "length b = PACKET_SIZE"
    using check_child_absent [OF ask(1), of w "t_origin t"] assms(6,8) ask(2) by (auto simp: unheard_def)
  obtain z1 where z1: "session_steps t path z z1" "asks z1" "session_inv t path z1" "offered t z1 (Suc 0)" "able (z_sys z1)"
    "y_end (z_sys z1) = None" using can_be_offered [OF assms(4,2) inv assms(5)] by auto
  then have f: "files (y_server (z_sys z1)) (t_name t) = Some []" "z_served z1"
    by (simp_all add: offered_def server_inv_def server_has_def)
  obtain y' where y': "session_steps t path z1 (z1\<lparr>z_asking := False, z_sys := y'\<rparr>)" (is "session_steps t path z1 ?z2")
    "y_gone y' = Some 0" "y_end y' = Some Fin_received"
    using offered_can_succeed [OF z1(4,2) assms(2) z1(5,6)] by blast
  have "session_inv t path ?z2" using session_run_inv assms(1-3) z1(1) y'(1) by (meson rtranclp_trans)
  moreover have "\<not> z_again ?z2" using z1(2) by (simp add: asks_def)
  ultimately have full: "files (y_server y') (t_name t) = Some (t_content t)"
    using session_inv_done [of t path ?z2] y'(2,3) by auto
  obtain w2 where w2: "begin_file (w\<lparr>errno := ENOENT, files := files (y_server (z_sys z1))\<rparr>) b (t_origin t) (t_name t) (t_size t) =
      Some (Serving (t_name t) (t_size t) b, w2)" "files w2 = files (y_server (z_sys z1))"
    "\<And>G. \<exists>w3. continue_child (t_origin t) (Serving (t_name t) (t_size t) b, w2\<lparr>files := G\<rparr>) = Some (Exit TIMEOUT, w3) \<and>
      files w3 = G(t_name t := None)"
    using unheard_child [where F = "files (y_server (z_sys z1))", OF assms(6) b(2) f(1)] by blast
  obtain w3 where "continue_child (t_origin t) (Serving (t_name t) (t_size t) b, w2\<lparr>files := files (y_server y')\<rparr>) =
      Some (Exit TIMEOUT, w3)" "files w3 (t_name t) = None" using w2(3) [of "files (y_server y')"] by auto
  with b z1(1) f(2) w2(1,2) y' full show ?thesis
    by (intro exI [of _ b] exI [of _ "w\<lparr>errno := ENOENT\<rparr>"] exI [of _ z1] exI [of _ w2] exI [of _ ?z2] exI [of _ w3])
      (simp add: open_checked_def)
qed

theorem second_child_removes_file_witness:
  "\<exists>b w1 z1 w2 z2 w3.
     check_child silent_world (heard (asked [100, 47, 97] 3)) (t_origin example_transfer) = Absent b [97] 3 w1 \<and>
     session_steps example_transfer [100, 47, 97] example_session z1 \<and> z_served z1 \<and>
     open_checked (t_origin example_transfer) (Absent b [97] 3 (w1\<lparr>files := files (y_server (z_sys z1))\<rparr>)) =
       Some (Serving [97] 3 b, w2) \<and> files w2 = files (y_server (z_sys z1)) \<and>
     session_steps example_transfer [100, 47, 97] z1 z2 \<and> y_gone (z_sys z2) = Some 0 \<and> y_end (z_sys z2) = Some Fin_received \<and>
     files (y_server (z_sys z2)) [97] = Some [1, 2, 3] \<and>
     continue_child (t_origin example_transfer) (Serving [97] 3 b, w2\<lparr>files := files (y_server (z_sys z2))\<rparr>) =
       Some (Exit TIMEOUT, w3) \<and> files w3 [97] = None"
proof -
  have s: "t_size example_transfer = 3" "t_name example_transfer = [97]" "t_content example_transfer = [1, 2, 3]"
    by (simp_all add: t_size_def example_transfer_def)
  have "\<exists>k > Suc 0. 6 \<le> int k - int (Suc 0)" by (rule exI [of _ 7]) simp
  then have "unheard silent_world [97]" by (simp add: unheard_def setup_socket_def silent_world_def silent_def)
  moreover have "files silent_world = files (y_server (z_sys example_session))" by (simp add: example_session_def)
  moreover have "spare_byte silent_world [100, 47, 97]" by (simp add: spare_byte_def silent_world_def)
  ultimately show ?thesis
    using second_child_removes_file [OF example_asks(1,2,5,3,4), of silent_world] unfolding s by blast
qed

end
