(* ===== verification/Ft_Debug.thy ===== *)
theory Ft_Debug
  imports Ft_Common
begin

text \<open>
  The parts of \<^verbatim>\<open>ftpclient/srtp_common.h\<close> that are on only when asked for: the debug output (the flag
  \<^verbatim>\<open>-d\<close>), with the buffers \<^verbatim>\<open>print_packet\<close> fills, and the test build with \<^verbatim>\<open>PL_DENOMINATOR\<close>, in which
  \<^verbatim>\<open>send_packet\<close> loses packets on purpose. Text is a list of characters; what a call prints is its result.
\<close>

section \<open>The C library\<close>

text \<open>The array of characters at a pointer is read up to its null byte.\<close>

definition text_of :: "string \<Rightarrow> string" where
  "text_of s = takeWhile (\<lambda>c. c \<noteq> CHR 0x00) s"

text \<open>\<^verbatim>\<open>strncpy\<close> fills \<open>n\<close> characters: the text, cut or padded with null bytes.\<close>

definition strncpy :: "string \<Rightarrow> nat \<Rightarrow> string" where
  "strncpy src n = take n (text_of src) @ replicate (n - length (text_of src)) (CHR 0x00)"

text \<open>The \<open>i\<close>-th byte of an address in memory, and \<^verbatim>\<open>inet_ntoa\<close>.\<close>

definition octet :: "u32 \<Rightarrow> nat \<Rightarrow> nat" where
  "octet a i = unat a div 256 ^ i mod 256"

definition inet_ntoa :: "u32 \<Rightarrow> string" where
  "inet_ntoa a = print_u (octet a 0) @ ''.'' @ print_u (octet a 1) @ ''.'' @ print_u (octet a 2) @ ''.'' @
     print_u (octet a 3)"

text \<open>
  A time of day as \<^verbatim>\<open>localtime\<close> gives it, and \<^verbatim>\<open>strftime\<close> with \<^verbatim>\<open>%H:%M:%S\<close> into \<open>room\<close> characters: when
  the text with its null byte does not fit, the array keeps what it held.
\<close>

record tm =
  tm_hour :: nat
  tm_min :: nat
  tm_sec :: nat

definition two_digits :: "nat \<Rightarrow> string" where
  "two_digits n = map (\<lambda>d. char_of (48 + d)) [n div 10 mod 10, n mod 10]"

definition strftime_HMS :: "string \<Rightarrow> nat \<Rightarrow> tm \<Rightarrow> string" where
  "strftime_HMS buf room t =
     (let s = two_digits (tm_hour t) @ '':'' @ two_digits (tm_min t) @ '':'' @ two_digits (tm_sec t)
      in if length s < room then s @ CHR 0x00 # drop (Suc (length s)) buf else buf)"

section \<open>Debug output\<close>

datatype PKTDIR = SEND | RECV

text \<open>\<^verbatim>\<open>_debug\<close> and \<^verbatim>\<open>d\<close>; the text is what \<^verbatim>\<open>vfprintf\<close> makes of the format and its arguments.\<close>

definition debug_line :: "string \<Rightarrow> string" where
  "debug_line formatted = ''Debug: '' @ formatted"

definition d_print :: "bool \<Rightarrow> string \<Rightarrow> string" where
  "d_print debug formatted = (if debug then debug_line formatted else [])"

text \<open>The three arrays of 32 characters: time, remote and local address.\<close>

definition time_array :: "tm \<Rightarrow> string" where
  "time_array t = strftime_HMS (replicate 32 (CHR 0x00)) 32 t"

definition addr_array :: "sockaddr_in \<Rightarrow> string" where
  "addr_array a = strncpy (inet_ntoa (sin_addr a)) 32"

definition print_packet ::
  "bool \<Rightarrow> nat \<Rightarrow> tm \<Rightarrow> sockaddr_in \<Rightarrow> sockaddr_in \<Rightarrow> buffer \<Rightarrow> PKTDIR \<Rightarrow> string"
where
  "print_packet debug pid now addr_local addr_remote pktbuffer dir =
     (if \<not> debug then []
      else
        let arrow = (if dir = SEND then ''<'' else ''>'')
        in ''['' @ print_u pid @ ''] '' @ text_of (time_array now) @ '' | '' @
           text_of (addr_array addr_remote) @ '':'' @ print_u (unat (ntohs (sin_port addr_remote))) @ '' '' @
           arrow @ '' '' @ command2str (pktbuffer ! 0) @ '' '' @ arrow @ '' '' @
           text_of (addr_array addr_local) @ '':'' @ print_u (unat (ntohs (sin_port addr_local))) @
           '' | seq='' @ print_u (unat (get_seq_num pktbuffer)) @ '' len='' @ print_u (unat (GETLEN pktbuffer)) @
           [CHR 0x0A])"

section \<open>The build that loses packets\<close>

text \<open>
  \<open>rnd\<close> is what \<^verbatim>\<open>fgetc\<close> reads from \<^verbatim>\<open>/dev/urandom\<close>, \<open>None\<close> if the device cannot be opened (the null
  pointer then goes to \<^verbatim>\<open>fgetc\<close>). The remainder is compared with 0 only.
\<close>

definition send_packet_lossy ::
  "int \<Rightarrow> int option \<Rightarrow> world \<Rightarrow> sockaddr_in \<Rightarrow> buffer \<Rightarrow> (int \<times> world) outcome"
where
  "send_packet_lossy PL_DENOMINATOR rnd w target packet =
     (case rnd of
        None \<Rightarrow> Fault
      | Some c \<Rightarrow>
          if PL_DENOMINATOR = 0 then Fault
          else if c mod PL_DENOMINATOR \<noteq> 0 then Return (0, w)
          else Return (send_packet w target packet))"

section \<open>Lengths\<close>

lemma digit_char_not_nul:
  fixes d :: nat
  assumes "d < 10"
  shows "char_of (48 + d) \<noteq> CHR 0x00"
proof
  assume "char_of (48 + d) = CHR 0x00"
  then have "of_char (char_of (48 + d)) = (0 :: nat)" by simp
  with assms show False by simp
qed

lemma print_u_no_nul: "CHR 0x00 \<notin> set (print_u n)"
  unfolding print_u_def using digit_char_not_nul digits_less_10 by (metis (no_types, lifting) imageE list.set_map)

lemma text_of_no_nul: "CHR 0x00 \<notin> set s \<Longrightarrow> text_of s = s"
  by (simp add: text_of_def takeWhile_neq_all)

lemma text_of_terminated: "CHR 0x00 \<notin> set s \<Longrightarrow> text_of (s @ CHR 0x00 # r) = s"
  by (simp add: text_of_def takeWhile_neq_stop)

lemma text_of_strncpy:
  assumes "CHR 0x00 \<notin> set s" and "length s < n"
  shows "text_of (strncpy s n) = s" and "length (strncpy s n) = n"
proof -
  have "replicate (n - length s) (CHR 0x00) = CHR 0x00 # replicate (n - Suc (length s)) (CHR 0x00)"
    using assms(2) by (simp flip: replicate_Suc add: Suc_diff_Suc)
  then show "text_of (strncpy s n) = s"
    using assms by (simp add: strncpy_def text_of_no_nul text_of_terminated)
qed (use assms in \<open>simp add: strncpy_def text_of_no_nul\<close>)

lemma inet_ntoa_text: "CHR 0x00 \<notin> set (inet_ntoa a)" "length (inet_ntoa a) \<le> 15"
proof -
  have "length (print_u (octet a i)) \<le> 3" for i
    by (simp add: print_u_def octet_def length_digits_byte)
  from this [of 0] this [of 1] this [of 2] this [of 3] show "length (inet_ntoa a) \<le> 15"
    by (simp add: inet_ntoa_def)
qed (simp add: inet_ntoa_def print_u_no_nul)

lemma two_digits_text: "CHR 0x00 \<notin> set (two_digits n)" "length (two_digits n) = 2"
  using digit_char_not_nul [of "n div 10 mod 10"] digit_char_not_nul [of "n mod 10"] by (auto simp: two_digits_def)

lemma time_array_text: "length (text_of (time_array t)) = 8" "length (time_array t) = 32"
proof -
  let ?s = "two_digits (tm_hour t) @ '':'' @ two_digits (tm_min t) @ '':'' @ two_digits (tm_sec t)"
  have "CHR 0x00 \<notin> set ?s" "length ?s = 8" by (simp_all add: two_digits_text)
  then show "length (text_of (time_array t)) = 8" "length (time_array t) = 32"
    unfolding time_array_def strftime_HMS_def Let_def by (simp_all add: text_of_terminated del: append_assoc)
qed

section \<open>Losing packets\<close>

lemma lossy_send_none_lost: "send_packet_lossy 1 (Some c) w target packet = Return (send_packet w target packet)"
  by (simp add: send_packet_lossy_def)

lemma send_packet_counts: "n_send (snd (send_packet w target packet)) = Suc (n_send w)"
  by (simp add: send_packet_def sendto_def Let_def split: send_result.splits)

lemma lossy_send_iff:
  assumes "0 < k"
  shows "send_packet_lossy (int k) (Some (int b)) w target packet = Return (send_packet w target packet) \<longleftrightarrow> k dvd b"
proof -
  have "(0, w) \<noteq> send_packet w target packet" using send_packet_counts [of w target packet] by (metis n_not_Suc_n snd_conv)
  with assms show ?thesis by (auto simp: send_packet_lossy_def simp flip: of_nat_mod)
qed

lemma card_multiples:
  fixes k n :: nat
  assumes "0 < k"
  shows "card {b. b \<le> n \<and> k dvd b} = Suc (n div k)"
proof -
  have "{b. b \<le> n \<and> k dvd b} = (\<lambda>i. k * i) ` {0..n div k}"
    using assms by (auto simp: image_def less_eq_div_iff_mult_less_eq mult.commute elim!: dvdE)
  moreover have "inj_on (\<lambda>i. k * i) {0..n div k}" using assms by (simp add: inj_on_def)
  ultimately show ?thesis by (simp add: card_image)
qed

section \<open>Properties\<close>

text \<open>
  The fixed arrays of the debug output are large enough. The dotted address has at most 15
  characters, so that \<open>strncpy\<close> into 32 leaves a terminated string with nothing cut off; the
  time of day takes eight of its 32; and the text of a command, also of an unknown one, fits into the 16
  characters of \<open>command2str\<close> with its null byte.
\<close>

theorem debug_arrays_hold_text:
  "text_of (addr_array a) = inet_ntoa (sin_addr a) \<and> length (addr_array a) = 32 \<and>
   length (text_of (time_array t)) = 8 \<and> length (time_array t) = 32 \<and>
   length (inet_ntoa (sin_addr a)) < 16 \<and> length (command2str c) < 16"
  using inet_ntoa_text [of "sin_addr a"] time_array_text [of t] command2str_bounds [of c]
    text_of_strncpy [of "inet_ntoa (sin_addr a)" 32]
  by (simp add: addr_array_def)

text \<open>
  In the build with a denominator \<open>k\<close> exactly \<open>255 div k + 1\<close> of the 256 random bytes let a packet through;
  every other one reports success and sends nothing.
\<close>

lemma lossy_send_share:
  assumes "0 < k"
  shows "card {b. b \<le> 255 \<and> send_packet_lossy (int k) (Some (int b)) w target packet = Return (send_packet w target packet)}
         = Suc (255 div k)"
    and "\<not> k dvd b \<Longrightarrow> send_packet_lossy (int k) (Some (int b)) w target packet = Return (0, w)"
  using assms by (simp_all add: lossy_send_iff card_multiples)
    (auto simp: send_packet_lossy_def simp flip: of_nat_mod)

end
