(* ===== verification/Srtp_Packet.thy ===== *)
theory Srtp_Packet
  imports C_Library
begin

text \<open>
  \<^verbatim>\<open>srtp/srtp_header.h\<close> and the packet macros and utilities of \<^verbatim>\<open>srtp/srtp_impl.h\<close> and
  \<^verbatim>\<open>srtp/srtp_impl.cpp\<close>. A packet is a buffer whose first eight bytes are the structure
  \<open>srtp_header_t\<close> in the byte order of the machine (low byte first); the fields are not converted
  to network order. The locale \<open>header_field\<close> states what a getter and a setter promise.
\<close>

unbundle bit_operations_syntax

section \<open>Constants\<close>

definition SYN :: byte where [simp]: "SYN = 1"
definition ACK :: byte where [simp]: "ACK = 2"
definition FIN :: byte where [simp]: "FIN = 4"
definition RST :: byte where [simp]: "RST = 8"
definition RDY :: byte where [simp]: "RDY = 16"

definition PAYLOAD_MAXSIZE :: nat where [simp]: "PAYLOAD_MAXSIZE = 1024"
definition PKT_HEADERSIZE :: nat where [simp]: "PKT_HEADERSIZE = 8"
definition PKT_MAXSIZE :: nat where [simp]: "PKT_MAXSIZE = PKT_HEADERSIZE + PAYLOAD_MAXSIZE"

section \<open>The header\<close>

record srtp_header_t =
  h_len :: u16
  h_seq :: u16
  h_ack :: u16
  h_cmdinfo :: byte
  h_cmd :: byte

definition PKT_GETLEN :: "buffer \<Rightarrow> u16" where "PKT_GETLEN buf = load16 buf 0"
definition PKT_GETSEQ :: "buffer \<Rightarrow> u16" where "PKT_GETSEQ buf = load16 buf 2"
definition PKT_GETACK :: "buffer \<Rightarrow> u16" where "PKT_GETACK buf = load16 buf 4"
definition PKT_GETCMDINFO :: "buffer \<Rightarrow> byte" where "PKT_GETCMDINFO buf = buf ! 6"
definition PKT_GETCMD :: "buffer \<Rightarrow> byte" where "PKT_GETCMD buf = buf ! 7"

definition PKT_SETLEN :: "buffer \<Rightarrow> u16 \<Rightarrow> buffer" where "PKT_SETLEN buf len = store16 buf 0 len"
definition PKT_SETSEQ :: "buffer \<Rightarrow> u16 \<Rightarrow> buffer" where "PKT_SETSEQ buf seqnum = store16 buf 2 seqnum"
definition PKT_SETACK :: "buffer \<Rightarrow> u16 \<Rightarrow> buffer" where "PKT_SETACK buf acknum = store16 buf 4 acknum"
definition PKT_SETCMDINFO :: "buffer \<Rightarrow> byte \<Rightarrow> buffer" where "PKT_SETCMDINFO buf info = buf[6 := info]"
definition PKT_SETCMD :: "buffer \<Rightarrow> byte \<Rightarrow> buffer" where "PKT_SETCMD buf command = buf[7 := command]"

text \<open>The command test joins its operands with the logical \<^verbatim>\<open>&&\<close>.\<close>

definition PKT_HASCMD :: "buffer \<Rightarrow> byte \<Rightarrow> bool" where
  "PKT_HASCMD buf command \<longleftrightarrow> PKT_GETCMD buf \<noteq> 0 \<and> command \<noteq> 0"

definition PKT_SYN :: "buffer \<Rightarrow> bool" where "PKT_SYN buf = PKT_HASCMD buf SYN"
definition PKT_ACK :: "buffer \<Rightarrow> bool" where "PKT_ACK buf = PKT_HASCMD buf ACK"
definition PKT_FIN :: "buffer \<Rightarrow> bool" where "PKT_FIN buf = PKT_HASCMD buf FIN"
definition PKT_RST :: "buffer \<Rightarrow> bool" where "PKT_RST buf = PKT_HASCMD buf RST"

definition PKT_PAYLOAD :: "buffer \<Rightarrow> buffer" where "PKT_PAYLOAD buf = drop PKT_HEADERSIZE buf"
definition PKT_PAYLOADLEN :: "buffer \<Rightarrow> u16" where "PKT_PAYLOADLEN buf = PKT_GETLEN buf"

definition PKT_ZEROPAYLOAD :: "buffer \<Rightarrow> buffer" where
  "PKT_ZEROPAYLOAD buf = put_at buf 0 (replicate PKT_MAXSIZE 0)"

definition PKT_ZERO :: "buffer \<Rightarrow> buffer" where
  "PKT_ZERO buf = PKT_SETLEN (put_at buf PKT_HEADERSIZE (replicate PAYLOAD_MAXSIZE 0)) 0"

definition PKT_COPYTO :: "buffer \<Rightarrow> buffer \<Rightarrow> buffer" where
  "PKT_COPYTO dest src = put_at dest 0 (take PKT_MAXSIZE src)"

definition PKT_INVALID_LEN :: "u16 \<Rightarrow> bool" where
  "PKT_INVALID_LEN len \<longleftrightarrow> unat len > PAYLOAD_MAXSIZE"

definition PKT_INVALID_CMD :: "byte \<Rightarrow> bool" where
  "PKT_INVALID_CMD cmd \<longleftrightarrow> cmd > (SYN OR ACK OR FIN OR RST OR RDY)"

definition PKT_INVALID :: "buffer \<Rightarrow> bool" where
  "PKT_INVALID buf \<longleftrightarrow> PKT_INVALID_LEN (PKT_GETLEN buf) \<or> PKT_INVALID_CMD (PKT_GETCMD buf)"

section \<open>Utilities\<close>

text \<open>One flag of \<^verbatim>\<open>srtp_cmdstr\<close>: a separator if something was printed before, then the name.\<close>

definition add_flag :: "u32 \<Rightarrow> byte \<Rightarrow> string \<Rightarrow> string \<Rightarrow> string" where
  "add_flag cmd flag name s =
     (if cmd AND ucast flag \<noteq> 0 then (if s \<noteq> '''' then s @ ''+'' else s) @ name else s)"

definition srtp_cmdstr :: "u32 \<Rightarrow> string" where
  "srtp_cmdstr cmd =
     add_flag cmd ACK ''ACK'' (add_flag cmd RDY ''RDY'' (add_flag cmd FIN ''FIN''
       (add_flag cmd SYN ''SYN'' (add_flag cmd RST ''RST'' ''''))))"

definition pkt_invalid :: "buffer \<Rightarrow> int" where
  "pkt_invalid buf =
     (if PKT_INVALID_LEN (PKT_GETLEN buf) then 1
      else if PKT_INVALID_CMD (PKT_GETCMD buf) then 1
      else 0)"

definition pkt_set_payload :: "buffer \<Rightarrow> buffer \<Rightarrow> u16 \<Rightarrow> int \<times> buffer" where
  "pkt_set_payload buf payload len =
     (if PKT_INVALID_LEN len then (-1, buf)
      else (int (unat len), PKT_SETLEN (put_at buf PKT_HEADERSIZE (take (unat len) payload)) len))"

definition pkt_pack ::
  "buffer \<Rightarrow> byte \<Rightarrow> u16 \<Rightarrow> u16 \<Rightarrow> u16 \<Rightarrow> byte \<Rightarrow> buffer \<Rightarrow> int \<times> buffer"
where
  "pkt_pack buf cmd len seqno ackno cmdinfo payload =
     (if PKT_INVALID_CMD cmd then (-1, buf)
      else pkt_set_payload
             (PKT_SETCMDINFO (PKT_SETACK (PKT_SETSEQ (PKT_SETCMD buf cmd) seqno) ackno) cmdinfo)
             payload len)"

section \<open>Getters and setters\<close>

text \<open>The structure a buffer holds.\<close>

definition header_of :: "buffer \<Rightarrow> srtp_header_t" where
  "header_of buf =
     \<lparr>h_len = PKT_GETLEN buf, h_seq = PKT_GETSEQ buf, h_ack = PKT_GETACK buf,
      h_cmdinfo = PKT_GETCMDINFO buf, h_cmd = PKT_GETCMD buf\<rparr>"

text \<open>
  What a pair of macros for one field promises: the setter changes this field of the structure and
  nothing else, neither another field nor the payload, and the getter reads it.
\<close>

locale header_field =
  fixes get :: "buffer \<Rightarrow> 'v" and set_field :: "buffer \<Rightarrow> 'v \<Rightarrow> buffer"
    and sel :: "srtp_header_t \<Rightarrow> 'v" and upd :: "('v \<Rightarrow> 'v) \<Rightarrow> srtp_header_t \<Rightarrow> srtp_header_t"
  assumes get_sel: "get buf = sel (header_of buf)"
    and sel_upd: "sel (upd (\<lambda>_. v) h) = v"
    and set_header: "8 \<le> length buf \<Longrightarrow> header_of (set_field buf v) = upd (\<lambda>_. v) (header_of buf)"
    and set_payload: "drop 8 (set_field buf v) = drop 8 buf"
    and set_length: "length (set_field buf v) = length buf"
begin

lemma get_set: "8 \<le> length buf \<Longrightarrow> get (set_field buf v) = v"
  by (simp add: get_sel set_header sel_upd)

lemma set_keeps_payload: "PKT_PAYLOAD (set_field buf v) = PKT_PAYLOAD buf"
  by (simp add: PKT_PAYLOAD_def set_payload)

end

lemmas getter_defs = PKT_GETLEN_def PKT_GETSEQ_def PKT_GETACK_def PKT_GETCMDINFO_def PKT_GETCMD_def
lemmas setter_defs = PKT_SETLEN_def PKT_SETSEQ_def PKT_SETACK_def PKT_SETCMDINFO_def PKT_SETCMD_def

lemma load16_list_update: "i \<noteq> off \<Longrightarrow> i \<noteq> Suc off \<Longrightarrow> load16 (buf[i := v]) off = load16 buf off"
  by (simp add: load16_def)

lemma drop_store16: "Suc off < n \<Longrightarrow> drop n (store16 buf off w) = drop n buf"
  by (simp add: store16_def)

interpretation len_field: header_field PKT_GETLEN PKT_SETLEN h_len h_len_update
  by unfold_locales (simp_all add: header_of_def getter_defs setter_defs bytes_simps drop_store16)

interpretation seq_field: header_field PKT_GETSEQ PKT_SETSEQ h_seq h_seq_update
  by unfold_locales (simp_all add: header_of_def getter_defs setter_defs bytes_simps drop_store16)

interpretation ack_field: header_field PKT_GETACK PKT_SETACK h_ack h_ack_update
  by unfold_locales (simp_all add: header_of_def getter_defs setter_defs bytes_simps drop_store16)

interpretation cmdinfo_field: header_field PKT_GETCMDINFO PKT_SETCMDINFO h_cmdinfo h_cmdinfo_update
  by unfold_locales (simp_all add: header_of_def getter_defs setter_defs load16_list_update)

interpretation cmd_field: header_field PKT_GETCMD PKT_SETCMD h_cmd h_cmd_update
  by unfold_locales (simp_all add: header_of_def getter_defs setter_defs load16_list_update)

lemmas header_updates =
  len_field.set_header seq_field.set_header ack_field.set_header cmdinfo_field.set_header cmd_field.set_header

lemmas setter_lengths [simp] =
  len_field.set_length seq_field.set_length ack_field.set_length cmdinfo_field.set_length cmd_field.set_length

lemmas setter_payloads =
  len_field.set_payload seq_field.set_payload ack_field.set_payload cmdinfo_field.set_payload cmd_field.set_payload

lemma header_of_put_at: "8 \<le> length buf \<Longrightarrow> header_of (put_at buf 8 bs) = header_of buf"
  by (simp add: header_of_def getter_defs load16_def nth_put_at_before)

lemma pkt_set_payload_ok:
  assumes "\<not> PKT_INVALID_LEN len" and "unat len \<le> length payload" and "PKT_HEADERSIZE + unat len \<le> length buf"
  obtains buf' where "pkt_set_payload buf payload len = (int (unat len), buf')"
    and "header_of buf' = (header_of buf)\<lparr>h_len := len\<rparr>"
    and "PKT_PAYLOAD buf' = take (unat len) payload @ drop (PKT_HEADERSIZE + unat len) buf"
    and "length buf' = length buf"
proof -
  let ?b = "put_at buf PKT_HEADERSIZE (take (unat len) payload)"
  have len: "length ?b = length buf" using assms(2,3) by simp
  have "header_of (PKT_SETLEN ?b len) = (header_of buf)\<lparr>h_len := len\<rparr>"
    using len assms(3) header_of_put_at [of buf] by (simp add: header_updates)
  moreover have "PKT_PAYLOAD (PKT_SETLEN ?b len) = take (unat len) payload @ drop (PKT_HEADERSIZE + unat len) buf"
    using assms(2,3) unfolding len_field.set_keeps_payload by (simp add: PKT_PAYLOAD_def drop_put_at)
  ultimately show thesis using that assms(1) len by (simp add: pkt_set_payload_def)
qed

text \<open>The flags of a command in the order in which they are printed.\<close>

definition flag_names :: "u32 \<Rightarrow> string list" where
  "flag_names cmd =
     map snd (filter (\<lambda>f. cmd AND ucast (fst f) \<noteq> 0)
       [(RST, ''RST''), (SYN, ''SYN''), (FIN, ''FIN''), (RDY, ''RDY''), (ACK, ''ACK'')])"

fun join_plus :: "string list \<Rightarrow> string" where
  "join_plus [] = ''''"
| "join_plus [s] = s"
| "join_plus (s # ss) = s @ ''+'' @ join_plus ss"

section \<open>Properties\<close>

text \<open>
  C34: a packet built by \<open>pkt_pack\<close> holds the given command, numbers and length in its header and the
  given payload behind it, passes the validity check, and whatever was in the buffer before does not
  matter; the result is the length of the payload.
\<close>

theorem pkt_pack_round_trip:
  assumes "cmd \<le> 31" and "unat len \<le> PAYLOAD_MAXSIZE" and "unat len \<le> length payload"
    and "PKT_MAXSIZE \<le> length buf"
  shows "\<exists>buf'. pkt_pack buf cmd len seqno ackno cmdinfo payload = (int (unat len), buf') \<and>
           header_of buf' = \<lparr>h_len = len, h_seq = seqno, h_ack = ackno, h_cmdinfo = cmdinfo, h_cmd = cmd\<rparr> \<and>
           take (unat (PKT_PAYLOADLEN buf')) (PKT_PAYLOAD buf') = take (unat len) payload \<and>
           pkt_invalid buf' = 0"
proof -
  let ?b = "PKT_SETCMDINFO (PKT_SETACK (PKT_SETSEQ (PKT_SETCMD buf cmd) seqno) ackno) cmdinfo"
  have ok: "\<not> PKT_INVALID_CMD cmd" "\<not> PKT_INVALID_LEN len"
    using assms(1,2) by (simp_all add: PKT_INVALID_CMD_def PKT_INVALID_LEN_def)
  have fits: "PKT_HEADERSIZE + unat len \<le> length ?b" using assms(2,4) by simp
  obtain buf' where b': "pkt_set_payload ?b payload len = (int (unat len), buf')"
    "header_of buf' = (header_of ?b)\<lparr>h_len := len\<rparr>"
    "PKT_PAYLOAD buf' = take (unat len) payload @ drop (PKT_HEADERSIZE + unat len) ?b"
    by (rule pkt_set_payload_ok [OF ok(2) assms(3) fits])
  have h: "header_of buf' = \<lparr>h_len = len, h_seq = seqno, h_ack = ackno, h_cmdinfo = cmdinfo, h_cmd = cmd\<rparr>"
    using b'(2) assms(4) by (simp add: header_updates)
  then have "PKT_GETLEN buf' = len" "PKT_GETCMD buf' = cmd" by (simp_all add: header_of_def)
  with b' h ok assms(3) show ?thesis
    by (simp add: pkt_pack_def PKT_PAYLOADLEN_def pkt_invalid_def)
qed

theorem pkt_pack_round_trip_witness:
  "\<exists>buf'. pkt_pack (replicate PKT_MAXSIZE 9) (SYN OR ACK) 3 65535 7 0 [1, 2, 3] = (int (unat (3 :: u16)), buf') \<and>
     header_of buf' = \<lparr>h_len = 3, h_seq = 65535, h_ack = 7, h_cmdinfo = 0, h_cmd = SYN OR ACK\<rparr> \<and>
     take (unat (PKT_PAYLOADLEN buf')) (PKT_PAYLOAD buf') = take (unat (3 :: u16)) [1, 2, 3] \<and>
     pkt_invalid buf' = 0"
  by (rule pkt_pack_round_trip) simp_all

text \<open>
  A refused packet: with an invalid command nothing is written; with a payload that is too long the
  length and the payload stay, but the other header fields have been overwritten already.
\<close>

lemma pkt_pack_refused:
  assumes "8 \<le> length buf"
  shows "cmd > 31 \<Longrightarrow> pkt_pack buf cmd len seqno ackno cmdinfo payload = (-1, buf)"
    and "cmd \<le> 31 \<Longrightarrow> unat len > PAYLOAD_MAXSIZE \<Longrightarrow>
      \<exists>buf'. pkt_pack buf cmd len seqno ackno cmdinfo payload = (-1, buf') \<and>
        header_of buf' = (header_of buf)\<lparr>h_seq := seqno, h_ack := ackno, h_cmdinfo := cmdinfo, h_cmd := cmd\<rparr> \<and>
        PKT_PAYLOAD buf' = PKT_PAYLOAD buf"
  using assms
  by (simp_all add: pkt_pack_def PKT_INVALID_CMD_def PKT_INVALID_LEN_def pkt_set_payload_def header_updates
      PKT_PAYLOAD_def setter_payloads)

text \<open>
  The text of a command bitmask lists the names of exactly the flags that are set, in a fixed
  order and separated by plus signs, and fits with its final zero into the recommended 32 bytes.
\<close>

theorem cmdstr_lists_flags:
  "srtp_cmdstr cmd = join_plus (flag_names cmd) \<and> length (srtp_cmdstr cmd) + 1 \<le> 32"
  by (auto simp: srtp_cmdstr_def add_flag_def flag_names_def)

text \<open>
  The command tests do not look at the flag they are asked for: any packet with a command at all
  is a SYN, an ACK, a FIN and a RST.
\<close>

lemma command_tests_agree:
  "PKT_SYN buf = (PKT_GETCMD buf \<noteq> 0)" "PKT_ACK buf = (PKT_GETCMD buf \<noteq> 0)"
  "PKT_FIN buf = (PKT_GETCMD buf \<noteq> 0)" "PKT_RST buf = (PKT_GETCMD buf \<noteq> 0)"
  by (simp_all add: PKT_SYN_def PKT_ACK_def PKT_FIN_def PKT_RST_def PKT_HASCMD_def)

end
