(* ===== verification/Srtp_Io.thy ===== *)
theory Srtp_Io
  imports Srtp_Packet
begin

text \<open>
  The transmission loops of \<^verbatim>\<open>srtp/srtp_impl.cpp\<close>: \<^verbatim>\<open>srtp_write\<close>, \<^verbatim>\<open>srtp_read\<close>, \<^verbatim>\<open>srtp_sendto\<close>, and
  on top of them the connection request and the sending of data with retransmission. A descriptor
  is a record of streams: what the next \<^verbatim>\<open>write\<close> accepts, what the next \<^verbatim>\<open>read\<close> delivers, and what
  \<^verbatim>\<open>gettimeofday\<close> says, in microseconds.
\<close>

type_synonym u64 = "64 word"

definition CONNECT_TIMEOUT :: u64 where [simp]: "CONNECT_TIMEOUT = 5000"
definition RETRY_TIMEOUT_BASE :: u64 where [simp]: "RETRY_TIMEOUT_BASE = 50"

text \<open>
  \<open>io_put k m\<close> is the result of the \<open>k\<close>-th \<^verbatim>\<open>write\<close> or \<^verbatim>\<open>sendto\<close> when it is offered \<open>m\<close> bytes;
  \<open>io_get k\<close> is what the \<open>k\<close>-th \<^verbatim>\<open>read\<close> finds (\<open>None\<close> for the result -1); \<open>io_out\<close> logs the
  blocks of bytes that were accepted.
\<close>

record io =
  io_put :: "nat \<Rightarrow> nat \<Rightarrow> int"
  io_get :: "nat \<Rightarrow> buffer option"
  io_clock :: "nat \<Rightarrow> int"
  n_put :: nat
  n_get :: nat
  n_clock :: nat
  io_out :: "buffer list"

definition write_call :: "io \<Rightarrow> buffer \<Rightarrow> int \<times> io" where
  "write_call d bs =
     (let r = io_put d (n_put d) (length bs);
          d' = d\<lparr>n_put := Suc (n_put d)\<rparr>
      in (r, if r < 0 then d' else d'\<lparr>io_out := io_out d @ [take (nat r) bs]\<rparr>))"

definition read_call :: "io \<Rightarrow> nat \<Rightarrow> int \<times> buffer \<times> io" where
  "read_call d m =
     (case io_get d (n_get d) of
        None \<Rightarrow> (-1, [], d\<lparr>n_get := Suc (n_get d)\<rparr>)
      | Some bs \<Rightarrow> (int (length (take m bs)), take m bs, d\<lparr>n_get := Suc (n_get d)\<rparr>))"

definition gettimeofday :: "io \<Rightarrow> int \<times> io" where
  "gettimeofday d = (io_clock d (n_clock d), d\<lparr>n_clock := Suc (n_clock d)\<rparr>)"

section \<open>Reading and writing whole blocks\<close>

text \<open>The result of each call, -1 included, is added to the count before it is looked at.\<close>

partial_function (option) write_loop :: "io \<Rightarrow> buffer \<Rightarrow> nat \<Rightarrow> int \<Rightarrow> (int \<times> io) option" where
  "write_loop d buffer len nsent =
     (case write_call d (take (len - nat nsent) (drop (nat nsent) buffer)) of
        (r, d') \<Rightarrow>
          if nsent + r > 0 \<and> nsent + r < int len then write_loop d' buffer len (nsent + r)
          else Some (nsent + r, d'))"

definition srtp_write :: "io \<Rightarrow> buffer \<Rightarrow> nat \<Rightarrow> (int \<times> io) option" where
  "srtp_write d buffer len = write_loop d buffer len 0"

definition srtp_sendto :: "io \<Rightarrow> buffer \<Rightarrow> nat \<Rightarrow> (int \<times> io) option" where
  "srtp_sendto d message len = write_loop d message len 0"

partial_function (option) read_loop :: "io \<Rightarrow> buffer \<Rightarrow> nat \<Rightarrow> int \<Rightarrow> (int \<times> buffer \<times> io) option" where
  "read_loop d buffer len recvd =
     (case read_call d (len - nat recvd) of
        (r, bs, d') \<Rightarrow>
          let buffer' = put_at buffer (nat recvd) bs in
          if recvd + r > 0 \<and> recvd + r < int len then read_loop d' buffer' len (recvd + r)
          else Some (recvd + r, buffer', d'))"

definition srtp_read :: "io \<Rightarrow> buffer \<Rightarrow> nat \<Rightarrow> (int \<times> buffer \<times> io) option" where
  "srtp_read d buffer len = read_loop d buffer len 0"

section \<open>Connection request and data\<close>

text \<open>The difference of two time stamps, computed in \<^verbatim>\<open>unsigned long\<close>: earlier minus later wraps around.\<close>

definition elapsed :: "int \<Rightarrow> int \<Rightarrow> u64" where
  "elapsed t2 t1 = word_of_int (t2 - t1)"

definition syn_header :: "buffer \<Rightarrow> u16 \<Rightarrow> u16 \<Rightarrow> buffer" where
  "syn_header buff seqno len = PKT_SETLEN (PKT_SETSEQ (PKT_SETCMD buff SYN) seqno) len"

text \<open>
  The two nested loops of \<^verbatim>\<open>establish_conn\<close> as one: \<open>sending\<close> is true at the label that sends the
  SYN, and false in the inner loop. The \<^verbatim>\<open>break\<close> on an acknowledgement leaves the inner loop only
  and so leads back to the label; the code behind the loops is never reached.
\<close>

partial_function (option) establish_loop ::
  "bool \<Rightarrow> io \<Rightarrow> buffer \<Rightarrow> int \<Rightarrow> u64 \<Rightarrow> (int \<times> io) option"
where
  "establish_loop sending d buff t2 total_msec =
     (if sending then
        Option.bind (srtp_write d (syn_header buff 0 0) PKT_HEADERSIZE) (\<lambda>(_, d1).
          (case gettimeofday d1 of
             (t, d2) \<Rightarrow> establish_loop False d2 (syn_header buff 0 0) t total_msec))
      else
        Option.bind (srtp_read d buff PKT_HEADERSIZE) (\<lambda>(n, buff1, d1).
          if n = int PKT_HEADERSIZE \<and> PKT_ACK buff1 \<and> PKT_GETACK buff1 = 0
          then establish_loop True d1 buff1 t2 total_msec
          else
            (case gettimeofday d1 of
               (t1, d2) \<Rightarrow>
                 let dt = elapsed t2 t1;
                     total = total_msec + dt div 1000
                 in if total > CONNECT_TIMEOUT then Some (-1, d2)
                    else if dt > RETRY_TIMEOUT_BASE * 1000 then establish_loop True d2 buff1 t2 total
                    else establish_loop False d2 buff1 t2 total)))"

definition establish_conn :: "io \<Rightarrow> buffer \<Rightarrow> (int \<times> io) option" where
  "establish_conn d buff = establish_loop True d buff 0 0"

definition shutdown_conn :: "int \<Rightarrow> int \<Rightarrow> int" where
  "shutdown_conn sock how = 0"

text \<open>
  \<^verbatim>\<open>send_srtp_data\<close>: the header is prepared in \<open>buff\<close> but the data is written without it; the
  sequence number is always 0.
\<close>

partial_function (option) send_loop ::
  "bool \<Rightarrow> io \<Rightarrow> buffer \<Rightarrow> buffer \<Rightarrow> nat \<Rightarrow> int \<Rightarrow> (int \<times> io) option"
where
  "send_loop sending d buff data len t2 =
     (if sending then
        Option.bind (srtp_write d data len) (\<lambda>(nsent, d1).
          if nsent < 0 then Some (-1, d1)
          else
            (case gettimeofday d1 of
               (t, d2) \<Rightarrow> send_loop False d2 (syn_header buff 0 (word_of_nat len)) data len t))
      else
        Option.bind (srtp_read d buff PKT_HEADERSIZE) (\<lambda>(n, buff1, d1).
          if n = int PKT_HEADERSIZE \<and> PKT_ACK buff1 \<and> PKT_GETACK buff1 = 0
          then send_loop True d1 buff1 data len t2
          else
            (case gettimeofday d1 of
               (t1, d2) \<Rightarrow>
                 if elapsed t2 t1 > RETRY_TIMEOUT_BASE * 1000 then send_loop True d2 buff1 data len t2
                 else send_loop False d2 buff1 data len t2)))"

definition send_srtp_data :: "io \<Rightarrow> buffer \<Rightarrow> buffer \<Rightarrow> nat \<Rightarrow> (int \<times> io) option" where
  "send_srtp_data d buff data len = send_loop True d buff data len 0"

section \<open>The loops on a descriptor that makes progress\<close>

definition progressing :: "io \<Rightarrow> bool" where
  "progressing d \<longleftrightarrow> (\<forall>k m. 0 < m \<longrightarrow> 1 \<le> io_put d k m \<and> io_put d k m \<le> int m)"

text \<open>The streams of a descriptor do not change.\<close>

definition same_io :: "io \<Rightarrow> io \<Rightarrow> bool" where
  "same_io d d' \<longleftrightarrow> io_put d' = io_put d \<and> io_get d' = io_get d \<and> io_clock d' = io_clock d"

lemma progressing_same_io: "progressing d \<Longrightarrow> same_io d d' \<Longrightarrow> progressing d'"
  by (simp add: progressing_def same_io_def)

lemma write_call_progress:
  assumes "progressing d" and "bs \<noteq> []"
  obtains j where "0 < j" and "j \<le> length bs"
    and "write_call d bs = (int j, d\<lparr>n_put := Suc (n_put d), io_out := io_out d @ [take j bs]\<rparr>)"
proof -
  have "1 \<le> io_put d (n_put d) (length bs)" "io_put d (n_put d) (length bs) \<le> int (length bs)"
    using assms by (simp_all add: progressing_def)
  then show thesis
    by (intro that [of "nat (io_put d (n_put d) (length bs))"]) (auto simp: write_call_def Let_def)
qed

lemma write_loop_progress:
  assumes "progressing d" and "i < len" and "len \<le> length buffer"
  shows "\<exists>d'. write_loop d buffer len (int i) = Some (int len, d') \<and> same_io d d' \<and>
           concat (io_out d') = concat (io_out d) @ take (len - i) (drop i buffer)"
  using assms
proof (induction "len - i" arbitrary: d i rule: less_induct)
  case less
  let ?bs = "take (len - i) (drop i buffer)"
  have "?bs \<noteq> []" and bs: "length ?bs = len - i" using less.prems by auto
  then obtain j where j: "0 < j" "j \<le> len - i"
    "write_call d ?bs = (int j, d\<lparr>n_put := Suc (n_put d), io_out := io_out d @ [take j ?bs]\<rparr>)"
    using write_call_progress [OF less.prems(1)] by metis
  let ?d = "d\<lparr>n_put := Suc (n_put d), io_out := io_out d @ [take j ?bs]\<rparr>"
  have same: "same_io d ?d" by (simp add: same_io_def)
  show ?case
  proof (cases "i + j < len")
    case True
    have step: "write_loop d buffer len (int i) = write_loop ?d buffer len (int (i + j))"
      using j True by (subst write_loop.simps) simp
    have smaller: "len - (i + j) < len - i" using j True by simp
    obtain d' where d': "write_loop ?d buffer len (int (i + j)) = Some (int len, d')" "same_io ?d d'"
      "concat (io_out d') = concat (io_out ?d) @ take (len - (i + j)) (drop (i + j) buffer)"
      using less.hyps [OF smaller, of ?d] progressing_same_io [OF less.prems(1) same] True less.prems(3) by auto
    have "take j ?bs @ take (len - (i + j)) (drop (i + j) buffer) = ?bs"
      using j True by (metis add.commute append_take_drop_id diff_diff_left drop_drop drop_take)
    with step d' show ?thesis by (auto simp: same_io_def)
  next
    case False
    then have "i + j = len" using j by simp
    then show ?thesis using j same less.prems(2) by (subst write_loop.simps) (auto simp: same_io_def)
  qed
qed

lemma read_call_io: "read_call d m = (n, bs, d') \<Longrightarrow> same_io d d'"
  by (auto simp: read_call_def same_io_def split: option.splits)

lemma same_io_trans: "same_io d d' \<Longrightarrow> same_io d' d'' \<Longrightarrow> same_io d d''"
  by (simp add: same_io_def)

lemma same_io_clock: "gettimeofday d = (t, d') \<Longrightarrow> same_io d d'"
  by (auto simp: gettimeofday_def same_io_def)

lemma read_loop_io:
  assumes ret: "read_loop d buffer len recvd = Some r"
  shows "same_io d (snd (snd r))"
proof (rule read_loop.raw_induct [where P = "\<lambda>d b l c r. same_io d (snd (snd r))", OF _ ret])
  fix f d b l c r
  assume IH: "\<And>d b l c r. f d b l c = Some r \<Longrightarrow> same_io d (snd (snd r))"
    and eq: "(case read_call d (l - nat c) of
        (r, bs, d') \<Rightarrow>
          let b' = put_at b (nat c) bs in
          if c + r > 0 \<and> c + r < int l then f d' b' l (c + r) else Some (c + r, b', d')) = Some r"
  obtain n bs d' where rc: "read_call d (l - nat c) = (n, bs, d')" by (cases "read_call d (l - nat c)")
  with eq IH [of d' "put_at b (nat c) bs" l "c + n" r] read_call_io [OF rc]
  show "same_io d (snd (snd r))" by (auto simp: Let_def intro: same_io_trans split: if_splits)
qed

lemma srtp_read_io: "srtp_read d buffer len = Some (n, b, d') \<Longrightarrow> same_io d d'"
  unfolding srtp_read_def using read_loop_io by fastforce

section \<open>How the retransmission loops end\<close>

lemma establish_loop_result:
  assumes ret: "establish_loop sending d buff t2 msec = Some r"
  shows "fst r = -1"
proof (rule establish_loop.raw_induct [where P = "\<lambda>s d b t2 tm r. fst r = -1", OF _ ret])
  fix f s d b t2 tm and r :: "int \<times> io"
  assume IH: "\<And>s d b t2 tm r. f s d b t2 tm = Some r \<Longrightarrow> fst r = -1"
    and eq: "(if s then
        Option.bind (srtp_write d (syn_header b 0 0) PKT_HEADERSIZE) (\<lambda>(_, d1).
          (case gettimeofday d1 of (t, d2) \<Rightarrow> f False d2 (syn_header b 0 0) t tm))
      else
        Option.bind (srtp_read d b PKT_HEADERSIZE) (\<lambda>(n, b1, d1).
          if n = int PKT_HEADERSIZE \<and> PKT_ACK b1 \<and> PKT_GETACK b1 = 0 then f True d1 b1 t2 tm
          else
            (case gettimeofday d1 of
               (t1, d2) \<Rightarrow>
                 let dt = elapsed t2 t1; total = tm + dt div 1000
                 in if total > CONNECT_TIMEOUT then Some (-1, d2)
                    else if dt > RETRY_TIMEOUT_BASE * 1000 then f True d2 b1 t2 total
                    else f False d2 b1 t2 total))) = Some r"
  show "fst r = -1"
  proof (cases s)
    case True
    then obtain n d1 where w: "srtp_write d (syn_header b 0 0) PKT_HEADERSIZE = Some (n, d1)"
      using eq by (auto simp: bind_eq_Some_conv)
    obtain t d2 where "gettimeofday d1 = (t, d2)" by fastforce
    with eq True w show ?thesis using IH by simp
  next
    case False
    then obtain n b1 d1 where rd: "srtp_read d b PKT_HEADERSIZE = Some (n, b1, d1)"
      using eq by (auto simp: bind_eq_Some_conv)
    obtain t d2 where g: "gettimeofday d1 = (t, d2)" by fastforce
    let ?dt = "elapsed t2 t" and ?tm = "tm + elapsed t2 t div 1000"
    have "Some r \<in> {f True d1 b1 t2 tm, Some (-1, d2), f True d2 b1 t2 ?tm, f False d2 b1 t2 ?tm}"
      using eq g unfolding rd Let_def if_not_P [OF False] by (simp split: if_splits)
    then show ?thesis using IH [of _ _ _ _ _ r] by (metis fst_conv insertE option.inject singletonD)
  qed
qed

text \<open>A result means that some write returned a negative count.\<close>

lemma send_loop_result:
  assumes ret: "send_loop sending d buff data len t2 = Some r"
    and "progressing d" and "0 < len" and "len \<le> length data"
  shows False
proof -
  let ?P = "\<lambda>s d b data len t2 (r :: int \<times> io). progressing d \<longrightarrow> 0 < len \<longrightarrow> len \<le> length data \<longrightarrow> False"
  have "?P sending d buff data len t2 r"
  proof (rule send_loop.raw_induct [where P = ?P, OF _ ret], intro impI)
    fix f s d b data len t2 and r :: "int \<times> io"
    assume IH: "\<And>s d b data len t2 r. f s d b data len t2 = Some r \<Longrightarrow> ?P s d b data len t2 r"
      and eq: "(if s then
        Option.bind (srtp_write d data len) (\<lambda>(nsent, d1).
          if nsent < 0 then Some (-1, d1)
          else
            (case gettimeofday d1 of
               (t, d2) \<Rightarrow> f False d2 (syn_header b 0 (word_of_nat len)) data len t))
      else
        Option.bind (srtp_read d b PKT_HEADERSIZE) (\<lambda>(n, b1, d1).
          if n = int PKT_HEADERSIZE \<and> PKT_ACK b1 \<and> PKT_GETACK b1 = 0 then f True d1 b1 data len t2
          else
            (case gettimeofday d1 of
               (t1, d2) \<Rightarrow>
                 if elapsed t2 t1 > RETRY_TIMEOUT_BASE * 1000 then f True d2 b1 data len t2
                 else f False d2 b1 data len t2))) = Some r"
      and d: "progressing d" "0 < len" "len \<le> length data"
    show False
    proof (cases s)
      case True
      obtain d1 where w: "srtp_write d data len = Some (int len, d1)" "same_io d d1"
        using write_loop_progress [OF d] by (auto simp: srtp_write_def)
      obtain t d2 where g: "gettimeofday d1 = (t, d2)" by fastforce
      then have "progressing d2"
        using progressing_same_io [OF d(1)] same_io_trans [OF w(2) same_io_clock] by blast
      then show False using eq True w g d IH by auto
    next
      case False
      then obtain n b1 d1 where rd: "srtp_read d b PKT_HEADERSIZE = Some (n, b1, d1)"
        using eq by (auto simp: bind_eq_Some_conv)
      obtain t d2 where g: "gettimeofday d1 = (t, d2)" by fastforce
      have "progressing d1" "progressing d2"
        using progressing_same_io [OF d(1)] srtp_read_io [OF rd] same_io_trans [OF srtp_read_io [OF rd] same_io_clock [OF g]]
        by blast+
      then show False using eq False rd g d IH by (auto split: if_splits)
    qed
  qed
  with assms show False by simp
qed

text \<open>A difference that wrapped around exceeds every time-out.\<close>

lemma elapsed_wraps:
  assumes "0 < t1 - t2" and "t1 - t2 < 2 ^ 62"
  shows "elapsed t2 t1 div 1000 > CONNECT_TIMEOUT"
proof -
  have "uint (elapsed t2 t1) = (t2 - t1) mod 2 ^ 64"
    unfolding elapsed_def uint_word_of_int by simp
  also have "\<dots> = (t2 - t1 + 2 ^ 64) mod 2 ^ 64" by simp
  also have "\<dots> = t2 - t1 + 2 ^ 64" using assms by (intro mod_pos_pos_trivial) auto
  finally have "uint (elapsed t2 t1) = t2 - t1 + 2 ^ 64" .
  then have "5000 < uint (elapsed t2 t1) div 1000" using assms by simp
  then show ?thesis by (simp add: word_less_def uint_div)
qed

section \<open>Properties\<close>

text \<open>
  C35: on a descriptor that accepts at least one byte per call, \<open>srtp_write\<close> ends, returns the length
  and hands over exactly the bytes of the block in order, in however many pieces.
\<close>

theorem srtp_write_complete:
  assumes "progressing d" and "0 < len" and "len \<le> length buffer"
  shows "\<exists>d'. srtp_write d buffer len = Some (int len, d') \<and>
           concat (io_out d') = concat (io_out d) @ take len buffer"
  using write_loop_progress [OF assms] by (auto simp: srtp_write_def)

text \<open>A descriptor for examples: it takes at most two bytes at a time, delivers nothing, and has a steady clock.\<close>

definition slow_io :: io where
  "slow_io = \<lparr>io_put = (\<lambda>k m. min 2 (int m)), io_get = (\<lambda>k. None), io_clock = int,
     n_put = 0, n_get = 0, n_clock = 0, io_out = []\<rparr>"

lemma slow_io_progressing: "progressing slow_io"
  by (simp add: progressing_def slow_io_def)

theorem srtp_write_complete_witness:
  "\<exists>d'. srtp_write slow_io [1, 2, 3, 4, 5] 5 = Some (int 5, d') \<and>
     concat (io_out d') = concat (io_out slow_io) @ take 5 [1, 2, 3, 4, 5]"
  by (rule srtp_write_complete [OF slow_io_progressing]) simp_all

text \<open>
  An error in the middle is not reported. When a first call accepts \<open>m\<close> bytes, a second fails and a
  third accepts what it is offered, the -1 is added to the count, the last byte accepted before the
  failure is sent a second time, and the call still returns the full length.
\<close>

theorem srtp_write_failure_resends:
  assumes "io_put d (n_put d) len = int m" and "io_put d (Suc (n_put d)) (len - m) = -1"
    and "io_put d (Suc (Suc (n_put d))) (len - (m - 1)) = int (len - (m - 1))"
    and "2 \<le> m" and "m < len" and "len \<le> length buffer"
  shows "\<exists>d'. srtp_write d buffer len = Some (int len, d') \<and>
           io_out d' = io_out d @ [take m buffer, drop (m - 1) (take len buffer)]"
proof -
  obtain j where m: "m = Suc j" "0 < j" using assms(4) by (cases m) auto
  have third: "io_put d (Suc (Suc (n_put d))) (len - j) = int (len - j)" using assms(3) m by simp
  have a: "take (len - j) (drop j buffer) = drop j (take len buffer)" by (simp add: drop_take)
  have less: "j < len" "Suc j < len" using assms(5) m by simp_all
  let ?d1 = "d\<lparr>n_put := Suc (n_put d), io_out := io_out d @ [take m buffer]\<rparr>"
  let ?d2 = "d\<lparr>n_put := Suc (Suc (n_put d)), io_out := io_out d @ [take m buffer]\<rparr>"
  let ?d3 = "d\<lparr>n_put := Suc (Suc (Suc (n_put d))), io_out := io_out d @ [take m buffer, drop j (take len buffer)]\<rparr>"
  have "write_call d (take len buffer) = (int m, ?d1)"
    using assms(1,5,6) by (simp add: write_call_def Let_def min_absorb1)
  then have 1: "write_loop d buffer len 0 = write_loop ?d1 buffer len (int m)"
    using assms(4,5) by (subst write_loop.simps) simp
  have "write_call ?d1 (take (len - m) (drop m buffer)) = (-1, ?d2)"
    using assms(2,6) by (simp add: write_call_def Let_def)
  moreover have "int m + -1 = int j" "0 < int j" "int j < int len" using m less by simp_all
  ultimately have 2: "write_loop ?d1 buffer len (int m) = write_loop ?d2 buffer len (int j)"
    by (subst write_loop.simps) (simp only: nat_int prod.case if_True simp_thms)
  have "write_call ?d2 (take (len - j) (drop j buffer)) = (int (len - j), ?d3)"
    using third assms(6) unfolding a by (simp add: write_call_def Let_def)
  then have 3: "write_loop ?d2 buffer len (int j) = Some (int len, ?d3)"
    using less by (subst write_loop.simps) simp
  show ?thesis unfolding srtp_write_def 1 2 3 using m by simp
qed

theorem srtp_write_failure_resends_witness:
  "\<exists>d'. srtp_write (slow_io\<lparr>io_put := \<lambda>k m. if k = 0 then 2 else if k = 1 then -1 else int m\<rparr>) [10, 20, 30] 3 =
       Some (int 3, d') \<and>
     io_out d' = io_out (slow_io\<lparr>io_put := \<lambda>k m. if k = 0 then 2 else if k = 1 then -1 else int m\<rparr>) @
       [take 2 [10, 20, 30], drop (2 - 1) (take 3 [10, 20, 30])]"
  by (rule srtp_write_failure_resends) (simp_all add: slow_io_def)

text \<open>
  \<open>establish_conn\<close> never reports a connection: whatever arrives, also the acknowledgement it waits
  for, its only result is -1.
\<close>

lemma establish_conn_never_connects:
  "establish_conn d buff \<noteq> Some (0, d')"
  using establish_loop_result [of True d buff 0 0 "(0, d')"] by (auto simp: establish_conn_def)

text \<open>
  The connection attempt is given up at the first look at the clock, however short the time that
  has passed: the difference of the time stamps is taken the wrong way round and wraps to a huge
  number. One SYN has been sent.
\<close>

theorem establish_conn_gives_up_at_once:
  assumes "progressing d" and "length buff = PKT_HEADERSIZE" and "io_get d (n_get d) = None"
    and "0 < io_clock d (Suc (n_clock d)) - io_clock d (n_clock d)"
    and "io_clock d (Suc (n_clock d)) - io_clock d (n_clock d) < 2 ^ 62"
    and "\<forall>m. io_put d (n_put d) m = int m"
  shows "\<exists>d'. establish_conn d buff = Some (-1, d') \<and> io_out d' = io_out d @ [syn_header buff 0 0]"
proof -
  let ?h = "syn_header buff 0 0"
  let ?d1 = "d\<lparr>n_put := Suc (n_put d), io_out := io_out d @ [?h]\<rparr>"
  let ?d2 = "?d1\<lparr>n_clock := Suc (n_clock d)\<rparr>" and ?d3 = "?d1\<lparr>n_clock := Suc (n_clock d), n_get := Suc (n_get d)\<rparr>"
  have h: "length ?h = 8" using assms(2) by (simp add: syn_header_def)
  have w: "srtp_write d ?h PKT_HEADERSIZE = Some (8, ?d1)"
    using assms(6) h unfolding srtp_write_def
    by (subst write_loop.simps) (simp add: write_call_def Let_def)
  have r: "srtp_read ?d2 ?h PKT_HEADERSIZE = Some (-1, ?h, ?d3)"
    using assms(3) unfolding srtp_read_def
    by (subst read_loop.simps) (simp add: read_call_def put_at_def)
  have "establish_conn d buff = establish_loop False ?d2 ?h (io_clock d (n_clock d)) 0"
    unfolding establish_conn_def using w by (subst establish_loop.simps) (simp add: gettimeofday_def)
  also have "\<dots> = Some (-1, ?d3\<lparr>n_clock := Suc (Suc (n_clock d))\<rparr>)"
    using r elapsed_wraps [OF assms(4,5)] by (subst establish_loop.simps) (simp add: gettimeofday_def Let_def)
  finally show ?thesis by simp
qed

theorem establish_conn_gives_up_at_once_witness:
  "\<exists>d'. establish_conn (slow_io\<lparr>io_put := \<lambda>k m. int m\<rparr>) (replicate PKT_HEADERSIZE 0) = Some (-1, d') \<and>
     io_out d' = io_out (slow_io\<lparr>io_put := \<lambda>k m. int m\<rparr>) @ [syn_header (replicate PKT_HEADERSIZE 0) 0 0]"
  by (rule establish_conn_gives_up_at_once) (simp_all add: slow_io_def progressing_def)

text \<open>
  C40: \<open>send_srtp_data\<close> has no way to succeed: as long as writing works it never returns, acknowledged
  or not, and sends the same data again and again.
\<close>

theorem send_srtp_data_never_returns:
  assumes "progressing d" and "0 < len" and "len \<le> length data"
  shows "send_srtp_data d buff data len = None"
  using send_loop_result [OF _ assms, of True buff 0] unfolding send_srtp_data_def
  by (cases "send_loop True d buff data len 0") auto

theorem send_srtp_data_never_returns_witness:
  "send_srtp_data slow_io (replicate PKT_HEADERSIZE 0) [1, 2, 3] 3 = None"
  by (rule send_srtp_data_never_returns [OF slow_io_progressing]) simp_all

end
