(* ===== verification/Srtp_Conn.thy ===== *)
theory Srtp_Conn
  imports Srtp_Io "HOL-Library.Multiset"
begin

text \<open>
  The connections of \<^verbatim>\<open>srtp/srtp_impl.cpp\<close>: the global tables, the handling of received packets, the
  two proxies, and the socket interface with its wrappers in \<^verbatim>\<open>srtp/srtp.cpp\<close>. Pointers to
  connections are options; the maps have the semantics of \<^verbatim>\<open>std::map\<close>: \<^verbatim>\<open>operator[]\<close> inserts a zero
  or a null pointer when the key is missing, and \<^verbatim>\<open>insert\<close> does nothing when the key is present.
\<close>

section \<open>State\<close>

record Mesg_t =
  m_mesg :: buffer
  m_len :: nat
  m_seq :: u32

record Conn_t =
  c_tid :: nat
  c_fifo :: int
  c_filename :: string
  c_sock :: int
  c_addr :: sockaddr_in
  c_addr_len :: nat
  c_sequence :: u32
  c_inbox :: "Mesg_t list"

text \<open>A worker thread and the argument it was started with.\<close>

datatype worker = Server_proxy int | Client_proxy int

text \<open>
  The globals, with the fifo files in the directory, the open descriptors, the bytes written to each
  descriptor, the UDP socket of the listening thread, and the running threads.
\<close>

record srtp_state =
  hash2fd :: "u32 \<rightharpoonup> int"
  fd2conn :: "int \<rightharpoonup> Conn_t option"
  new_conns :: "int list"
  fifo_id :: nat
  fifo_files :: "string list"
  open_fds :: "int list"
  fd_data :: "int \<Rightarrow> buffer"
  udp :: io
  workers :: "(nat \<times> worker) list"
  srtp_packet_debug :: bool

text \<open>
  Answers of the operating system: \<^verbatim>\<open>mkfifo\<close> and \<^verbatim>\<open>open\<close> for the numbered file names, \<^verbatim>\<open>socket\<close>,
  \<^verbatim>\<open>bind\<close>, \<^verbatim>\<open>connect\<close>, \<^verbatim>\<open>pthread_create\<close> (the identifier it stores and whether a thread runs), and the
  content of fresh memory: a connection as \<^verbatim>\<open>new\<close> finds it and a header on the stack.
\<close>

record os =
  os_mkfifo :: "nat \<Rightarrow> int"
  os_open :: "nat \<Rightarrow> int"
  os_socket :: int
  os_bind :: "sockaddr_in \<Rightarrow> int"
  os_connect :: "sockaddr_in \<Rightarrow> int"
  os_thread :: nat
  os_thread_ok :: bool
  os_conn :: Conn_t
  os_header :: buffer

text \<open>\<^verbatim>\<open>std::map\<close>: \<^verbatim>\<open>operator[]\<close> and \<^verbatim>\<open>insert\<close>.\<close>

definition map_index :: "('k \<rightharpoonup> 'v) \<Rightarrow> 'k \<Rightarrow> 'v \<Rightarrow> 'v \<times> ('k \<rightharpoonup> 'v)" where
  "map_index m k dflt = (case m k of Some v \<Rightarrow> (v, m) | None \<Rightarrow> (dflt, m(k \<mapsto> dflt)))"

definition map_insert :: "('k \<rightharpoonup> 'v) \<Rightarrow> 'k \<Rightarrow> 'v \<Rightarrow> ('k \<rightharpoonup> 'v)" where
  "map_insert m k v = (case m k of Some _ \<Rightarrow> m | None \<Rightarrow> m(k \<mapsto> v))"

text \<open>
  \<^verbatim>\<open>memcpy\<close> of \<open>n\<close> bytes of a \<^verbatim>\<open>sockaddr_in\<close> onto another one: 16 bytes, of which bytes 2 and 3 are the
  port and bytes 4 to 7 the address, the low byte of a word first. A length beyond the structure, which
  no caller rules out, is a fault.
\<close>

definition low_bytes :: "nat \<Rightarrow> 'a::len word \<Rightarrow> 'a word \<Rightarrow> 'a word" where
  "low_bytes k src dst = word_of_nat (unat src mod 256 ^ k + unat dst div 256 ^ k * 256 ^ k)"

definition memcpy_addr :: "nat \<Rightarrow> sockaddr_in \<Rightarrow> sockaddr_in \<Rightarrow> sockaddr_in option" where
  "memcpy_addr n src dst =
     (if n > 16 then None
      else Some \<lparr>sin_addr = low_bytes (n - 4) (sin_addr src) (sin_addr dst),
                 sin_port = low_bytes (n - 2) (sin_port src) (sin_port dst)\<rparr>)"

section \<open>Creating a socket\<close>

text \<open>The name \<^verbatim>\<open>sprintf\<close> makes with \<^verbatim>\<open>tmpfifo%05d\<close>.\<close>

definition fifo_name :: "nat \<Rightarrow> string" where
  "fifo_name n =
     (let ds = map (\<lambda>d. char_of (48 + d)) (digits n) :: string
      in ''tmpfifo'' @ replicate (5 - length ds) (CHR ''0'') @ ds)"

partial_function (option) make_fifo :: "os \<Rightarrow> nat \<Rightarrow> nat option" where
  "make_fifo sys n = (if os_mkfifo sys n \<noteq> 0 then make_fifo sys (Suc n) else Some n)"

definition srtp_socket_impl :: "os \<Rightarrow> srtp_state \<Rightarrow> (int \<times> srtp_state) option" where
  "srtp_socket_impl sys s =
     map_option (\<lambda>n.
       let s1 = s\<lparr>fifo_id := Suc n, fifo_files := fifo_name n # fifo_files s\<rparr>;
           fd = os_open sys n
       in if fd < 0 then (-1, s1\<lparr>fifo_files := removeAll (fifo_name n) (fifo_files s1)\<rparr>)
          else
            let conn = (os_conn sys)\<lparr>c_fifo := fd, c_filename := fifo_name n, c_inbox := []\<rparr>
            in (fd, s1\<lparr>fd2conn := map_insert (fd2conn s1) fd (Some conn),
                       open_fds := fd # open_fds s1\<rparr>))
       (make_fifo sys (fifo_id s))"

section \<open>Received packets\<close>

text \<open>The insertion into the inbox: before the first message with a larger number, else at the end.\<close>

primrec insert_mesg :: "Mesg_t \<Rightarrow> Mesg_t list \<Rightarrow> Mesg_t list" where
  "insert_mesg m [] = [m]"
| "insert_mesg m (x # xs) = (if m_seq x > m_seq m then m # x # xs else x # insert_mesg m xs)"

text \<open>
  \<^verbatim>\<open>handle_data_pkt\<close>: the returned value, the connection, and the bytes written to its fifo. The
  pointer to the payload is advanced by the size of the header a second time before it is used.
\<close>

definition handle_data_pkt :: "buffer \<Rightarrow> Conn_t option \<Rightarrow> (int \<times> Conn_t option \<times> buffer) outcome" where
  "handle_data_pkt head conn =
     (case conn of
        None \<Rightarrow> Return (1, None, [])
      | Some c \<Rightarrow>
          let len = unat (PKT_GETLEN head);
              start = PKT_HEADERSIZE + PKT_HEADERSIZE;
              bytes = take len (drop start head)
          in if start + len > length head then Fault
             else if c_sequence c = ucast (PKT_GETSEQ head) then
               Return (0, Some (c\<lparr>c_sequence := c_sequence c + 1\<rparr>), bytes)
             else
               Return (0, Some (c\<lparr>c_inbox :=
                 insert_mesg \<lparr>m_mesg = bytes, m_len = len, m_seq = ucast (PKT_GETSEQ head)\<rparr> (c_inbox c)\<rparr>), []))"

definition handle_cmd_pkt :: "int \<Rightarrow> buffer \<Rightarrow> Conn_t option \<Rightarrow> int" where
  "handle_cmd_pkt sock head conn = 0"

text \<open>The acknowledgement; its fields \<^verbatim>\<open>ack\<close> and \<^verbatim>\<open>cmdinfo\<close> are what the stack held.\<close>

definition ack_header :: "os \<Rightarrow> u16 \<Rightarrow> buffer" where
  "ack_header sys seqno = PKT_SETSEQ (PKT_SETLEN (PKT_SETCMD (os_header sys) ACK) 0) seqno"

definition send_ack_to :: "os \<Rightarrow> io \<Rightarrow> u16 \<Rightarrow> io option" where
  "send_ack_to sys d seqno = map_option snd (srtp_sendto d (ack_header sys seqno) PKT_HEADERSIZE)"

text \<open>
  One round of the endless loop of \<^verbatim>\<open>recv_srtp_data\<close>: \<open>None\<close> is a failed receive, otherwise the
  buffer of \<open>len\<close> bytes and the sender.
\<close>

definition find_conn :: "os \<Rightarrow> srtp_state \<Rightarrow> sockaddr_in \<Rightarrow> nat \<Rightarrow> (int \<times> Conn_t \<times> srtp_state) outcome option" where
  "find_conn sys s addr len =
     (case map_index (hash2fd s) (sin_addr addr) 0 of
        (fifo, h) \<Rightarrow>
          (case map_index (fd2conn s) fifo None of
             (Some c, m) \<Rightarrow> Some (Return (fifo, c, s\<lparr>hash2fd := h, fd2conn := m\<rparr>))
           | (None, m) \<Rightarrow>
               map_option (\<lambda>(fd, s1).
                 (case map_index (fd2conn s1) fd None of
                    (None, _) \<Rightarrow> Fault
                  | (Some c, m1) \<Rightarrow>
                      let c1 = c\<lparr>c_addr := addr, c_addr_len := len\<rparr>
                      in Return (fd, c1, s1\<lparr>fd2conn := m1(fd \<mapsto> Some c1),
                                           hash2fd := map_insert (hash2fd s1) (sin_addr addr) fd\<rparr>)))
                 (srtp_socket_impl sys (s\<lparr>hash2fd := h, fd2conn := m\<rparr>))))"

definition recv_round ::
  "os \<Rightarrow> srtp_state \<Rightarrow> (buffer \<times> sockaddr_in) option \<Rightarrow> srtp_state outcome option"
where
  "recv_round sys s rx =
     (case rx of
        None \<Rightarrow> Some (Return s)
      | Some (buf, addr) \<Rightarrow>
          Option.bind (find_conn sys s addr (length buf)) (\<lambda>oc.
            (case oc of
               Return (fifo, c, s1) \<Rightarrow>
                 if unat (PKT_GETLEN buf) > 0 then
                   (case handle_data_pkt buf (Some c) of
                      Return (_, c', bytes) \<Rightarrow>
                        map_option (\<lambda>d.
                          Return (s1\<lparr>fd2conn := (fd2conn s1)(fifo \<mapsto> c'),
                                     fd_data := (fd_data s1)(c_fifo c := fd_data s1 (c_fifo c) @ bytes),
                                     udp := d\<rparr>))
                          (send_ack_to sys (udp s1) (PKT_GETSEQ buf))
                    | Exit e \<Rightarrow> Some (Exit e)
                    | Fault \<Rightarrow> Some Fault)
                 else Some (Return s1)
             | Exit e \<Rightarrow> Some (Exit e)
             | Fault \<Rightarrow> Some Fault)))"

text \<open>
  The loop itself, over the answers of the receives. It has no way to return: its result type says
  what \<^verbatim>\<open>server_proxy\<close> expects of it, the number of bytes with the buffer, their sender, and the state.
\<close>

partial_function (option) recv_srtp_data ::
  "os \<Rightarrow> (nat \<Rightarrow> (buffer \<times> sockaddr_in) option) \<Rightarrow> nat \<Rightarrow> srtp_state \<Rightarrow>
   (int \<times> buffer \<times> sockaddr_in \<times> nat \<times> srtp_state) outcome option"
where
  "recv_srtp_data sys rx k s =
     Option.bind (recv_round sys s (rx k)) (\<lambda>oc.
       (case oc of
          Return s' \<Rightarrow> recv_srtp_data sys rx (Suc k) s'
        | Exit e \<Rightarrow> Some (Exit e)
        | Fault \<Rightarrow> Some Fault))"

section \<open>The proxies\<close>

text \<open>
  What \<^verbatim>\<open>server_proxy\<close> does with data that \<^verbatim>\<open>recv_srtp_data\<close> returns: a new connection is
  queued for \<^verbatim>\<open>accept\<close>, and the data goes to the fifo of the sender.
\<close>

definition proxy_deliver ::
  "os \<Rightarrow> srtp_state \<Rightarrow> sockaddr_in \<Rightarrow> nat \<Rightarrow> buffer \<Rightarrow> srtp_state outcome option"
where
  "proxy_deliver sys s src src_len data =
     (case hash2fd s (sin_addr src) of
        None \<Rightarrow>
          map_option (\<lambda>(fd, s1).
            (case map_index (fd2conn s1) fd None of
               (None, _) \<Rightarrow> Fault
             | (Some c, m) \<Rightarrow>
                 (case memcpy_addr src_len src (c_addr c) of
                    None \<Rightarrow> Fault
                  | Some a \<Rightarrow>
                      Return (s1\<lparr>fd2conn := m(fd \<mapsto> Some (c\<lparr>c_addr := a, c_addr_len := src_len\<rparr>)),
                                 fd_data := (fd_data s1)(fd := fd_data s1 fd @ data),
                                 new_conns := new_conns s1 @ [fd],
                                 hash2fd := map_insert (hash2fd s1) (sin_addr src) fd\<rparr>))))
            (srtp_socket_impl sys s)
      | Some fd \<Rightarrow> Some (Return (s\<lparr>fd_data := (fd_data s)(fd := fd_data s fd @ data)\<rparr>)))"

text \<open>The loop of \<^verbatim>\<open>server_proxy\<close>; \<open>src_len\<close> is the uninitialised length it passes on.\<close>

partial_function (option) proxy_loop ::
  "os \<Rightarrow> (nat \<Rightarrow> (buffer \<times> sockaddr_in) option) \<Rightarrow> nat \<Rightarrow> nat \<Rightarrow> srtp_state \<Rightarrow> srtp_state outcome option"
where
  "proxy_loop sys rx src_len k s =
     Option.bind (recv_srtp_data sys rx k s) (\<lambda>oc.
       (case oc of
          Return (n, buffer, src, k', s1) \<Rightarrow>
            if n < 0 then Some (Return s1)
            else Option.bind (proxy_deliver sys s1 src src_len (take (nat n) buffer)) (\<lambda>oc2.
                   (case oc2 of
                      Return s2 \<Rightarrow> proxy_loop sys rx src_len k' s2
                    | Exit e \<Rightarrow> Some (Exit e)
                    | Fault \<Rightarrow> Some Fault))
        | Exit e \<Rightarrow> Some (Exit e)
        | Fault \<Rightarrow> Some Fault))"

text \<open>
  \<^verbatim>\<open>server_proxy\<close> looks its connection up and reads the port in it for a message, so that a missing
  connection is a fault.
\<close>

definition server_proxy ::
  "os \<Rightarrow> (nat \<Rightarrow> (buffer \<times> sockaddr_in) option) \<Rightarrow> nat \<Rightarrow> int \<Rightarrow> srtp_state \<Rightarrow> srtp_state outcome option"
where
  "server_proxy sys rx src_len fifo_fd s =
     (case map_index (fd2conn s) fifo_fd None of
        (None, _) \<Rightarrow> Some Fault
      | (Some conn, m) \<Rightarrow> proxy_loop sys rx src_len 0 (s\<lparr>fd2conn := m\<rparr>))"

text \<open>
  \<^verbatim>\<open>client_proxy\<close> over the blocks its reads of the fifo return, an empty one for the end; \<open>d\<close> is the socket
  of its connection.
\<close>

primrec client_proxy :: "buffer list \<Rightarrow> io \<Rightarrow> buffer \<Rightarrow> io option" where
  "client_proxy [] d buff = Some d"
| "client_proxy (x # xs) d buff =
     (if x = [] then Some d
      else Option.bind (send_srtp_data d buff x (length x)) (\<lambda>(nsent, d').
             if nsent < 0 then Some d' else client_proxy xs d' buff))"

section \<open>The socket interface\<close>

definition isValidFD :: "srtp_state \<Rightarrow> int \<Rightarrow> bool" where
  "isValidFD s fd \<longleftrightarrow> fd \<in> set (open_fds s)"

definition isOpenSRTPSock :: "srtp_state \<Rightarrow> int \<Rightarrow> bool" where
  "isOpenSRTPSock s fd \<longleftrightarrow> isValidFD s fd \<and> fd2conn s fd \<noteq> None"

definition isValidIPAddress :: "sockaddr_in option \<Rightarrow> nat \<Rightarrow> bool" where
  "isValidIPAddress addr addr_len \<longleftrightarrow> addr \<noteq> None \<and> addr_len > 0"

text \<open>The connection of an open socket; a null pointer in the table is a fault.\<close>

definition with_conn :: "srtp_state \<Rightarrow> int \<Rightarrow> (Conn_t \<Rightarrow> (int \<times> srtp_state)) \<Rightarrow> (int \<times> srtp_state) outcome" where
  "with_conn s fd f = (case fd2conn s fd of Some (Some c) \<Rightarrow> Return (f c) | _ \<Rightarrow> Fault)"

text \<open>Effects of system calls on the descriptors and threads of the process.\<close>

definition open_fd :: "int \<Rightarrow> srtp_state \<Rightarrow> srtp_state" where
  "open_fd x s = (if x < 0 then s else s\<lparr>open_fds := x # open_fds s\<rparr>)"

definition close_fd :: "int \<Rightarrow> srtp_state \<Rightarrow> srtp_state" where
  "close_fd x s = s\<lparr>open_fds := removeAll x (open_fds s)\<rparr>"

definition start_worker :: "os \<Rightarrow> worker \<Rightarrow> srtp_state \<Rightarrow> srtp_state" where
  "start_worker sys k s = (if os_thread_ok sys then s\<lparr>workers := (os_thread sys, k) # workers s\<rparr> else s)"

definition cancel_worker :: "nat \<Rightarrow> srtp_state \<Rightarrow> srtp_state" where
  "cancel_worker tid s = s\<lparr>workers := filter (\<lambda>w. fst w \<noteq> tid) (workers s)\<rparr>"

definition set_conn :: "int \<Rightarrow> Conn_t \<Rightarrow> srtp_state \<Rightarrow> srtp_state" where
  "set_conn fd c s = s\<lparr>fd2conn := (fd2conn s)(fd \<mapsto> Some c)\<rparr>"

definition srtp_listen_impl :: "os \<Rightarrow> srtp_state \<Rightarrow> int \<Rightarrow> (int \<times> srtp_state) outcome" where
  "srtp_listen_impl sys s fd =
     (if \<not> isOpenSRTPSock s fd then Return (-1, s)
      else with_conn s fd (\<lambda>c.
             let c1 = c\<lparr>c_sock := os_socket sys\<rparr>;
                 s1 = set_conn fd c1 (open_fd (os_socket sys) s)
             in if \<not> isValidIPAddress (Some (c_addr c1)) (c_addr_len c1) then (-1, s1)
                else if os_bind sys (c_addr c1) = -1 then (-1, s1)
                else (0, start_worker sys (Server_proxy fd) (set_conn fd (c1\<lparr>c_tid := os_thread sys\<rparr>) s1))))"

definition srtp_bind_impl ::
  "srtp_state \<Rightarrow> int \<Rightarrow> sockaddr_in option \<Rightarrow> nat \<Rightarrow> (int \<times> srtp_state) outcome"
where
  "srtp_bind_impl s fd addr addr_len =
     (if \<not> isOpenSRTPSock s fd then Return (-1, s)
      else if \<not> isValidIPAddress addr addr_len then Return (-1, s)
      else
        (case fd2conn s fd of
           Some (Some c) \<Rightarrow>
             (case memcpy_addr addr_len (the addr) (c_addr c) of
                None \<Rightarrow> Fault
              | Some a \<Rightarrow> Return (0, set_conn fd (c\<lparr>c_addr := a, c_addr_len := addr_len\<rparr>) s))
         | _ \<Rightarrow> Fault))"

text \<open>
  \<^verbatim>\<open>_srtp_accept\<close>: \<open>None\<close> while the queue of new connections is empty (it waits). \<open>caller\<close> is the caller's
  structure and length, if it gave any: the address is copied there, and the length is stored in the
  connection.
\<close>

definition srtp_accept_impl ::
  "srtp_state \<Rightarrow> int \<Rightarrow> (sockaddr_in \<times> nat) option \<Rightarrow> (int \<times> sockaddr_in option \<times> srtp_state) outcome option"
where
  "srtp_accept_impl s fd caller =
     (if \<not> isOpenSRTPSock s fd then Some (Return (-1, None, s))
      else
        (case new_conns s of
           [] \<Rightarrow> None
         | fifo # rest \<Rightarrow>
             let s1 = s\<lparr>new_conns := rest\<rparr> in
             (case caller of
                None \<Rightarrow> Some (Return (fifo, None, s1\<lparr>fd2conn := snd (map_index (fd2conn s1) fifo None)\<rparr>))
              | Some (addr, n) \<Rightarrow>
                  (case fd2conn s1 fifo of
                     Some (Some c) \<Rightarrow>
                       (case memcpy_addr (c_addr_len c) (c_addr c) addr of
                          None \<Rightarrow> Some Fault
                        | Some a \<Rightarrow>
                            Some (Return (fifo, Some a,
                              s1\<lparr>fd2conn := (fd2conn s1)(fifo \<mapsto> Some (c\<lparr>c_addr_len := n\<rparr>))\<rparr>)))
                   | _ \<Rightarrow> Some Fault))))"

text \<open>\<open>d\<close> is the UDP socket that was connected, \<open>buff\<close> the uninitialised header of \<^verbatim>\<open>establish_conn\<close>.\<close>

definition srtp_connect_impl ::
  "os \<Rightarrow> srtp_state \<Rightarrow> int \<Rightarrow> sockaddr_in option \<Rightarrow> nat \<Rightarrow> io \<Rightarrow> buffer \<Rightarrow> (int \<times> srtp_state) outcome option"
where
  "srtp_connect_impl sys s fd addr addr_len d buff =
     (if \<not> isOpenSRTPSock s fd then Some (Return (-1, s))
      else if \<not> isValidIPAddress addr addr_len then Some (Return (-1, s))
      else
        let sock = os_socket sys;
            s1 = open_fd sock s
        in if os_connect sys (the addr) = -1 then Some (Return (-1, s1))
           else
             (case fd2conn s1 fd of
                Some (Some c) \<Rightarrow>
                  (case memcpy_addr addr_len (the addr) (c_addr c) of
                     None \<Rightarrow> Some Fault
                   | Some a \<Rightarrow>
                       let c1 = c\<lparr>c_addr := a, c_sock := sock\<rparr>;
                           s2 = set_conn fd c1 s1
                       in Option.bind (establish_conn d buff) (\<lambda>(r, _).
                            Some (Return
                              (if r \<noteq> 0 then (-1, close_fd sock s2)
                               else (0, start_worker sys (Client_proxy fd) (set_conn fd (c1\<lparr>c_tid := os_thread sys\<rparr>) s2))))))
              | _ \<Rightarrow> Some Fault))"

text \<open>
  \<^verbatim>\<open>_srtp_close\<close> looks at \<^verbatim>\<open>tid\<close> to see whether the socket has a worker; nothing sets it before
  \<^verbatim>\<open>listen\<close> or \<^verbatim>\<open>connect\<close> does.
\<close>

definition srtp_close_impl :: "srtp_state \<Rightarrow> int \<Rightarrow> (int \<times> srtp_state) outcome" where
  "srtp_close_impl s fd =
     (if \<not> isOpenSRTPSock s fd then Return (-1, s)
      else
        let s1 = close_fd fd s in
        with_conn s1 fd (\<lambda>c.
          let s2 = (if c_tid c \<noteq> 0 then cancel_worker (c_tid c) (close_fd (c_sock c) s1) else s1)
          in (0, s2\<lparr>fifo_files := removeAll (c_filename c) (fifo_files s2), fd2conn := (fd2conn s2)(fd := None)\<rparr>)))"

definition srtp_debug_impl :: "srtp_state \<Rightarrow> bool \<Rightarrow> srtp_state" where
  "srtp_debug_impl s enable = s\<lparr>srtp_packet_debug := enable\<rparr>"

text \<open>
  The wrappers of \<^verbatim>\<open>srtp.cpp\<close>. \<^verbatim>\<open>srtp_bind\<close> swaps the bytes of the port in the caller's structure
  before it passes it on, so its result includes that structure; the others only pass their
  arguments on.
\<close>

definition srtp_socket :: "os \<Rightarrow> srtp_state \<Rightarrow> (int \<times> srtp_state) option" where
  "srtp_socket sys s = srtp_socket_impl sys s"

definition srtp_listen :: "os \<Rightarrow> srtp_state \<Rightarrow> int \<Rightarrow> (int \<times> srtp_state) outcome" where
  "srtp_listen sys s fd = srtp_listen_impl sys s fd"

definition srtp_bind ::
  "srtp_state \<Rightarrow> int \<Rightarrow> sockaddr_in option \<Rightarrow> nat \<Rightarrow> (int \<times> sockaddr_in \<times> srtp_state) outcome"
where
  "srtp_bind s fd addr addr_len =
     (case addr of
        None \<Rightarrow> Fault
      | Some a \<Rightarrow>
          let a' = a\<lparr>sin_port := ntohs (sin_port a)\<rparr> in
          (case srtp_bind_impl s fd (Some a') addr_len of
             Return (r, s') \<Rightarrow> Return (r, a', s')
           | Exit e \<Rightarrow> Exit e
           | Fault \<Rightarrow> Fault))"

definition srtp_accept ::
  "srtp_state \<Rightarrow> int \<Rightarrow> (sockaddr_in \<times> nat) option \<Rightarrow> (int \<times> sockaddr_in option \<times> srtp_state) outcome option"
where
  "srtp_accept s fd caller = srtp_accept_impl s fd caller"

definition srtp_connect ::
  "os \<Rightarrow> srtp_state \<Rightarrow> int \<Rightarrow> sockaddr_in option \<Rightarrow> nat \<Rightarrow> io \<Rightarrow> buffer \<Rightarrow> (int \<times> srtp_state) outcome option"
where
  "srtp_connect sys s fd addr addr_len d buff = srtp_connect_impl sys s fd addr addr_len d buff"

definition srtp_close :: "srtp_state \<Rightarrow> int \<Rightarrow> (int \<times> srtp_state) outcome" where
  "srtp_close s fd = srtp_close_impl s fd"

definition srtp_debug :: "srtp_state \<Rightarrow> bool \<Rightarrow> srtp_state" where
  "srtp_debug s enable = srtp_debug_impl s enable"

section \<open>Tables and inbox\<close>

lemma map_index_Some: "m k = Some v \<Longrightarrow> map_index m k dflt = (v, m)"
  by (simp add: map_index_def)

lemma insert_mesg_set [simp]: "set (insert_mesg m xs) = insert m (set xs)"
  by (induction xs) auto

lemma insert_mesg_mset [simp]: "mset (insert_mesg m xs) = add_mset m (mset xs)"
  by (induction xs) auto

lemma insert_mesg_sorted: "sorted (map m_seq xs) \<Longrightarrow> sorted (map m_seq (insert_mesg m xs))"
  by (induction xs) auto

lemma handle_data_pkt_cases:
  assumes "handle_data_pkt buf (Some c) = Return (r, c', bytes)"
  obtains (in_order) "c_sequence c = ucast (PKT_GETSEQ buf)" "c' = Some (c\<lparr>c_sequence := c_sequence c + 1\<rparr>)"
      "bytes = take (unat (PKT_GETLEN buf)) (drop 16 buf)" "r = 0"
    | (early) "c_sequence c \<noteq> ucast (PKT_GETSEQ buf)" "bytes = []" "r = 0"
      "c' = Some (c\<lparr>c_inbox := insert_mesg \<lparr>m_mesg = take (unat (PKT_GETLEN buf)) (drop 16 buf),
          m_len = unat (PKT_GETLEN buf), m_seq = ucast (PKT_GETSEQ buf)\<rparr> (c_inbox c)\<rparr>)"
  using assms by (auto simp: handle_data_pkt_def Let_def split: if_splits)

section \<open>The tables\<close>

text \<open>Every connection is registered under its own fifo and its inbox is ordered.\<close>

definition conn_ok :: "int \<Rightarrow> Conn_t \<Rightarrow> bool" where
  "conn_ok fd c \<longleftrightarrow> c_fifo c = fd \<and> sorted (map m_seq (c_inbox c))"

definition registry_ok :: "srtp_state \<Rightarrow> bool" where
  "registry_ok s \<longleftrightarrow> (\<forall>fd c. fd2conn s fd = Some (Some c) \<longrightarrow> conn_ok fd c)"

lemma registry_okD: "registry_ok s \<Longrightarrow> fd2conn s fd = Some (Some c) \<Longrightarrow> conn_ok fd c"
  by (simp add: registry_ok_def)

lemma registry_ok_cong: "fd2conn s' = fd2conn s \<Longrightarrow> registry_ok s' = registry_ok s"
  by (simp add: registry_ok_def)

lemma registry_ok_upd:
  "registry_ok s \<Longrightarrow> fd2conn s' = (fd2conn s)(fd := v) \<Longrightarrow> (\<And>c. v = Some (Some c) \<Longrightarrow> conn_ok fd c) \<Longrightarrow>
   registry_ok s'"
  by (auto simp: registry_ok_def)

lemma conn_ok_fields [simp]:
  "conn_ok fd (c\<lparr>c_addr := a\<rparr>) = conn_ok fd c" "conn_ok fd (c\<lparr>c_addr_len := n\<rparr>) = conn_ok fd c"
  "conn_ok fd (c\<lparr>c_sock := k\<rparr>) = conn_ok fd c" "conn_ok fd (c\<lparr>c_tid := t\<rparr>) = conn_ok fd c"
  "conn_ok fd (c\<lparr>c_sequence := q\<rparr>) = conn_ok fd c"
  by (simp_all add: conn_ok_def)

lemma registry_ok_index:
  assumes "registry_ok s" and "map_index (fd2conn s) fd None = (v, m)" and "fd2conn s' = m"
  shows "registry_ok s'" and "v = Some c \<Longrightarrow> fd2conn s fd = Some (Some c)"
proof -
  have "m = fd2conn s \<or> m = (fd2conn s)(fd \<mapsto> None)"
    using assms(2) by (auto simp: map_index_def split: option.splits)
  then show "registry_ok s'" using assms(1,3) by (fastforce simp: registry_ok_def split: if_splits)
  show "v = Some c \<Longrightarrow> fd2conn s fd = Some (Some c)"
    using assms(2) by (auto simp: map_index_def split: option.splits)
qed

lemma srtp_socket_registry:
  assumes "registry_ok s" and "srtp_socket_impl sys s = Some (fd, s')"
  shows "registry_ok s'"
  using assms
  by (auto simp: srtp_socket_impl_def Let_def registry_ok_def conn_ok_def map_insert_def
      split: if_splits option.splits)

lemma set_conn_simps [simp]:
  "fd2conn (set_conn fd c s) = (fd2conn s)(fd \<mapsto> Some c)" "new_conns (set_conn fd c s) = new_conns s"
  "workers (set_conn fd c s) = workers s" "open_fds (set_conn fd c s) = open_fds s"
  by (simp_all add: set_conn_def)

lemma open_fd_simps [simp]:
  "fd2conn (open_fd x s) = fd2conn s" "new_conns (open_fd x s) = new_conns s" "workers (open_fd x s) = workers s"
  by (simp_all add: open_fd_def)

lemma close_fd_simps [simp]:
  "fd2conn (close_fd x s) = fd2conn s" "new_conns (close_fd x s) = new_conns s" "workers (close_fd x s) = workers s"
  by (simp_all add: close_fd_def)

lemma worker_simps [simp]:
  "fd2conn (start_worker sys k s) = fd2conn s" "new_conns (start_worker sys k s) = new_conns s"
  "fd2conn (cancel_worker tid s) = fd2conn s" "new_conns (cancel_worker tid s) = new_conns s"
  "set (workers (start_worker sys k s)) \<subseteq> insert (os_thread sys, k) (set (workers s))"
  "set (workers (cancel_worker tid s)) \<subseteq> set (workers s)"
  by (auto simp: start_worker_def cancel_worker_def)

text \<open>
  What the calls do to the table: a connection that is there keeps its fifo, the name of its file, and
  every message in its inbox; \<open>bind\<close>, \<open>listen\<close> and \<open>connect\<close> change one connection in its other fields.
\<close>

definition kept :: "Conn_t \<Rightarrow> Conn_t \<Rightarrow> bool" where
  "kept c c' \<longleftrightarrow> c_fifo c' = c_fifo c \<and> c_filename c' = c_filename c \<and> mset (c_inbox c) \<subseteq># mset (c_inbox c')"

lemma kept_refl [simp]: "kept c c"
  by (simp add: kept_def)

lemma kept_trans: "kept c c' \<Longrightarrow> kept c' c'' \<Longrightarrow> kept c c''"
  unfolding kept_def by (metis subset_mset.order_trans)

lemma kept_fields [simp]:
  "kept c (c\<lparr>c_addr := a\<rparr>)" "kept c (c\<lparr>c_addr := a, c_addr_len := n\<rparr>)" "kept c (c\<lparr>c_addr_len := n\<rparr>)"
  by (simp_all add: kept_def)

definition table_kept :: "srtp_state \<Rightarrow> srtp_state \<Rightarrow> bool" where
  "table_kept s s' \<longleftrightarrow> (\<forall>fd c. fd2conn s fd = Some (Some c) \<longrightarrow> (\<exists>c'. fd2conn s' fd = Some (Some c') \<and> kept c c'))"

lemma table_kept_refl [simp]: "table_kept s s"
  by (simp add: table_kept_def)

lemma table_kept_trans: "table_kept s s' \<Longrightarrow> table_kept s' s'' \<Longrightarrow> table_kept s s''"
  unfolding table_kept_def by (meson kept_trans)

lemma table_kept_cong: "fd2conn s' = fd2conn s \<Longrightarrow> table_kept s s'"
  by (simp add: table_kept_def)

lemma table_kept_upd:
  assumes "fd2conn s' = (fd2conn s)(fd \<mapsto> Some c')" and "\<And>c. fd2conn s fd = Some (Some c) \<Longrightarrow> kept c c'"
  shows "table_kept s s'"
  using assms by (simp add: table_kept_def)

lemma table_kept_index:
  assumes "map_index (fd2conn s) fd None = (v, m)" and "fd2conn s' = m"
  shows "table_kept s s'"
proof -
  have "m = fd2conn s \<or> (fd2conn s fd = None \<and> m = (fd2conn s)(fd \<mapsto> None))"
    using assms(1) by (auto simp: map_index_def split: option.splits)
  with assms(2) show ?thesis by (auto simp: table_kept_def)
qed

definition conn_update :: "int \<Rightarrow> srtp_state \<Rightarrow> srtp_state \<Rightarrow> bool" where
  "conn_update fd s s' \<longleftrightarrow> (\<forall>x. x \<noteq> fd \<longrightarrow> fd2conn s' x = fd2conn s x) \<and>
     (fd2conn s' fd = fd2conn s fd \<or>
      (\<exists>c c'. fd2conn s fd = Some (Some c) \<and> fd2conn s' fd = Some (Some c') \<and>
         c_fifo c' = c_fifo c \<and> c_filename c' = c_filename c \<and> c_inbox c' = c_inbox c))"

lemma conn_update_registry: "conn_update fd s s' \<Longrightarrow> registry_ok s \<Longrightarrow> registry_ok s'"
  unfolding conn_update_def registry_ok_def conn_ok_def by (metis option.inject)

lemma conn_update_kept: "conn_update fd s s' \<Longrightarrow> table_kept s s'"
  unfolding conn_update_def table_kept_def kept_def by (metis option.inject subset_mset.order_refl)

lemma with_connE:
  assumes "with_conn s fd f = Return (r, s')"
  obtains c where "fd2conn s fd = Some (Some c)" "f c = (r, s')"
  using assms by (auto simp: with_conn_def split: option.splits)

lemma find_connE:
  assumes ret: "find_conn sys s addr len = Some (Return (fd, c, s'))"
  obtains (known) h m where "map_index (fd2conn s) fd None = (Some c, m)" "s' = s\<lparr>hash2fd := h, fd2conn := m\<rparr>"
    | (made) fifo v h m s1 c1 m1 where "map_index (fd2conn s) fifo None = (v, m)"
        "srtp_socket_impl sys (s\<lparr>hash2fd := h, fd2conn := m\<rparr>) = Some (fd, s1)"
        "map_index (fd2conn s1) fd None = (Some c1, m1)" "c = c1\<lparr>c_addr := addr, c_addr_len := len\<rparr>"
        "s' = s1\<lparr>fd2conn := m1(fd \<mapsto> Some c), hash2fd := map_insert (hash2fd s1) (sin_addr addr) fd\<rparr>"
proof -
  obtain fifo h where h: "map_index (hash2fd s) (sin_addr addr) 0 = (fifo, h)" by fastforce
  obtain v m where m: "map_index (fd2conn s) fifo None = (v, m)" by fastforce
  show thesis
  proof (cases v)
    case (Some c0)
    with ret h m known [of m h] show thesis by (auto simp: find_conn_def)
  next
    case None
    obtain fd0 s1 where s1: "srtp_socket_impl sys (s\<lparr>hash2fd := h, fd2conn := m\<rparr>) = Some (fd0, s1)"
      using ret h m None by (auto simp: find_conn_def)
    obtain v1 m1 where m1: "map_index (fd2conn s1) fd0 None = (v1, m1)" by fastforce
    with ret h m None s1 made show thesis by (cases v1) (auto simp: find_conn_def Let_def)
  qed
qed

lemma find_conn_registry:
  assumes ok: "registry_ok s" and ret: "find_conn sys s addr len = Some (Return (fd, c, s'))"
  shows "registry_ok s' \<and> conn_ok fd c"
  using ret
proof (cases rule: find_connE)
  case (known h m)
  then show ?thesis
    using registry_ok_index [OF ok known(1), of s'] registry_okD [OF ok] by simp
next
  case (made fifo v h m s1 c1 m1)
  have ok1: "registry_ok s1"
    using srtp_socket_registry [OF _ made(2)] registry_ok_index(1) [OF ok made(1)] by simp
  note ok2 = registry_ok_index [OF ok1 made(3), of "s1\<lparr>fd2conn := m1\<rparr>"]
  have "conn_ok fd c1" using ok2(2) registry_okD [OF ok1] by simp
  then show ?thesis
    using made ok2(1) registry_ok_upd [of "s1\<lparr>fd2conn := m1\<rparr>" s' fd "Some (Some c)"] by simp
qed

lemma recv_roundE:
  assumes ret: "recv_round sys s (Some (buf, addr)) = Some (Return s')"
  obtains fd c s1 where "find_conn sys s addr (length buf) = Some (Return (fd, c, s1))"
    and "new_conns s' = new_conns s1" and "workers s' = workers s1"
    and "fd2conn s' = fd2conn s1 \<or>
      (\<exists>r c' bytes. handle_data_pkt buf (Some c) = Return (r, c', bytes) \<and> fd2conn s' = (fd2conn s1)(fd \<mapsto> c'))"
proof -
  obtain oc where oc: "find_conn sys s addr (length buf) = Some oc"
    using ret by (auto simp: recv_round_def bind_eq_Some_conv)
  with ret obtain fd c s1 where s1: "oc = Return (fd, c, s1)"
    by (cases oc) (auto simp: recv_round_def)
  show thesis
    using ret oc s1 that
    by (cases "handle_data_pkt buf (Some c)") (fastforce simp: recv_round_def split: if_splits)+
qed

lemma recv_round_registry:
  assumes ok: "registry_ok s" and ret: "recv_round sys s rx = Some (Return s')"
  shows "registry_ok s'"
proof (cases rx)
  case None
  with ok ret show ?thesis by (simp add: recv_round_def)
next
  case (Some p)
  with ret obtain buf addr where "recv_round sys s (Some (buf, addr)) = Some (Return s')" by (cases p) simp
  then show ?thesis
  proof (cases rule: recv_roundE)
    case (1 fd c s1)
    note ok1 = find_conn_registry [OF ok 1(1)]
    show ?thesis using 1(4)
    proof (elim disjE exE conjE)
      fix r c' bytes
      assume h: "handle_data_pkt buf (Some c) = Return (r, c', bytes)" and upd: "fd2conn s' = (fd2conn s1)(fd \<mapsto> c')"
      have "conn_ok fd c''" if "c' = Some c''" for c''
        using h that ok1 by (cases rule: handle_data_pkt_cases) (auto simp: conn_ok_def insert_mesg_sorted)
      then show ?thesis using ok1 upd by (intro registry_ok_upd [of s1 s' fd "Some c'"]) auto
    qed (use ok1 registry_ok_cong in blast)
  qed
qed

lemma proxy_deliver_registry:
  assumes ok: "registry_ok s" and ret: "proxy_deliver sys s src n data = Some (Return s')"
  shows "registry_ok s'"
proof (cases "hash2fd s (sin_addr src)")
  case (Some fd)
  with ret have "fd2conn s' = fd2conn s" by (auto simp: proxy_deliver_def)
  with ok show ?thesis using registry_ok_cong by blast
next
  case None
  obtain fd s1 where s1: "srtp_socket_impl sys s = Some (fd, s1)"
    using ret None by (cases "srtp_socket_impl sys s") (auto simp: proxy_deliver_def)
  have ok1: "registry_ok s1" using srtp_socket_registry [OF ok s1] .
  obtain v m where m: "map_index (fd2conn s1) fd None = (v, m)" by fastforce
  obtain c a where c: "v = Some c" "fd2conn s' = m(fd \<mapsto> Some (c\<lparr>c_addr := a, c_addr_len := n\<rparr>))"
    using ret None s1 m by (cases v) (auto simp: proxy_deliver_def split: option.splits)
  have ok2: "registry_ok (s1\<lparr>fd2conn := m\<rparr>)" using registry_ok_index(1) [OF ok1 m] by simp
  have "conn_ok fd c"
    using registry_ok_index(2) [OF ok1 m, of "s1\<lparr>fd2conn := m\<rparr>"] c(1) registry_okD [OF ok1] by simp
  then show ?thesis
    using c(2) by (intro registry_ok_upd [OF ok2, of s' fd]) auto
qed

lemma bind_update:
  assumes "srtp_bind s fd addr n = Return (r, a, s')"
  shows "conn_update fd s s' \<and> new_conns s' = new_conns s \<and> workers s' = workers s"
proof -
  obtain a0 where "srtp_bind_impl s fd (Some a0) n = Return (r, s')"
    using assms by (auto simp: srtp_bind_def Let_def split: option.splits outcome.splits)
  then show ?thesis
    by (auto simp: srtp_bind_impl_def conn_update_def split: if_splits option.splits)
qed

lemma listen_update:
  assumes "srtp_listen_impl sys s fd = Return (r, s')"
  shows "conn_update fd s s' \<and> new_conns s' = new_conns s \<and>
    set (workers s') \<subseteq> insert (os_thread sys, Server_proxy fd) (set (workers s))"
  using assms
  by (auto simp: srtp_listen_impl_def conn_update_def Let_def start_worker_def split: if_splits elim!: with_connE)

lemma connect_update:
  assumes "srtp_connect_impl sys s fd a n d b = Some (Return (r, s'))"
  shows "r = -1 \<and> conn_update fd s s' \<and> new_conns s' = new_conns s \<and> workers s' = workers s"
  using assms
  by (auto simp: srtp_connect_impl_def conn_update_def Let_def bind_eq_Some_conv establish_conn_def
      dest: establish_loop_result split: if_splits option.splits)

lemma close_update:
  assumes "srtp_close_impl s fd = Return (r, s')"
  shows "fd2conn s' \<in> {fd2conn s, (fd2conn s)(fd := None)} \<and> new_conns s' = new_conns s \<and> set (workers s') \<subseteq> set (workers s)"
  using assms
  by (auto simp: srtp_close_impl_def Let_def cancel_worker_def split: if_splits elim!: with_connE)

lemma close_registry:
  assumes "registry_ok s" and "srtp_close_impl s fd = Return (r, s')"
  shows "registry_ok s'"
  using close_update [OF assms(2)] assms(1) by (auto simp: registry_ok_def split: if_splits)

lemma accept_registry:
  assumes ok: "registry_ok s" and ret: "srtp_accept_impl s fd n = Some (Return (r, a, s'))"
  shows "registry_ok s'"
proof (cases "isOpenSRTPSock s fd")
  case False
  with ok ret show ?thesis by (simp add: srtp_accept_impl_def)
next
  case open_sock: True
  obtain fifo rest where q: "new_conns s = fifo # rest"
    using ret open_sock by (cases "new_conns s") (auto simp: srtp_accept_impl_def)
  show ?thesis
  proof (cases n)
    case None
    then have "fd2conn s' = snd (map_index (fd2conn s) fifo None)"
      using ret open_sock q by (auto simp: srtp_accept_impl_def Let_def)
    then show ?thesis using registry_ok_index(1) [OF ok, of fifo _ "fd2conn s'"] by (metis prod.collapse)
  next
    case (Some caller)
    obtain c k where c: "fd2conn s fifo = Some (Some c)" "fd2conn s' = (fd2conn s)(fifo \<mapsto> Some (c\<lparr>c_addr_len := k\<rparr>))"
      using ret open_sock q Some by (cases caller) (auto simp: srtp_accept_impl_def Let_def split: option.splits)
    then show ?thesis using registry_okD [OF ok c(1)] by (intro registry_ok_upd [OF ok c(2)]) auto
  qed
qed

text \<open>What of the table the same operations keep.\<close>

lemma socket_kept:
  assumes "srtp_socket_impl sys s = Some (fd, s')"
  shows "table_kept s s'"
  using assms
  by (auto simp: srtp_socket_impl_def Let_def table_kept_def map_insert_def split: if_splits option.splits)

lemma find_conn_kept:
  assumes "find_conn sys s addr len = Some (Return (fd, c, s'))"
  shows "table_kept s s' \<and> fd2conn s' fd = Some (Some c)"
  using assms
proof (cases rule: find_connE)
  case (known h m)
  then show ?thesis
    using table_kept_index [OF known(1), of s'] by (auto simp: map_index_def split: option.splits)
next
  case (made fifo v h m s1 c1 m1)
  have "table_kept s (s\<lparr>hash2fd := h, fd2conn := m\<rparr>)" using made(1) by (rule table_kept_index) simp
  moreover have "table_kept (s\<lparr>hash2fd := h, fd2conn := m\<rparr>) s1" using made(2) by (rule socket_kept)
  moreover have "table_kept s1 (s1\<lparr>fd2conn := m1\<rparr>)" using made(3) by (rule table_kept_index) simp
  moreover have "m1 fd = Some (Some c1)" using made(3) by (auto simp: map_index_def split: option.splits)
  then have "table_kept (s1\<lparr>fd2conn := m1\<rparr>) s'" using made(4,5) by (intro table_kept_upd [of _ _ fd c]) auto
  ultimately have "table_kept s s'" using table_kept_trans by blast
  with made(5) show ?thesis by simp
qed

lemma handle_data_pkt_kept:
  assumes "handle_data_pkt buf (Some c) = Return (r, c', bytes)"
  shows "\<exists>c''. c' = Some c'' \<and> kept c c''"
  using assms by (cases rule: handle_data_pkt_cases) (auto simp: kept_def)

lemma recv_round_kept:
  assumes "recv_round sys s rx = Some (Return s')"
  shows "table_kept s s'"
proof (cases rx)
  case None
  with assms show ?thesis by (simp add: recv_round_def)
next
  case (Some p)
  with assms obtain buf addr where "recv_round sys s (Some (buf, addr)) = Some (Return s')" by (cases p) simp
  then show ?thesis
  proof (cases rule: recv_roundE)
    case (1 fd c s1)
    note found = find_conn_kept [OF 1(1)]
    have "table_kept s1 s'" using 1(4)
    proof (elim disjE exE conjE)
      fix r c' bytes
      assume h: "handle_data_pkt buf (Some c) = Return (r, c', bytes)" and upd: "fd2conn s' = (fd2conn s1)(fd \<mapsto> c')"
      then show ?thesis using handle_data_pkt_kept [OF h] found by (auto intro: table_kept_upd)
    qed (rule table_kept_cong)
    with found table_kept_trans show ?thesis by blast
  qed
qed

lemma proxy_deliver_kept:
  assumes "proxy_deliver sys s src n data = Some (Return s')"
  shows "table_kept s s'"
proof (cases "hash2fd s (sin_addr src)")
  case (Some fd)
  with assms have "fd2conn s' = fd2conn s" by (auto simp: proxy_deliver_def)
  then show ?thesis by (rule table_kept_cong)
next
  case None
  obtain fd s1 where s1: "srtp_socket_impl sys s = Some (fd, s1)"
    using assms None by (cases "srtp_socket_impl sys s") (auto simp: proxy_deliver_def)
  obtain v m where m: "map_index (fd2conn s1) fd None = (v, m)" by fastforce
  obtain c a where c: "v = Some c" "fd2conn s' = m(fd \<mapsto> Some (c\<lparr>c_addr := a, c_addr_len := n\<rparr>))"
    using assms None s1 m by (cases v) (auto simp: proxy_deliver_def split: option.splits)
  have "m fd = Some (Some c)" using m c(1) by (auto simp: map_index_def split: option.splits)
  then have "table_kept (s1\<lparr>fd2conn := m\<rparr>) s'" using c(2) by (intro table_kept_upd) auto
  moreover have "table_kept s1 (s1\<lparr>fd2conn := m\<rparr>)" using m by (rule table_kept_index) simp
  ultimately show ?thesis using socket_kept [OF s1] table_kept_trans by blast
qed

lemma accept_kept:
  assumes "srtp_accept_impl s fd caller = Some (Return (r, a, s'))"
  shows "table_kept s s'"
proof (cases "isOpenSRTPSock s fd")
  case False
  with assms show ?thesis by (simp add: srtp_accept_impl_def)
next
  case open_sock: True
  obtain fifo rest where q: "new_conns s = fifo # rest"
    using assms open_sock by (cases "new_conns s") (auto simp: srtp_accept_impl_def)
  show ?thesis
  proof (cases caller)
    case None
    then have "fd2conn s' = snd (map_index (fd2conn s) fifo None)"
      using assms open_sock q by (auto simp: srtp_accept_impl_def Let_def)
    then show ?thesis using table_kept_index [of s fifo _ "fd2conn s'" s'] by (metis prod.collapse)
  next
    case (Some p)
    obtain c k where "fd2conn s fifo = Some (Some c)" "fd2conn s' = (fd2conn s)(fifo \<mapsto> Some (c\<lparr>c_addr_len := k\<rparr>))"
      using assms open_sock q Some by (cases p) (auto simp: srtp_accept_impl_def Let_def split: option.splits)
    then show ?thesis by (intro table_kept_upd) auto
  qed
qed

section \<open>Sequence numbers\<close>

text \<open>
  A packet out of turn goes to the inbox at its place; nothing is written, and nothing that waits
  in the inbox is ever taken out by a packet in turn.
\<close>

lemma early_packet_queued:
  assumes "c_sequence c \<noteq> ucast (PKT_GETSEQ buf)" and "16 + unat (PKT_GETLEN buf) \<le> length buf"
  shows "\<exists>c' m. handle_data_pkt buf (Some c) = Return (0, Some c', []) \<and> c_sequence c' = c_sequence c \<and>
           mset (c_inbox c') = add_mset m (mset (c_inbox c)) \<and> m_seq m = ucast (PKT_GETSEQ buf)"
  using assms by (simp add: handle_data_pkt_def Let_def)

text \<open>
  The counter of a connection has 32 bits and the field of a packet 16: once the counter has passed
  65535 no packet is in turn any more.
\<close>

lemma sequence_beyond_16_bits:
  assumes "65536 \<le> c_sequence c"
  shows "c_sequence c \<noteq> ucast (PKT_GETSEQ buf)"
proof
  assume *: "c_sequence c = ucast (PKT_GETSEQ buf)"
  have less: "unat (PKT_GETSEQ buf) < 65536" using unsigned_less [of "PKT_GETSEQ buf"] by simp
  then have "take_bit 32 (unat (PKT_GETSEQ buf)) = unat (PKT_GETSEQ buf)" by (intro take_bit_nat_eq_self) simp
  with * have "unat (c_sequence c) = unat (PKT_GETSEQ buf)" by (simp add: unsigned_ucast_eq)
  moreover have "65536 \<le> unat (c_sequence c)" using assms by (simp add: word_le_nat_alt)
  ultimately show False using less by simp
qed

section \<open>Properties\<close>

text \<open>A system for examples on which every call succeeds; descriptors are numbered from 3.\<close>

definition calm_os :: os where
  "calm_os = \<lparr>os_mkfifo = (\<lambda>_. 0), os_open = (\<lambda>n. int n + 3), os_socket = 100, os_bind = (\<lambda>_. 0),
     os_connect = (\<lambda>_. 0), os_thread = 7, os_thread_ok = True,
     os_conn = \<lparr>c_tid = 0, c_fifo = 0, c_filename = '''', c_sock = 0, c_addr = \<lparr>sin_addr = 0, sin_port = 0\<rparr>,
       c_addr_len = 0, c_sequence = 0, c_inbox = []\<rparr>,
     os_header = replicate 8 0\<rparr>"

definition empty_state :: srtp_state where
  "empty_state = \<lparr>hash2fd = Map.empty, fd2conn = Map.empty, new_conns = [], fifo_id = 0, fifo_files = [],
     open_fds = [], fd_data = (\<lambda>_. []), udp = slow_io, workers = [], srtp_packet_debug = False\<rparr>"

lemma calm_make_fifo: "make_fifo calm_os n = Some n"
  by (simp add: make_fifo.simps calm_os_def)

text \<open>
  The payload of a packet in turn does not reach the application as it was sent: its first eight
  bytes are left out and the eight bytes behind it are delivered in their place, because the
  header is skipped twice.
\<close>

theorem data_packet_skips_header_twice:
  assumes "c_sequence c = ucast (PKT_GETSEQ buf)" and "8 \<le> unat (PKT_GETLEN buf)"
    and "16 + unat (PKT_GETLEN buf) \<le> length buf"
  shows "handle_data_pkt buf (Some c) =
           Return (0, Some (c\<lparr>c_sequence := c_sequence c + 1\<rparr>),
             drop 8 (take (unat (PKT_GETLEN buf)) (PKT_PAYLOAD buf)) @
             take 8 (drop (unat (PKT_GETLEN buf)) (PKT_PAYLOAD buf)))"
proof -
  let ?n = "unat (PKT_GETLEN buf)" and ?p = "PKT_PAYLOAD buf"
  have "take ?n (drop 8 ?p) = take (?n - 8 + 8) (drop 8 ?p)" using assms(2) by simp
  also have "\<dots> = take (?n - 8) (drop 8 ?p) @ take 8 (drop (?n - 8) (drop 8 ?p))" by (rule take_add)
  also have "\<dots> = drop 8 (take ?n ?p) @ take 8 (drop ?n ?p)" using assms(2) by (simp add: drop_take)
  finally have "take ?n (drop 8 ?p) = drop 8 (take ?n ?p) @ take 8 (drop ?n ?p)" .
  moreover have "take ?n (drop 16 buf) = take ?n (drop 8 ?p)" by (simp add: PKT_PAYLOAD_def)
  ultimately show ?thesis using assms(1,3) by (simp add: handle_data_pkt_def Let_def)
qed

lemma example_packet_fields:
  "PKT_GETSEQ ([8, 0] @ replicate 30 0) = 0" "PKT_GETLEN ([8, 0] @ replicate 30 0) = 8"
  by (simp_all add: PKT_GETSEQ_def PKT_GETLEN_def load16_def join16_def nth_append)

theorem data_packet_skips_header_twice_witness:
  "handle_data_pkt ([8, 0] @ replicate 30 0) (Some (os_conn calm_os)) =
     Return (0, Some ((os_conn calm_os)\<lparr>c_sequence := c_sequence (os_conn calm_os) + 1\<rparr>),
       drop 8 (take (unat (PKT_GETLEN ([8, 0] @ replicate 30 0))) (PKT_PAYLOAD ([8, 0] @ replicate 30 0))) @
       take 8 (drop (unat (PKT_GETLEN ([8, 0] @ replicate 30 0))) (PKT_PAYLOAD ([8, 0] @ replicate 30 0))))"
  by (rule data_packet_skips_header_twice) (simp_all only: example_packet_fields, simp_all add: calm_os_def)

text \<open>
  Looking a new peer up in the table enters it with descriptor 0, and the later insertion of its
  real descriptor has no effect. So every datagram of that peer, not only the first, makes a new
  connection with a new fifo: the conditions under which this happens hold again afterwards.
\<close>

theorem new_socket_for_every_datagram:
  assumes "hash2fd s (sin_addr addr) \<in> {None, Some 0}" and "fd2conn s 0 \<in> {None, Some None}"
    and "os_mkfifo sys (fifo_id s) = 0" and "0 < os_open sys (fifo_id s)"
    and "fd2conn s (os_open sys (fifo_id s)) = None" and "PKT_GETLEN buf = 0"
  shows "\<exists>s' c. recv_round sys s (Some (buf, addr)) = Some (Return s') \<and>
           fd2conn s' (os_open sys (fifo_id s)) = Some (Some c) \<and> c_addr c = addr \<and>
           hash2fd s' (sin_addr addr) = Some 0 \<and> fd2conn s' 0 = Some None \<and> fifo_id s' = Suc (fifo_id s)"
proof -
  have mk: "make_fifo sys (fifo_id s) = Some (fifo_id s)" using assms(3) by (simp add: make_fifo.simps)
  have h: "map_index (hash2fd s) (sin_addr addr) 0 = (0, (hash2fd s)(sin_addr addr \<mapsto> 0))"
    using assms(1) by (auto simp: map_index_def fun_upd_idem)
  have m: "map_index (fd2conn s) 0 None = (None, (fd2conn s)(0 \<mapsto> None))"
    using assms(2) by (auto simp: map_index_def fun_upd_idem)
  show ?thesis
    using assms(4-6)
    by (simp add: recv_round_def find_conn_def h m srtp_socket_impl_def mk Let_def map_insert_def map_index_Some)
qed

theorem new_socket_for_every_datagram_witness:
  "\<exists>s' c. recv_round calm_os empty_state (Some (replicate 2048 0, \<lparr>sin_addr = 9, sin_port = 1\<rparr>)) = Some (Return s') \<and>
     fd2conn s' (os_open calm_os (fifo_id empty_state)) = Some (Some c) \<and> c_addr c = \<lparr>sin_addr = 9, sin_port = 1\<rparr> \<and>
     hash2fd s' (sin_addr \<lparr>sin_addr = 9, sin_port = 1\<rparr>) = Some 0 \<and> fd2conn s' 0 = Some None \<and>
     fifo_id s' = Suc (fifo_id empty_state)"
  by (rule new_socket_for_every_datagram)
    (simp_all add: empty_state_def calm_os_def PKT_GETLEN_def load16_def join16_def)

text \<open>
  C38: \<open>srtp_connect\<close> never reports success: on every socket, for every address and whatever the peer
  answers, a result it returns is -1.
\<close>

theorem connect_never_succeeds:
  "srtp_connect sys s fd addr addr_len d buff \<noteq> Some (Return (0, s'))"
  using connect_update [of sys s fd addr addr_len d buff 0 s'] by (auto simp: srtp_connect_def)

text \<open>
  The port \<open>srtp_bind\<close> stores is the caller's port with its bytes swapped, also in the caller's
  own structure; \<open>srtp_listen\<close> then binds the UDP socket to it as it is. A length beyond the structure makes
  \<^verbatim>\<open>memcpy\<close> write over the fields behind the address.
\<close>

lemma low_bytes_all:
  assumes "2 ^ LENGTH('a) \<le> (256 :: nat) ^ k"
  shows "low_bytes k src dst = (src :: 'a::len word)"
proof -
  have "unat src < 256 ^ k" "unat dst < 256 ^ k"
    using assms unsigned_less [of src] unsigned_less [of dst] by (meson order_less_le_trans)+
  then show ?thesis by (simp add: low_bytes_def)
qed

lemma memcpy_addr_all:
  assumes "8 \<le> n" and "n \<le> 16"
  shows "memcpy_addr n src dst = Some src"
proof -
  have "(256 :: nat) ^ 4 \<le> 256 ^ (n - 4)" "(256 :: nat) ^ 2 \<le> 256 ^ (n - 2)"
    using assms(1) by (intro power_increasing; simp)+
  then have "low_bytes (n - 4) (sin_addr src) (sin_addr dst) = sin_addr src"
    "low_bytes (n - 2) (sin_port src) (sin_port dst) = sin_port src"
    by (intro low_bytes_all; simp)+
  with assms(2) show ?thesis by (simp add: memcpy_addr_def)
qed

lemma bind_swaps_port:
  assumes "isOpenSRTPSock s fd" and "fd2conn s fd = Some (Some c)" and "8 \<le> n" and "n \<le> 16"
  shows "srtp_bind s fd (Some a) n =
         Return (0, a\<lparr>sin_port := ntohs (sin_port a)\<rparr>,
           s\<lparr>fd2conn := (fd2conn s)(fd \<mapsto> Some (c\<lparr>c_addr := a\<lparr>sin_port := ntohs (sin_port a)\<rparr>, c_addr_len := n\<rparr>))\<rparr>)"
  using assms
  by (simp add: srtp_bind_def srtp_bind_impl_def isValidIPAddress_def set_conn_def memcpy_addr_all Let_def)

lemma oversize_bind_faults:
  assumes "isOpenSRTPSock s fd" and "16 < n"
  shows "srtp_bind s fd (Some a) n = Fault"
  using assms
  by (auto simp: srtp_bind_def srtp_bind_impl_def isValidIPAddress_def memcpy_addr_def Let_def split: option.splits)

end
