(* ===== verification/Srtp_System.thy ===== *)
theory Srtp_System
  imports Srtp_Conn
begin

text \<open>
  The SRTP library as a system: the calls an application makes and the datagrams the listening
  threads take, in any order and with any answers of the operating system. What holds in every state
  the library can reach, and what no run of it ever does.
\<close>

section \<open>The listening thread\<close>

lemma socket_keeps:
  "srtp_socket_impl sys s = Some (fd, s') \<Longrightarrow> new_conns s' = new_conns s \<and> workers s' = workers s"
  by (auto simp: srtp_socket_impl_def Let_def split: if_splits)

lemma find_conn_keeps:
  assumes "find_conn sys s addr len = Some (Return (fd, c, s'))"
  shows "new_conns s' = new_conns s \<and> workers s' = workers s"
  using assms by (cases rule: find_connE) (auto dest: socket_keeps)

lemma recv_round_keeps:
  assumes "recv_round sys s rx = Some (Return s')"
  shows "new_conns s' = new_conns s \<and> workers s' = workers s"
proof (cases rx)
  case None
  with assms show ?thesis by (simp add: recv_round_def)
next
  case (Some p)
  with assms show ?thesis
    by (cases p) (auto elim!: recv_roundE dest!: find_conn_keeps)
qed

lemma find_conn_no_exit: "find_conn sys s addr len \<noteq> Some (Exit e)"
  by (auto simp: find_conn_def Let_def split: option.splits prod.splits)

lemma handle_data_pkt_no_exit: "handle_data_pkt buf c \<noteq> Exit e"
  by (simp add: handle_data_pkt_def Let_def split: option.splits)

lemma recv_round_no_exit: "recv_round sys s rx \<noteq> Some (Exit e)"
proof
  assume *: "recv_round sys s rx = Some (Exit e)"
  then obtain buf addr oc where rx: "rx = Some (buf, addr)" "find_conn sys s addr (length buf) = Some oc"
    by (auto simp: recv_round_def bind_eq_Some_conv split: option.splits)
  with * find_conn_no_exit obtain fd c s1 where "oc = Return (fd, c, s1)"
    by (cases oc) (auto simp: recv_round_def)
  with * rx handle_data_pkt_no_exit [of buf "Some c"] show False
    by (cases "handle_data_pkt buf (Some c)") (auto simp: recv_round_def split: if_splits)
qed

lemma recv_srtp_data_fault:
  assumes "recv_srtp_data sys rx k s = Some r"
  shows "r = Fault"
proof (rule recv_srtp_data.raw_induct [where P = "\<lambda>_ _ _ _ r. r = Fault", OF _ assms])
  fix f sys rx k s and r :: "(int \<times> buffer \<times> sockaddr_in \<times> nat \<times> srtp_state) outcome"
  assume IH: "\<And>sys rx k s r. f sys rx k s = Some r \<Longrightarrow> r = Fault"
    and eq: "Option.bind (recv_round sys s (rx k)) (\<lambda>oc.
       (case oc of
          Return s' \<Rightarrow> f sys rx (Suc k) s'
        | Exit e \<Rightarrow> Some (Exit e)
        | Fault \<Rightarrow> Some Fault)) = Some r"
  then obtain oc where oc: "recv_round sys s (rx k) = Some oc" by (auto simp: bind_eq_Some_conv)
  with eq show "r = Fault"
    using recv_round_no_exit by (cases oc) (auto dest: IH)
qed

lemma silent_listener_waits:
  assumes "\<And>i. rx i = None"
  shows "recv_srtp_data sys rx k s = None"
proof (rule ccontr)
  assume "recv_srtp_data sys rx k s \<noteq> None"
  then obtain r where "recv_srtp_data sys rx k s = Some r" by blast
  then have "(\<forall>i. rx i = None) \<longrightarrow> False"
  proof (rule recv_srtp_data.raw_induct [where P = "\<lambda>_ rx _ _ _. (\<forall>i. rx i = None) \<longrightarrow> False", rotated], intro impI)
    fix f sys rx k s and r :: "(int \<times> buffer \<times> sockaddr_in \<times> nat \<times> srtp_state) outcome"
    assume IH: "\<And>sys rx k s r. f sys rx k s = Some r \<Longrightarrow> (\<forall>i. rx i = None) \<longrightarrow> False"
      and eq: "Option.bind (recv_round sys s (rx k)) (\<lambda>oc.
         (case oc of
            Return s' \<Rightarrow> f sys rx (Suc k) s'
          | Exit e \<Rightarrow> Some (Exit e)
          | Fault \<Rightarrow> Some Fault)) = Some r"
      and silent: "\<forall>i. rx i = None"
    then show False by (auto simp: recv_round_def dest: IH)
  qed
  with assms show False by blast
qed

section \<open>Steps\<close>

text \<open>
  What happens in the library: the calls of the interface with the descriptor they are made on, a round
  of the loop of a listening thread, and what \<^verbatim>\<open>server_proxy\<close> does when \<^verbatim>\<open>recv_srtp_data\<close> returns: data is
  delivered, with a new connection queued for \<^verbatim>\<open>accept\<close>, and a negative result ends the thread. The rounds of the
  loop are steps of their own, so a return is one with the state the rounds have led to.
\<close>

datatype srtp_event =
    Socket_call
  | Bind_call int
  | Listen_call int
  | Accept_call int
  | Connect_call int
  | Close_call int
  | Debug_call
  | Datagram
  | Delivery
  | Thread_end

inductive srtp_step :: "srtp_event \<Rightarrow> srtp_state \<Rightarrow> srtp_state \<Rightarrow> bool" where
  socket: "srtp_socket sys s = Some (fd, s') \<Longrightarrow> srtp_step Socket_call s s'"
| bind: "srtp_bind s fd addr n = Return (r, a, s') \<Longrightarrow> srtp_step (Bind_call fd) s s'"
| listen: "srtp_listen sys s fd = Return (r, s') \<Longrightarrow> srtp_step (Listen_call fd) s s'"
| accept: "srtp_accept s fd caller = Some (Return (r, a', s')) \<Longrightarrow> srtp_step (Accept_call fd) s s'"
| connect: "srtp_connect sys s fd addr n d b = Some (Return (r, s')) \<Longrightarrow> srtp_step (Connect_call fd) s s'"
| close: "srtp_close s fd = Return (r, s') \<Longrightarrow> srtp_step (Close_call fd) s s'"
| debug: "srtp_step Debug_call s (srtp_debug s enable)"
| receive: "(tid, Server_proxy fd) \<in> set (workers s) \<Longrightarrow> recv_round sys s rx = Some (Return s') \<Longrightarrow> srtp_step Datagram s s'"
| deliver: "(tid, Server_proxy fd) \<in> set (workers s) \<Longrightarrow>
    recv_srtp_data sys rx k s0 = Some (Return (n, buffer, src, k', s)) \<Longrightarrow> 0 \<le> n \<Longrightarrow>
    proxy_deliver sys s src src_len (take (nat n) buffer) = Some (Return s') \<Longrightarrow> srtp_step Delivery s s'"
| ending: "(tid, Server_proxy fd) \<in> set (workers s) \<Longrightarrow>
    recv_srtp_data sys rx k s0 = Some (Return (n, buffer, src, k', s)) \<Longrightarrow> n < 0 \<Longrightarrow>
    srtp_step Thread_end s (cancel_worker tid s)"

inductive srtp_run :: "srtp_event list \<Rightarrow> srtp_state \<Rightarrow> srtp_state \<Rightarrow> bool" where
  stop: "srtp_run [] s s"
| go: "srtp_step e s s1 \<Longrightarrow> srtp_run es s1 s' \<Longrightarrow> srtp_run (e # es) s s'"

abbreviation srtp_any :: "srtp_state \<Rightarrow> srtp_state \<Rightarrow> bool" where
  "srtp_any s s' \<equiv> \<exists>e. srtp_step e s s'"

lemma srtp_run_any: "srtp_run es s s' \<Longrightarrow> srtp_any\<^sup>*\<^sup>* s s'"
  by (induction rule: srtp_run.induct) (auto intro: converse_rtranclp_into_rtranclp)

text \<open>The library before its first call.\<close>

definition fresh_library :: "srtp_state \<Rightarrow> bool" where
  "fresh_library s \<longleftrightarrow> hash2fd s = Map.empty \<and> fd2conn s = Map.empty \<and> new_conns s = [] \<and> workers s = []"

definition no_client_proxy :: "srtp_state \<Rightarrow> bool" where
  "no_client_proxy s \<longleftrightarrow> (\<forall>tid fd. (tid, Client_proxy fd) \<notin> set (workers s))"

definition library_inv :: "srtp_state \<Rightarrow> bool" where
  "library_inv s \<longleftrightarrow> registry_ok s \<and> new_conns s = [] \<and> no_client_proxy s"

lemma accept_idle:
  assumes "new_conns s = []"
  shows "srtp_accept s fd k = (if isOpenSRTPSock s fd then None else Some (Return (-1, None, s)))"
  using assms by (simp add: srtp_accept_def srtp_accept_impl_def)

lemma debug_keeps:
  "fd2conn (srtp_debug s enable) = fd2conn s" "new_conns (srtp_debug s enable) = new_conns s"
  "workers (srtp_debug s enable) = workers s"
  by (simp_all add: srtp_debug_def srtp_debug_impl_def)

lemmas wrapper_defs = srtp_socket_def srtp_listen_def srtp_accept_def srtp_connect_def srtp_close_def

lemma srtp_step_registry:
  assumes "srtp_step e s s'" and "registry_ok s"
  shows "registry_ok s'"
  using assms
proof (induction rule: srtp_step.induct)
  case (accept s fd caller r a' s')
  then show ?case using accept_registry unfolding srtp_accept_def by blast
next
  case (close s fd r s')
  then show ?case using close_registry unfolding srtp_close_def by blast
qed (auto simp: wrapper_defs registry_ok_cong [OF debug_keeps(1)] registry_ok_cong [OF worker_simps(3)]
    dest!: bind_update listen_update connect_update
    intro: conn_update_registry srtp_socket_registry recv_round_registry proxy_deliver_registry)

lemma srtp_step_kept:
  assumes "srtp_step e s s'"
  shows "table_kept s s' \<or> (\<exists>fd. e = Close_call fd \<and> fd2conn s' \<in> {fd2conn s, (fd2conn s)(fd := None)})"
  using assms
proof (induction rule: srtp_step.induct)
  case (accept s fd caller r a' s')
  then show ?case using accept_kept unfolding srtp_accept_def by blast
next
  case (close s fd r s')
  then show ?case using close_update unfolding srtp_close_def by blast
qed (auto simp: wrapper_defs table_kept_cong debug_keeps
    dest!: bind_update listen_update connect_update
    intro: conn_update_kept socket_kept recv_round_kept proxy_deliver_kept)

lemma srtp_run_kept:
  assumes "srtp_run es s s'" and "fd2conn s fd = Some (Some c)" and "Close_call fd \<notin> set es"
  shows "\<exists>c'. fd2conn s' fd = Some (Some c') \<and> kept c c'"
  using assms
proof (induction arbitrary: c rule: srtp_run.induct)
  case (go e s s1 es s')
  have "\<exists>c1. fd2conn s1 fd = Some (Some c1) \<and> kept c c1"
    using srtp_step_kept [OF go.hyps(1)] go.prems by (auto simp: table_kept_def)
  then obtain c1 where "fd2conn s1 fd = Some (Some c1)" "kept c c1" by blast
  with go.IH go.prems(2) kept_trans show ?case by (metis list.set_intros(2))
qed simp

lemma srtp_step_queue:
  assumes "srtp_step e s s'" and "new_conns s = []"
  shows "new_conns s' = [] \<and> (\<exists>w. set (workers s') \<subseteq> set (workers s) \<union> range (\<lambda>fd. (w, Server_proxy fd)))"
  using assms
proof (induction rule: srtp_step.induct)
  case (listen sys s fd r s')
  then show ?case using listen_update [of sys s fd r s'] by (auto simp: srtp_listen_def)
next
  case (accept s fd caller r a' s')
  then show ?case by (simp add: accept_idle split: if_splits)
next
  case (receive tid fd s sys rx s')
  then show ?case using recv_round_keeps [of sys s rx s'] by auto
qed (auto simp: wrapper_defs debug_keeps
    dest!: socket_keeps bind_update connect_update close_update recv_srtp_data_fault)

lemma srtp_step_inv: "library_inv s \<Longrightarrow> srtp_any s s' \<Longrightarrow> library_inv s'"
  using srtp_step_registry srtp_step_queue unfolding library_inv_def no_client_proxy_def by fast

interpretation tables: invariant_system registry_ok srtp_any registry_ok
  by unfold_locales (auto intro: srtp_step_registry)

interpretation library: invariant_system fresh_library srtp_any library_inv
proof unfold_locales
  show "library_inv s" if "fresh_library s" for s
    using that by (simp add: fresh_library_def library_inv_def registry_ok_def no_client_proxy_def)
qed (rule srtp_step_inv)

section \<open>Properties\<close>

text \<open>
  C36: a connection stays until its own descriptor is closed: through any sequence of socket calls and
  received datagrams that does not fault and has no close of that descriptor, it remains registered under its fifo
  descriptor with the name of its fifo file, no message leaves its inbox, and the inbox stays ordered by
  sequence number, as do those of all the others.
\<close>

theorem interface_keeps_registry:
  assumes "srtp_run es s s'" and "registry_ok s" and "fd2conn s fd = Some (Some c)" and "Close_call fd \<notin> set es"
  shows "registry_ok s' \<and> (\<exists>c'. fd2conn s' fd = Some (Some c') \<and> c_fifo c' = fd \<and> c_filename c' = c_filename c \<and>
           mset (c_inbox c) \<subseteq># mset (c_inbox c') \<and> sorted (map m_seq (c_inbox c')))"
proof -
  have ok: "registry_ok s'" using tables.run_keeps [OF srtp_run_any [OF assms(1)] assms(2)] .
  obtain c' where "fd2conn s' fd = Some (Some c')" "kept c c'" using srtp_run_kept [OF assms(1,3,4)] by blast
  with ok registry_okD [OF ok] show ?thesis by (auto simp: kept_def conn_ok_def)
qed

lemma empty_socket:
  defines "s \<equiv> snd (the (srtp_socket calm_os empty_state))"
  shows "srtp_socket calm_os empty_state = Some (3, s)" "isOpenSRTPSock s 3"
    "fd2conn s 3 = Some (Some ((os_conn calm_os)\<lparr>c_fifo := 3, c_filename := fifo_name 0, c_inbox := []\<rparr>))"
  unfolding s_def
  by (simp_all add: srtp_socket_def srtp_socket_impl_def calm_make_fifo Let_def empty_state_def map_insert_def)
    (simp_all add: calm_os_def isOpenSRTPSock_def isValidFD_def)

theorem interface_keeps_registry_witness:
  "\<exists>s1 s2 c. srtp_socket calm_os empty_state = Some (3, s1) \<and> srtp_run [Bind_call 3, Close_call 4] s1 s2 \<and>
     registry_ok s2 \<and> fd2conn s2 3 = Some (Some c) \<and> c_fifo c = 3 \<and> c_filename c = fifo_name 0"
proof -
  let ?s1 = "snd (the (srtp_socket calm_os empty_state))" and ?a = "\<lparr>sin_addr = 9, sin_port = 1\<rparr>"
  obtain s2 where b: "srtp_bind ?s1 3 (Some ?a) 16 = Return (0, ?a\<lparr>sin_port := ntohs 1\<rparr>, s2)" "open_fds s2 = open_fds ?s1"
    using bind_swaps_port [OF empty_socket(2,3), of 16 ?a] by simp
  have "open_fds ?s1 = [3]"
    by (simp add: srtp_socket_def srtp_socket_impl_def calm_make_fifo Let_def empty_state_def) (simp add: calm_os_def)
  then have "srtp_close s2 4 = Return (-1, s2)"
    using b(2) by (simp add: srtp_close_def srtp_close_impl_def isOpenSRTPSock_def isValidFD_def)
  then have run: "srtp_run [Bind_call 3, Close_call 4] ?s1 s2"
    using srtp_step.bind [OF b(1)] srtp_step.close by (blast intro: srtp_run.intros)
  have "registry_ok ?s1"
    using srtp_socket_registry [of empty_state calm_os 3 ?s1] empty_socket(1)
    by (simp add: srtp_socket_def registry_ok_def empty_state_def)
  from interface_keeps_registry [OF run this empty_socket(3)] run empty_socket(1) show ?thesis by auto
qed

text \<open>
  C37: in every state the library can reach from its start, \<open>srtp_accept\<close> on an open socket does not return: the only
  code that fills the queue it waits for follows a return of \<open>recv_srtp_data\<close>, which never returns. Nor is there
  ever a thread that sends what a client writes to its socket, since \<open>srtp_connect\<close> starts it only
  after a handshake that never succeeds.
\<close>

theorem accept_never_returns:
  assumes "fresh_library s" and "srtp_run es s s'"
  shows "srtp_accept s' fd caller = (if isOpenSRTPSock s' fd then None else Some (Return (-1, None, s'))) \<and>
         (tid, Client_proxy fd) \<notin> set (workers s')"
  using library.run_inv [OF assms(1) srtp_run_any [OF assms(2)]] accept_idle
  by (simp_all add: library_inv_def no_client_proxy_def)

theorem accept_never_returns_witness:
  "\<exists>s'. srtp_socket calm_os empty_state = Some (3, s') \<and> srtp_accept s' 3 None = None \<and>
     (7, Client_proxy 3) \<notin> set (workers s')"
proof -
  let ?s' = "snd (the (srtp_socket calm_os empty_state))"
  have "srtp_run [Socket_call] empty_state ?s'"
    using srtp_step.socket [OF empty_socket(1)] by (blast intro: srtp_run.intros)
  moreover have "fresh_library empty_state" by (simp add: fresh_library_def empty_state_def)
  ultimately show ?thesis
    using accept_never_returns [of empty_state "[Socket_call]" ?s' 3 None 7] empty_socket by auto
qed

text \<open>
  The listening thread never gets anything from \<open>recv_srtp_data\<close> and never ends: whatever
  datagrams come, the call runs for ever or faults, and so does \<open>server_proxy\<close>.
\<close>

theorem listener_never_returns:
  "recv_srtp_data sys rx k s \<in> {None, Some Fault} \<and> server_proxy sys rx n fd s \<in> {None, Some Fault}"
proof -
  have recv: "recv_srtp_data sys rx k s = None \<or> recv_srtp_data sys rx k s = Some Fault" for k s
    using recv_srtp_data_fault by (cases "recv_srtp_data sys rx k s") auto
  have "proxy_loop sys rx n k s \<in> {None, Some Fault}" for k s
    using recv [of k s] by (subst proxy_loop.simps) auto
  then show ?thesis using recv by (simp add: server_proxy_def split: prod.splits option.splits)
qed

text \<open>
  The listening thread reads beyond its buffer of 2048 bytes exactly when the length field of the
  datagram is above 2032. Nothing compares that field, which the peer chooses, with the number of
  bytes that came.
\<close>

theorem length_field_overruns_buffer:
  assumes "length buf = 2048" and "find_conn sys s addr 2048 = Some (Return (fd, c, s1))"
  shows "recv_round sys s (Some (buf, addr)) = Some Fault \<longleftrightarrow> 2032 < unat (PKT_GETLEN buf)"
  using assms by (simp add: recv_round_def handle_data_pkt_def Let_def)

lemma oversized_packet: "PKT_GETLEN ([255, 255] @ replicate 2046 0) = 65535"
  by (simp add: PKT_GETLEN_def load16_def join16_def nth_append)

lemma empty_find_conn:
  "\<exists>s1. find_conn calm_os empty_state \<lparr>sin_addr = 9, sin_port = 1\<rparr> 2048 =
     Some (Return (3, (os_conn calm_os)\<lparr>c_fifo := 3, c_filename := fifo_name 0, c_inbox := [],
       c_addr := \<lparr>sin_addr = 9, sin_port = 1\<rparr>, c_addr_len := 2048\<rparr>, s1))"
  by (simp add: find_conn_def map_index_def srtp_socket_impl_def empty_state_def calm_make_fifo map_insert_def Let_def)
    (simp add: calm_os_def)

theorem length_field_overruns_buffer_witness:
  "recv_round calm_os empty_state (Some ([255, 255] @ replicate 2046 0, \<lparr>sin_addr = 9, sin_port = 1\<rparr>)) = Some Fault"
proof -
  obtain c s1 where "find_conn calm_os empty_state \<lparr>sin_addr = 9, sin_port = 1\<rparr> 2048 = Some (Return (3, c, s1))"
    using empty_find_conn by blast
  then show ?thesis
    using length_field_overruns_buffer [of "[255, 255] @ replicate 2046 0" calm_os empty_state "\<lparr>sin_addr = 9, sin_port = 1\<rparr>" 3 c s1]
    by (simp only: oversized_packet) simp
qed

text \<open>
  C39: closing a socket right after it was made gives back its descriptor, its fifo file and its place in
  the table, and leaves only the counter of file names changed, as long as the memory of the new
  connection holds no thread identifier. If it does, which nothing rules out since the field is not
  initialised, the descriptor and the thread that the memory happens to name go too.
\<close>

theorem close_undoes_socket:
  assumes "srtp_socket sys s = Some (fd, s1)" and "0 \<le> fd"
    and "fd \<notin> set (open_fds s)" and "fd2conn s fd = None"
    and "make_fifo sys (fifo_id s) = Some n" and "fifo_name n \<notin> set (fifo_files s)"
  shows "srtp_close s1 fd = Return (0,
    let back = s\<lparr>fifo_id := Suc n\<rparr>; junk = os_conn sys
    in if c_tid junk = 0 then back else cancel_worker (c_tid junk) (close_fd (c_sock junk) back))"
proof -
  let ?c = "(os_conn sys)\<lparr>c_fifo := fd, c_filename := fifo_name n, c_inbox := []\<rparr>"
  have s1: "s1 = s\<lparr>fifo_id := Suc n, fifo_files := fifo_name n # fifo_files s,
      fd2conn := (fd2conn s)(fd \<mapsto> Some ?c), open_fds := fd # open_fds s\<rparr>"
    using assms by (auto simp: srtp_socket_def srtp_socket_impl_def Let_def map_insert_def split: if_splits)
  have "isOpenSRTPSock s1 fd" by (simp add: s1 isOpenSRTPSock_def isValidFD_def)
  moreover have "(fd2conn s)(fd := None) = fd2conn s" using assms(4) by auto
  ultimately show ?thesis
    using assms(3,6)
    by (simp add: srtp_close_def srtp_close_impl_def with_conn_def s1 close_fd_def cancel_worker_def Let_def)
qed

theorem close_undoes_socket_witness:
  "\<exists>s1. srtp_socket calm_os empty_state = Some (3, s1) \<and> srtp_close s1 3 = Return (0, empty_state\<lparr>fifo_id := 1\<rparr>)"
proof -
  have "srtp_close (snd (the (srtp_socket calm_os empty_state))) 3 = Return (0,
    let back = empty_state\<lparr>fifo_id := Suc 0\<rparr>; junk = os_conn calm_os
    in if c_tid junk = 0 then back else cancel_worker (c_tid junk) (close_fd (c_sock junk) back))"
    by (rule close_undoes_socket [OF empty_socket(1)]) (simp_all add: empty_state_def calm_make_fifo)
  then show ?thesis using empty_socket(1) by (auto simp: calm_os_def)
qed

text \<open>
  Closing a socket that listens ends its thread and closes both its descriptors, the fifo and
  the UDP socket, and takes it out of the table.
\<close>

theorem close_ends_listening:
  assumes "srtp_listen sys s fd = Return (0, s1)" and "os_thread sys \<noteq> 0"
  shows "\<exists>s2. srtp_close s1 fd = Return (0, s2) \<and> fd2conn s2 fd = None \<and>
           {fd, os_socket sys} \<inter> set (open_fds s2) = {} \<and> os_thread sys \<notin> fst ` set (workers s2)"
proof -
  have op: "isOpenSRTPSock s fd"
    using assms(1) by (auto simp: srtp_listen_def srtp_listen_impl_def split: if_splits)
  with assms(1) obtain c where c: "fd2conn s fd = Some (Some c)"
    and s1: "s1 = start_worker sys (Server_proxy fd)
      (set_conn fd (c\<lparr>c_sock := os_socket sys, c_tid := os_thread sys\<rparr>)
        (set_conn fd (c\<lparr>c_sock := os_socket sys\<rparr>) (open_fd (os_socket sys) s)))"
    by (auto simp: srtp_listen_def srtp_listen_impl_def Let_def split: if_splits elim!: with_connE)
  have "isOpenSRTPSock s1 fd"
    using op by (auto simp: s1 isOpenSRTPSock_def isValidFD_def start_worker_def open_fd_def)
  moreover have "fd2conn s1 fd = Some (Some (c\<lparr>c_sock := os_socket sys, c_tid := os_thread sys\<rparr>))"
    by (simp add: s1)
  ultimately show ?thesis
    using assms(2) by (auto simp: srtp_close_def srtp_close_impl_def with_conn_def cancel_worker_def close_fd_def Let_def)
qed

lemma listening_example:
  defines "s \<equiv> set_conn 3 ((os_conn calm_os)\<lparr>c_addr_len := 16\<rparr>) (empty_state\<lparr>open_fds := [3]\<rparr>)"
  shows "srtp_listen calm_os s 3 = Return (0, snd (case srtp_listen calm_os s 3 of Return r \<Rightarrow> r))"
  by (simp add: s_def srtp_listen_def srtp_listen_impl_def with_conn_def isOpenSRTPSock_def isValidFD_def
      isValidIPAddress_def set_conn_def empty_state_def Let_def) (simp add: calm_os_def)

theorem close_ends_listening_witness:
  "\<exists>s s1 s2. srtp_listen calm_os s 3 = Return (0, s1) \<and> srtp_close s1 3 = Return (0, s2) \<and> fd2conn s2 3 = None \<and>
     {3, os_socket calm_os} \<inter> set (open_fds s2) = {} \<and> os_thread calm_os \<notin> fst ` set (workers s2)"
  using listening_example close_ends_listening [OF listening_example] by (auto simp: calm_os_def)

end
