(* ===== verification/Srtp_Debug.thy ===== *)
theory Srtp_Debug
  imports Srtp_Conn
begin

text \<open>
  The debug output of the SRTP library: \<^verbatim>\<open>debug\<close> of \<^verbatim>\<open>srtp_debug.cpp\<close>, which is compiled in by a macro of
  \<^verbatim>\<open>srtp_debug.h\<close>, and \<^verbatim>\<open>pkt_str\<close>, the one place that reads the switch set by \<^verbatim>\<open>srtp_debug\<close>.
\<close>

text \<open>The macro is defined in the header itself.\<close>

definition SRTP_DEBUG :: bool where
  "SRTP_DEBUG = True"

text \<open>What a call prints; \<open>formatted\<close> is what \<^verbatim>\<open>vfprintf\<close> makes of the format and its arguments.\<close>

definition debug :: "string \<Rightarrow> string" where
  "debug formatted = (if SRTP_DEBUG then formatted else [])"

text \<open>The buffer \<open>out\<close> of \<^verbatim>\<open>pkt_str\<close> after the call: the branch of the switch holds a comment and no statement.\<close>

definition pkt_str :: "srtp_state \<Rightarrow> buffer \<Rightarrow> sockaddr_in \<Rightarrow> sockaddr_in \<Rightarrow> int \<Rightarrow> string \<Rightarrow> string" where
  "pkt_str s buf remote local direction out = (if srtp_packet_debug s then out else out)"

text \<open>So the switch that is documented to turn the messages on and off changes no output.\<close>

lemma debug_switch_without_effect:
  "debug formatted = formatted"
  "pkt_str (srtp_debug s enable) buf remote local direction out = pkt_str (srtp_debug s (\<not> enable)) buf remote local direction out"
  by (simp_all add: debug_def SRTP_DEBUG_def pkt_str_def)

end
