(* ===== verification/Spec2Isabelle.thy ===== *)
theory Spec2Isabelle
  imports Ft_Copy Ft_Reorder Ft_Network Ft_Client_Run Ft_Server_Run Ft_Race Ft_Debug Srtp_System Srtp_Debug
begin

text \<open>
  Verification of a reliable file transfer over UDP (\<^verbatim>\<open>src/ftpclient\<close>) and of the socket library SRTP
  that was meant to carry it (\<^verbatim>\<open>src/srtp\<close>).

  \<^bold>\<open>The program.\<close> \<^verbatim>\<open>ftpclient.c\<close> sends a write request \<^verbatim>\<open>name|size\<close> to the server, then the file in
  packets of up to 2043 bytes with 16-bit sequence numbers, at most 50 of them unacknowledged, and
  ends with a FIN. \<^verbatim>\<open>ftpserver.c\<close> listens for requests and forks a child for each; the child answers
  from a socket of its own, writes data packets that arrive in turn, acknowledges with the number it
  expects next and ends on a FIN or after six silent seconds. Both use \<^verbatim>\<open>srtp_common.h\<close> (packet format, sending,
  receiving) and \<^verbatim>\<open>list.h\<close> (a linked list: the client's window and the server's children). The SRTP
  library (\<^verbatim>\<open>srtp.cpp\<close>, \<^verbatim>\<open>srtp_impl.cpp\<close> and their headers) offers a socket interface over UDP; the two
  programs do not call it.

  \<^bold>\<open>Theories and sources.\<close>
    \<^item> \<open>Prelude\<close>: bytes, 16-bit values in memory, overwriting parts of buffers, decimal numerals,
      sequence numbers modulo their width, and two interfaces for transition systems: \<open>invariant_system\<close>
      and, on top of it, \<open>simulation\<close>.
    \<^item> \<open>C_Library\<close>: the string functions and conversions of C that the sources call, and \<open>world\<close>, the
      state of a process together with the answers of its operating system.
    \<^item> \<open>List_H\<close>: \<^verbatim>\<open>list.h\<close> over an explicit heap; a queue interface (locale \<open>fifo\<close>) and its interpretation.
    \<^item> \<open>Ft_Common\<close>: \<^verbatim>\<open>srtp_common.h\<close>: packet format, \<^verbatim>\<open>send_packet\<close>, \<^verbatim>\<open>send_all\<close>, \<^verbatim>\<open>read_only_from\<close>,
      \<^verbatim>\<open>read_until_timeout\<close>. \<open>Ft_Debug\<close>: the debug output of the same file and the build with
      \<^verbatim>\<open>PL_DENOMINATOR\<close>.
    \<^item> \<open>Ft_Server\<close>: \<^verbatim>\<open>copy_file\<close> of \<^verbatim>\<open>ftpserver.c\<close>; \<open>handle_packet\<close> is the body of its receive loop.
      \<open>Ft_Server_Run\<close>: a child from its request to its end, and that packets cannot make it fault.
    \<^item> \<open>Ft_Client\<close>: \<^verbatim>\<open>copy_file\<close> of \<^verbatim>\<open>ftpclient.c\<close> with the request, the window (\<open>fill_window\<close>, \<open>ack_window\<close>)
      and the closing handshake. \<open>Ft_Client_Run\<close>: whole runs of it.
    \<^item> \<open>Ft_Exchange\<close>: the request from the client to the server, and the server's run without losses.
    \<^item> \<open>Ft_Transfer\<close>: client and server joined by channels that lose and duplicate datagrams; either
      process may give up at any time. \<open>Ft_Copy\<close>: the abstract copy this system implements.
      \<open>Ft_Reorder\<close>: the same processes over channels that reorder but lose and duplicate nothing.
    \<^item> \<open>Ft_Trace\<close>: runs of the server's loop and of the client after its request, taken apart into the
      datagrams they take and send; the functions return exactly what their traces lead to. \<open>Ft_Network\<close>: two
      traces woven over channels that lose and duplicate are a run of the system of \<open>Ft_Transfer\<close>.
    \<^item> \<open>Ft_Child\<close>: \<^verbatim>\<open>copy_file\<close> of the server cut where other processes can come between: the checks,
      the opening of the file, the receive loop; together they are the whole function
      (\<open>copy_file_server_begin\<close>).
    \<^item> \<open>Ft_Session\<close>: the client from its first request on, the listening process, and a child for every
      copy of the request that arrives, in one directory; a child's look at the directory and its opening
      of the file are separate steps. After the acceptance the client and the child that opened the file
      go on as in \<open>Ft_Transfer\<close>. \<open>Ft_Race\<close>: a second child opens the file, and what becomes of it.
    \<^item> \<open>Ft_Main\<close>: arguments, \<^verbatim>\<open>main\<close> of both programs, the listening process and its signal handler.
    \<^item> \<open>Srtp_Packet\<close>, \<open>Srtp_Io\<close>, \<open>Srtp_Conn\<close>: the packet macros, the transmission loops, and the tables,
      threads and calls of the SRTP library (\<^verbatim>\<open>srtp_impl.h\<close>, \<^verbatim>\<open>srtp_header.h\<close>, \<^verbatim>\<open>srtp_impl.cpp\<close>, \<^verbatim>\<open>srtp.cpp\<close>).
      \<open>Srtp_System\<close>: calls, received datagrams and what \<^verbatim>\<open>server_proxy\<close> does with a result of
      \<^verbatim>\<open>recv_srtp_data\<close>, in any order, as one system. \<open>Srtp_Debug\<close>: the debug output.
    \<^item> This theory: the two programs on a network without losses.

  \<^bold>\<open>Conventions.\<close> A system call takes its result from a stream of answers in the state (\<open>w_recv\<close>,
  \<open>w_send\<close>, \<open>w_time\<close> and so on), so a theorem about all worlds is a theorem about all behaviours of network
  and clock, and about writes and openings of files that fail or succeed in any order. An \<open>outcome\<close> is a returned value, an \<^verbatim>\<open>exit\<close> with its code, or a fault (an access the
  language leaves undefined). A loop that may run for ever is a partial function into \<open>option\<close>, where
  \<open>None\<close> means that it does not return; that a loop returns is a claim of its own. There is no fuel.
  Sequence numbers have their 16 bits; the window of 50 packets is far below half their range, which is
  what makes numbers in flight unambiguous after they wrap around.

  \<^bold>\<open>What is shown.\<close>
    \<^item> Transfer: over losses, duplicates and time-outs the server's file is a prefix of the client's, the
      server completes only with the client's file, a client that ends with status 0 has been
      acknowledged every byte, and completion stays possible as long as both processes run. All of this
      is the refinement of an abstract copy. Reordered acknowledgements break it, and a lost FIN makes the
      server discard a file the client reports as sent.
    \<^item> Programs: the functions that model the code, run against each other over such a network in any
      interleaving, end only as the system allows: the whole file, or none after a time-out.
    \<^item> Session: the same from the first request on, with the children that repeated requests start: until a
      second child opens the file, the file on the server is absent or a prefix of the client's and status 0
      means the whole file unless its child timed out; and success is possible until a child has accepted.
      A second child opens the file only if it looked before the first had opened it, or after the first
      has timed out. A child acknowledges a request once: if that is lost, the client is not
      accepted, and its repeated request is refused because of the file its first one created. Two
      children that look for the file before either has opened it both serve, and the idle one removes the
      file of the other.
    \<^item> Both programs on a network without losses: each ends with 0 and sends what the other was assumed to hear.
    \<^item> Server: success means a new file of the announced size made of packets in turn; other files are
      kept; every \<^verbatim>\<open>exit\<close> leaves no partial file; silence ends it; no request shorter than the buffer and no
      sequence of well-formed packets leads to a fault, if the block of a stripped name has room for the
      byte that \<^verbatim>\<open>strncpy\<close> writes behind it (\<open>w_usable\<close>).
    \<^item> Client: no datagram makes it leave its memory; the loops over the linked window compute plain
      list operations; in silence it repeats its request and its window exactly as long as its time-outs
      say, and then ends.
    \<^item> Request and packets are read back as they were built; the list is a queue; the listening process
      keeps and signals all children; the port check is exact.
    \<^item> SRTP: packets round-trip, complete writes, connections that stay in the tables with their inbox until they
      are closed, sockets that can be closed again; and why the library cannot carry data: connecting never succeeds, accepting and
      sending never return, payloads arrive shifted, and lengths are not checked.

  \<^bold>\<open>Not modelled.\<close> The build with \<^verbatim>\<open>USE_STD_TCP\<close>, which only calls the system; pauses (\<^verbatim>\<open>sleep\<close>,
  \<^verbatim>\<open>usleep\<close>), which only the clock shows; the text \<^verbatim>\<open>vfprintf\<close> makes of a format; \<^verbatim>\<open>malloc\<close> failing in
  \<^verbatim>\<open>create_packet\<close>, where the code does not test the pointer; the buffering of stdio, so that what \<^verbatim>\<open>fwrite\<close>
  has taken is in the file and \<^verbatim>\<open>fclose\<close>, whose result the code ignores, has nothing left to lose;
  errors of \<^verbatim>\<open>fread\<close>; data races between the threads of the SRTP
  library, whose calls and rounds are atomic steps here; constants and prototypes nothing uses; tests,
  build files and documentation. In \<open>Ft_Transfer\<close> and \<open>Ft_Session\<close> the time-outs of the processes are
  steps that may happen at any time; the clocks that cause them are modelled in \<open>Ft_Client\<close> and
  \<open>Ft_Server\<close>, and the possibilities shown for the joint systems are possibilities for processes whose
  clocks do not run out. In \<open>Ft_Session\<close> requests are those of one client, and the description ends
  when a second child opens the file; \<open>Ft_Race\<close> goes on from there for two children. A file is its content
  under a name, so writing to a file that another process has removed is outside the model.
\<close>

section \<open>Client and server together\<close>

text \<open>The datagrams among the answers of a socket.\<close>

fun datagrams :: "recv_result list \<Rightarrow> buffer list" where
  "datagrams [] = []"
| "datagrams (Rx_dgram src p # rs) = p # datagrams rs"
| "datagrams (Rx_error e # rs) = datagrams rs"

lemma datagrams_append: "datagrams (xs @ ys) = datagrams xs @ datagrams ys"
  by (induction xs rule: datagrams.induct) simp_all

lemma datagrams_acks: "datagrams (map (ack_from src) as) = map (\<lambda>a. control CMD_ACK (seq16 a)) as"
  by (induction as) (simp_all add: ack_from_def)

lemma acks_between_append: "a \<le> b \<Longrightarrow> b \<le> c \<Longrightarrow> acks_between a b @ acks_between b c = acks_between a c"
  using upt_add_eq_append [of "a + 2" "b + 2" "c - b"] by (simp add: acks_between_def flip: map_append)

lemma datagrams_rounds:
  "datagrams (concat (map (\<lambda>r. round_replies src (WINDOW_SIZE * r)) [0..<R])) = acks_between 0 (WINDOW_SIZE * R)"
proof (induction R)
  case (Suc R)
  have "datagrams (round_replies src (WINDOW_SIZE * R)) = acks_between (WINDOW_SIZE * R) (WINDOW_SIZE * Suc R)"
    by (simp add: round_replies_def datagrams_append datagrams_acks acks_between_def add.commute)
  with Suc show ?case using acks_between_append [of 0 "WINDOW_SIZE * R" "WINDOW_SIZE * Suc R"]
    by (simp add: datagrams_append)
qed simp

lemma datagrams_server_replies:
  "datagrams (server_replies src n) = control CMD_ACK 1 # acks_between 0 (WINDOW_SIZE * windows n) @ [control CMD_FINACK 0]"
  unfolding server_replies_def ack_from_def datagrams.simps datagrams_append datagrams_rounds
  by (simp add: seq16_def)

text \<open>
  C10: a complete exchange without losses, as the two programs run it. The client hears what a server
  answers that receives everything, and the server hears the client's request, its packets and its
  FIN. Then both programs return 0 and the server has the client's file under its base name; what the
  client has sent is exactly what the server heard, and what the server has sent is exactly what the
  client heard, up to the number of FINACKs. So the two runs fit together: each produces the input
  the other was assumed to get. If the name has a directory, the server's allocator must leave a byte to
  spare behind the block of the stripped name.
\<close>

theorem loss_free_exchange:
  assumes "prompt wc" and "files wc filename = Some content" and "malloc_serves WINDOW_SIZE mal"
    and "works ws" and "files ws (base_name filename) = None"
    and "0 \<notin> set filename" and "124 \<notin> set filename" and "int (length content) < 2 ^ 63"
    and "length (request_text filename (int (length content))) < PAYLOAD_SIZE"
    and "arrives wc (server_replies src (length content))"
    and "client_sends target src filename content = (target, request) # map (Pair src) data"
    and "incoming ws data" and "spare_byte ws filename"
  shows "\<exists>wc' ws' k.
           copy_file_client mal garbage wc content filename target = Some (Return 0, wc') \<and>
           copy_file_server ws (heard request) origin = Some (Return 0, ws') \<and>
           files ws' (base_name filename) = Some content \<and>
           newly_sent wc wc' = request # data \<and>
           newly_sent ws ws' @ [control CMD_FINACK 0] =
             datagrams (server_replies src (length content)) @ replicate k (control CMD_FINACK 0)"
proof -
  let ?N = "WINDOW_SIZE * windows (length content)"
  have "map snd (client_sends target src filename content) = request # data"
    using assms(11) by (simp add: comp_def)
  then have req: "request = request_packet (request_buffer (replicate PACKET_SIZE 0) filename (int (length content)))"
    and data: "data = packets_between content 0 ?N @ [control CMD_FIN 0]"
    by (auto simp: client_sends_def comp_def)
  obtain wc' where c: "copy_file_client mal garbage wc content filename target = Some (Return 0, wc')"
    "sent wc' = sent wc @ client_sends target src filename content"
    using client_run [OF assms(1-3,9,10)] by blast
  have "length content \<le> PAYLOAD_SIZE * ?N"
    using windows_less [of "windows (length content)" "length content"] by simp
  moreover have "length (replicate PACKET_SIZE (0 :: byte)) = PACKET_SIZE" by simp
  ultimately obtain ws' k where s: "copy_file_server ws (heard request) origin = Some (Return 0, ws')"
    "files ws' (base_name filename) = Some content"
    "sent ws' = sent ws @ map (Pair origin) (control CMD_ACK 1 # acks_between 0 ?N @ replicate k (control CMD_FINACK 0))"
    using served_run [OF assms(4-9) _ assms(12) [unfolded data]] assms(13) unfolding req by blast
  have "newly_sent wc wc' = request # data" using c(2) assms(11) by (simp add: newly_sent_def comp_def)
  moreover have "newly_sent ws ws' @ [control CMD_FINACK 0] =
      datagrams (server_replies src (length content)) @ replicate k (control CMD_FINACK 0)"
    using s(3) by (simp add: newly_sent_def datagrams_server_replies comp_def replicate_append_same)
  ultimately show ?thesis using c(1) s(1,2) by blast
qed

text \<open>A file of three packets between two machines on which everything works.\<close>

definition example_client :: world where
  "example_client = (hearing (server_replies \<lparr>sin_addr = 1, sin_port = 9\<rparr> (length big_file)))\<lparr>files := [[97] \<mapsto> big_file]\<rparr>"

definition example_data :: "buffer list" where
  "example_data = packets_between big_file 0 (WINDOW_SIZE * windows (length big_file)) @ [control CMD_FIN 0]"

definition example_server :: world where
  "example_server = hearing (map (Rx_dgram \<lparr>sin_addr = 2, sin_port = 7\<rparr>) example_data)"

definition big_request :: buffer where
  "big_request = request_packet (request_buffer (replicate PACKET_SIZE 0) [97] (int (length big_file)))"

theorem loss_free_exchange_witness:
  "\<exists>wc' ws' k.
     copy_file_client example_malloc_50 0 example_client big_file [97] \<lparr>sin_addr = 1, sin_port = 2\<rparr> = Some (Return 0, wc') \<and>
     copy_file_server example_server (heard big_request) \<lparr>sin_addr = 2, sin_port = 7\<rparr> = Some (Return 0, ws') \<and>
     files ws' (base_name [97]) = Some big_file \<and> newly_sent example_client wc' = big_request # example_data \<and>
     newly_sent example_server ws' @ [control CMD_FINACK 0] =
       datagrams (server_replies \<lparr>sin_addr = 1, sin_port = 9\<rparr> (length big_file)) @ replicate k (control CMD_FINACK 0)"
proof (rule loss_free_exchange)
  show "prompt example_client" "arrives example_client (server_replies \<lparr>sin_addr = 1, sin_port = 9\<rparr> (length big_file))"
    unfolding example_client_def by (rule hearing_facts)+
  show "works example_server" "incoming example_server example_data"
    unfolding example_server_def by (rule hearing_facts)+
  show "malloc_serves WINDOW_SIZE example_malloc_50" by (rule malloc_serves_first_free)
  show "spare_byte example_server [97]" by (simp add: spare_byte_def)
  show "files example_client [97] = Some big_file" by (simp add: example_client_def)
  show "files example_server (base_name [97]) = None" by (simp add: example_server_def hearing_def)
  show "length (request_text [97] (int (length big_file))) < PAYLOAD_SIZE"
    by (simp add: request_text_def cstr_def print_ld_def digits.simps big_file_def)
  show "client_sends \<lparr>sin_addr = 1, sin_port = 2\<rparr> \<lparr>sin_addr = 1, sin_port = 9\<rparr> [97] big_file =
      (\<lparr>sin_addr = 1, sin_port = 2\<rparr>, big_request) # map (Pair \<lparr>sin_addr = 1, sin_port = 9\<rparr>) example_data"
    by (simp add: client_sends_def big_request_def example_data_def)
qed (simp_all add: big_file_def)

end
